(* ===== verification/Prelude.thy ===== *)
theory Prelude
  imports Main "HOL-Library.Sublist" "HOL-Library.List_Lexorder" "HOL-Library.Char_ord"
begin

text \<open>
  The shared vocabulary of the development: instants and durations, the error values the Go
  code returns, the result type of a fallible call, the two relational operations every SQL
  statement of the store is built from (a filtered update and a filtered select), association
  lists standing for Go maps, the wrap-around of Go's 64-bit \<open>int\<close>, and the fragments of the
  Go standard library's \<open>strings\<close> package that the sources use.
\<close>

section \<open>Collections\<close>

named_theorems table_simps \<open>rewrite rules of filtered updates and selects on tables\<close>
named_theorems amap_simps \<open>rewrite rules of Go maps as association lists\<close>
named_theorems go_strings \<open>facts on the modelled part of Go's strings package\<close>

section \<open>Time\<close>

text \<open>
  An instant is a number of microseconds since the Unix epoch, the granularity of a
  \<open>TIMESTAMPTZ\<close> column; a \<open>time.Duration\<close> is a number of microseconds too.
  \<open>zeroTime\<close> is Go's zero \<open>time.Time\<close>, 0001-01-01T00:00:00Z.
\<close>

type_synonym time = int
type_synonym duration = int

abbreviation Second :: duration where "Second \<equiv> 1000000"
abbreviation Minute :: duration where "Minute \<equiv> 60000000"
abbreviation Hour :: duration where "Hour \<equiv> 3600000000"
abbreviation Day :: duration where "Day \<equiv> 86400000000"

definition zeroTime :: time where "zeroTime = -62135596800000000"

definition IsZero :: "time \<Rightarrow> bool" where "IsZero t \<longleftrightarrow> t = zeroTime"

definition UnixMilli :: "time \<Rightarrow> int" where "UnixMilli t = t div 1000"

lemma UnixMilli_mono: "s \<le> t \<Longrightarrow> UnixMilli s \<le> UnixMilli t"
  by (simp add: UnixMilli_def zdiv_mono1)

section \<open>Errors and results\<close>

text \<open>
  The error values that cross a function boundary. \<open>CronErr\<close> lists what the cron parser
  reports (\<open>Diverges\<close> is the model's value for "did not return"; it is proved not to occur). \<open>DriverErr\<close> is any error the Postgres
  driver, the Redis client or a context hands back, with its message.
\<close>

datatype CronErr =
    FieldCount nat
  | BadStep string
  | BadRange string
  | BadValue string
  | OutOfRange int
  | OutOfBounds int int int int
  | InField string CronErr
  | Diverges

datatype err =
    ErrConflict
  | ErrNoRows
  | ErrInvalidPriority
  | ErrInvalidType
  | ErrWorkerGone
  | ErrBufferFull
  | ValidationError string
  | CycleError "string list"
  | CronError CronErr
  | DriverErr string

type_synonym 'a res = "err + 'a"

section \<open>Go's 64-bit integers\<close>

definition wrap64 :: "int \<Rightarrow> int" where
  "wrap64 n = (n + 2 ^ 63) mod 2 ^ 64 - 2 ^ 63"

lemma wrap64_id: "- (2 ^ 63) \<le> n \<Longrightarrow> n < 2 ^ 63 \<Longrightarrow> wrap64 n = n"
  by (simp add: wrap64_def)

lemma wrap64_range: "- (2 ^ 63) \<le> wrap64 n \<and> wrap64 n < 2 ^ 63"
  by (simp add: wrap64_def)

section \<open>Tables\<close>

text \<open>
  A table is the list of its rows in the order a scan returns them. \<open>updateWhere P f\<close> is
  \<open>UPDATE ... SET f WHERE P\<close>, \<open>selectWhere P\<close> is \<open>SELECT ... WHERE P\<close>, and the rows that
  \<open>UPDATE ... RETURNING\<close> hands back are \<open>map f (selectWhere P rows)\<close>.
\<close>

definition updateWhere :: "('r \<Rightarrow> bool) \<Rightarrow> ('r \<Rightarrow> 'r) \<Rightarrow> 'r list \<Rightarrow> 'r list" where
  "updateWhere P f rows = map (\<lambda>r. if P r then f r else r) rows"

definition selectWhere :: "('r \<Rightarrow> bool) \<Rightarrow> 'r list \<Rightarrow> 'r list" where
  "selectWhere P rows = filter P rows"

lemma updateWhere_Nil [simp]: "updateWhere P f [] = []"
  by (simp add: updateWhere_def)

lemma updateWhere_Cons [simp]:
  "updateWhere P f (r # rs) = (if P r then f r else r) # updateWhere P f rs"
  by (simp add: updateWhere_def)

lemma selectWhere_Nil [simp]: "selectWhere P [] = []"
  by (simp add: selectWhere_def)

lemma selectWhere_Cons [simp]:
  "selectWhere P (r # rs) = (if P r then r # selectWhere P rs else selectWhere P rs)"
  by (simp add: selectWhere_def)

lemma length_updateWhere [table_simps, simp]: "length (updateWhere P f rows) = length rows"
  by (simp add: updateWhere_def)

lemma set_updateWhere [table_simps]:
  "set (updateWhere P f rows) = (\<lambda>r. if P r then f r else r) ` set rows"
  by (simp add: updateWhere_def)

lemma set_selectWhere [table_simps]: "set (selectWhere P rows) = {r \<in> set rows. P r}"
  by (simp add: selectWhere_def)

lemma updateWhere_none: "(\<And>r. r \<in> set rows \<Longrightarrow> \<not> P r) \<Longrightarrow> updateWhere P f rows = rows"
  by (induction rows) auto

lemma map_key_updateWhere:
  assumes "\<And>r. r \<in> set rows \<Longrightarrow> P r \<Longrightarrow> key (f r) = key r"
  shows "map key (updateWhere P f rows) = map key rows"
  using assms by (induction rows) auto

lemma updateWhere_ball:
  assumes "\<forall>r \<in> set rows. Q r" and "\<And>r. r \<in> set rows \<Longrightarrow> P r \<Longrightarrow> Q r \<Longrightarrow> Q (f r)"
  shows "\<forall>r \<in> set (updateWhere P f rows). Q r"
  using assms by (auto simp: set_updateWhere)

text \<open>Looking a row up by its primary key.\<close>

definition lookupRow :: "('r \<Rightarrow> 'k) \<Rightarrow> 'k \<Rightarrow> 'r list \<Rightarrow> 'r option" where
  "lookupRow key k rows = List.find (\<lambda>r. key r = k) rows"

lemma lookupRow_Nil [simp]: "lookupRow key k [] = None"
  by (simp add: lookupRow_def)

lemma lookupRow_Cons [simp]:
  "lookupRow key k (r # rs) = (if key r = k then Some r else lookupRow key k rs)"
  by (simp add: lookupRow_def)

lemma lookupRow_Some: "lookupRow key k rows = Some r \<Longrightarrow> r \<in> set rows \<and> key r = k"
  by (induction rows) (auto split: if_splits)

lemma lookupRow_None: "lookupRow key k rows = None \<longleftrightarrow> k \<notin> key ` set rows"
  by (induction rows) auto

lemma lookupRow_unique:
  "distinct (map key rows) \<Longrightarrow> r \<in> set rows \<Longrightarrow> lookupRow key (key r) rows = Some r"
  by (induction rows) (auto simp: rev_image_eqI)

lemma lookupRow_append:
  "lookupRow key k (xs @ ys) = (case lookupRow key k xs of Some r \<Rightarrow> Some r | None \<Rightarrow> lookupRow key k ys)"
  by (induction xs) auto

lemma lookupRow_updateWhere:
  assumes "\<And>r. key (f r) = key r"
  shows "lookupRow key k (updateWhere P f rows) =
    map_option (\<lambda>r. if P r then f r else r) (lookupRow key k rows)"
  by (induction rows) (auto simp: assms)

text \<open>A guarded update of the row with primary key \<open>k\<close>: the compare-and-swap of the store.\<close>

lemma selectWhere_key:
  assumes "distinct (map key rows)"
  shows "selectWhere (\<lambda>r. key r = k \<and> P r) rows =
    (case lookupRow key k rows of None \<Rightarrow> [] | Some r \<Rightarrow> if P r then [r] else [])"
  using assms
proof (induction rows)
  case Nil
  then show ?case by simp
next
  case (Cons a rows)
  have "selectWhere (\<lambda>r. key r = k \<and> P r) rows = []" if "key a = k"
    using Cons.prems that by (auto simp: selectWhere_def filter_empty_conv rev_image_eqI)
  then show ?case using Cons by (auto split: option.splits)
qed

section \<open>Go maps\<close>

text \<open>
  A Go map is an association list with distinct keys; its order is the order in which
  \<open>range\<close> visits the entries, which Go leaves open, so a statement about such a list is a
  statement about every visiting order. \<open>aput\<close> is \<open>m[k] = v\<close>, \<open>adel\<close> is \<open>delete(m, k)\<close>.
\<close>

type_synonym ('k, 'v) amap = "('k \<times> 'v) list"

fun aput :: "'k \<Rightarrow> 'v \<Rightarrow> ('k, 'v) amap \<Rightarrow> ('k, 'v) amap" where
  "aput k v [] = [(k, v)]"
| "aput k v (e # m) = (if fst e = k then (k, v) # m else e # aput k v m)"

definition adel :: "'k \<Rightarrow> ('k, 'v) amap \<Rightarrow> ('k, 'v) amap" where
  "adel k m = filter (\<lambda>e. fst e \<noteq> k) m"

lemma map_of_aput [amap_simps, simp]: "map_of (aput k v m) = (map_of m)(k \<mapsto> v)"
  by (induction m) (auto simp: fun_eq_iff)

lemma map_of_adel [amap_simps, simp]: "map_of (adel k m) = (map_of m)(k := None)"
  by (induction m) (auto simp: adel_def fun_eq_iff)

lemma adel_Nil [simp]: "adel k [] = []"
  by (simp add: adel_def)

lemma adel_Cons [simp]: "adel k (e # m) = (if fst e = k then adel k m else e # adel k m)"
  by (simp add: adel_def)

lemma keys_aput [amap_simps]: "fst ` set (aput k v m) = insert k (fst ` set m)"
  by (induction m) auto

lemma keys_adel [amap_simps]: "fst ` set (adel k m) = fst ` set m - {k}"
  by (auto simp: adel_def image_iff)

lemma distinct_aput [simp]: "distinct (map fst m) \<Longrightarrow> distinct (map fst (aput k v m))"
  by (induction m) (auto simp: keys_aput)

lemma distinct_adel [simp]: "distinct (map fst m) \<Longrightarrow> distinct (map fst (adel k m))"
  by (induction m) (auto simp: keys_adel adel_def)

lemma length_adel_le: "length (adel k m) \<le> length m"
  by (simp add: adel_def)

lemma length_adel: "distinct (map fst m) \<Longrightarrow>
  length (adel k m) = (if k \<in> fst ` set m then length m - 1 else length m)"
proof (induction m)
  case Nil
  then show ?case by simp
next
  case (Cons e m)
  have "adel k m = m" if "k \<notin> fst ` set m"
    using that by (auto simp: adel_def intro!: filter_True)
  moreover have "0 < length m" if "k \<in> fst ` set m"
    using that by (cases m) auto
  ultimately show ?case using Cons by (auto simp: Suc_diff_le)
qed

lemma length_aput: "length (aput k v m) = (if k \<in> fst ` set m then length m else Suc (length m))"
  by (induction m) auto

lemma aput_new: "k \<notin> fst ` set m \<Longrightarrow> aput k v m = m @ [(k, v)]"
  by (induction m) auto

section \<open>Go strings\<close>

text \<open>\<open>strings.HasPrefix\<close>, \<open>strings.Contains\<close>, and \<open>strings.ToLower\<close> on ASCII text.\<close>

fun HasPrefix :: "string \<Rightarrow> string \<Rightarrow> bool" where
  "HasPrefix s [] = True"
| "HasPrefix [] (c # cs) = False"
| "HasPrefix (d # s) (c # cs) = (d = c \<and> HasPrefix s cs)"

fun Contains :: "string \<Rightarrow> string \<Rightarrow> bool" where
  "Contains [] sub = (sub = [])"
| "Contains (c # s) sub = (HasPrefix (c # s) sub \<or> Contains s sub)"

lemma HasPrefix_prefix [go_strings]: "HasPrefix s p \<longleftrightarrow> prefix p s"
  by (induction s p rule: HasPrefix.induct) auto

lemma Contains_sublist [go_strings]: "Contains s sub \<longleftrightarrow> sublist sub s"
  by (induction s) (auto simp: HasPrefix_prefix sublist_Cons_right)

definition toLowerChar :: "char \<Rightarrow> char" where
  "toLowerChar c = (if 65 \<le> (of_char c :: nat) \<and> (of_char c :: nat) \<le> 90
     then char_of ((of_char c :: nat) + 32) else c)"

definition ToLower :: "string \<Rightarrow> string" where
  "ToLower s = map toLowerChar s"

text \<open>\<open>strings.Split\<close> on a one-character separator.\<close>

fun splitChar :: "char \<Rightarrow> string \<Rightarrow> string list" where
  "splitChar d [] = [[]]"
| "splitChar d (c # s) =
     (if c = d then [] # splitChar d s
      else (case splitChar d s of [] \<Rightarrow> [[c]] | w # ws \<Rightarrow> (c # w) # ws))"

lemma splitChar_nonempty [simp]: "splitChar d s \<noteq> []"
  by (induction s) (auto split: list.splits)

definition isSpace :: "char \<Rightarrow> bool" where
  "isSpace c \<longleftrightarrow> (of_char c :: nat) \<in> {9, 10, 11, 12, 13, 32}"

text \<open>
  \<open>strings.Fields\<close>. A string is a sequence of bytes; \<open>spaceLen\<close> is the number of bytes of the white
  space that a string begins with (\<open>unicode.IsSpace\<close>: beside the ASCII characters U+0085, U+00A0, U+1680,
  U+2000 to U+200A, U+2028, U+2029, U+202F, U+205F and U+3000 in UTF-8), 0 when it begins with another character.
  A byte that begins such a sequence is never inside another character.
\<close>

definition wideSpaces :: "nat list list" where
  "wideSpaces = [[225, 154, 128], [226, 128, 168], [226, 128, 169], [226, 128, 175], [226, 129, 159], [227, 128, 128]] @
     map (\<lambda>k. [226, 128, k]) [128..<139]"

definition spaceLen :: "string \<Rightarrow> nat" where
  "spaceLen s =
     (case s of [] \<Rightarrow> 0
      | c # _ \<Rightarrow>
          if isSpace c then 1
          else if map of_char (take 2 s) \<in> set [[194, 133], [194, 160 :: nat]] then 2
          else if map of_char (take 3 s) \<in> set wideSpaces then 3
          else 0)"

function fieldsFrom :: "string \<Rightarrow> string \<Rightarrow> string list" where
  "fieldsFrom cur [] = (if cur = [] then [] else [cur])"
| "fieldsFrom cur (c # s) =
     (if spaceLen (c # s) = 0 then fieldsFrom (cur @ [c]) s
      else (if cur = [] then [] else [cur]) @ fieldsFrom [] (drop (spaceLen (c # s) - 1) s))"
  by pat_completeness auto
termination by (relation "measure (length \<circ> snd)") auto

definition Fields :: "string \<Rightarrow> string list" where
  "Fields s = fieldsFrom [] s"

text \<open>The decimal rendering of a natural number, as \<open>fmt\<close>'s \<open>%d\<close> prints it.\<close>

fun showNat :: "nat \<Rightarrow> string" where
  "showNat n = (if n < 10 then [char_of (48 + n)]
     else showNat (n div 10) @ [char_of (48 + n mod 10)])"

declare showNat.simps [simp del]

definition showInt :: "int \<Rightarrow> string" where
  "showInt i = (if i < 0 then ''-'' @ showNat (nat (- i)) else showNat (nat i))"

end
