(* ===== verification/Calendar.thy ===== *)
theory Calendar
  imports Prelude
begin

text \<open>
  The part of Go's \<open>time\<close> package that the cron code uses, in UTC: \<open>Year\<close>, \<open>Month\<close>,
  \<open>Day\<close>, \<open>Hour\<close>, \<open>Minute\<close> and \<open>Weekday\<close> of an instant, and \<open>time.Date\<close> with its
  normalisation of out-of-range arguments, over the proleptic Gregorian calendar. The lemmas
  give the round trip between the two directions and the lengths of the jumps the cron search
  makes (to the next hour, the next day, the first of the next month).
\<close>

section \<open>Years\<close>

definition leap :: "int \<Rightarrow> bool" where
  "leap y \<longleftrightarrow> (4 dvd y \<and> \<not> 100 dvd y) \<or> 400 dvd y"

text \<open>\<open>yday0 y\<close> is the number of days from 1970-01-01 to January 1st of year \<open>y\<close>.\<close>

definition yday0 :: "int \<Rightarrow> int" where
  "yday0 y = 365 * (y - 1970) + (y - 1) div 4 - (y - 1) div 100 + (y - 1) div 400 - 477"

definition yearLen :: "int \<Rightarrow> int" where
  "yearLen y = (if leap y then 366 else 365)"

lemma div_pred: "(0::int) < k \<Longrightarrow> y div k = (y - 1) div k + (if k dvd y then 1 else 0)"
proof -
  assume k: "0 < k"
  have y: "y = k * (y div k) + y mod k" by simp
  show ?thesis
  proof (cases "k dvd y")
    case True
    then obtain q where q: "y = k * q" by blast
    have "(k * q - 1) div k = (k * (q - 1) + (k - 1)) div k" by (simp add: algebra_simps)
    also have "\<dots> = q - 1 + (k - 1) div k"
      using k by (metis add.commute div_mult_self2 less_irrefl mult.commute)
    finally show ?thesis using q k by (simp add: div_pos_pos_trivial)
  next
    case False
    then have m: "0 < y mod k" using k by (simp add: dvd_eq_mod_eq_0 order_less_le)
    have "y - 1 = k * (y div k) + (y mod k - 1)" using y by linarith
    moreover have "0 \<le> y mod k - 1" "y mod k - 1 < k" using m k pos_mod_bound [of k y] by linarith+
    ultimately have "(y - 1) div k = y div k" by (metis div_pos_pos_trivial div_mult_self4 k add.right_neutral less_irrefl)
    with False show ?thesis by simp
  qed
qed

lemma yday0_Suc: "yday0 (y + 1) = yday0 y + yearLen y"
proof -
  have d: "400 dvd y \<Longrightarrow> 100 dvd y" "100 dvd y \<Longrightarrow> 4 dvd y" for y :: int
    by (auto elim!: dvd_trans [rotated])
  have "yday0 (y + 1) - yday0 y =
      365 + (y div 4 - (y - 1) div 4) - (y div 100 - (y - 1) div 100) + (y div 400 - (y - 1) div 400)"
    by (simp add: yday0_def)
  also have "\<dots> = yearLen y"
    using div_pred [of 4 y] div_pred [of 100 y] div_pred [of 400 y] d(1) [of y] d(2) [of y]
    by (auto simp: yearLen_def leap_def)
  finally show ?thesis by simp
qed

lemma yearLen_bounds: "365 \<le> yearLen y" "yearLen y \<le> 366"
  by (auto simp: yearLen_def)

text \<open>The year of a day number: upwards from an estimate that is never too late.\<close>

function yearFrom :: "int \<Rightarrow> int \<Rightarrow> int" where
  "yearFrom y d = (if yday0 (y + 1) \<le> d then yearFrom (y + 1) d else y)"
  by pat_completeness auto
termination
proof (relation "measure (\<lambda>(y, d). nat (d - yday0 y))", goal_cases)
  case 1
  show ?case by simp
next
  case (2 y d)
  then have "yday0 y < yday0 (y + 1)" using yday0_Suc [of y] yearLen_bounds [of y] by linarith
  with 2 show ?case by simp
qed

declare yearFrom.simps [simp del]

definition yearOfDay :: "int \<Rightarrow> int" where
  "yearOfDay d = yearFrom (1970 + (if 0 \<le> d then d div 366 else d div 365)) d"

lemma yearFrom_spec:
  "yday0 y \<le> d \<Longrightarrow> yday0 (yearFrom y d) \<le> d \<and> d < yday0 (yearFrom y d + 1)"
proof (induction y d rule: yearFrom.induct)
  case (1 y d)
  then show ?case by (cases "yday0 (y + 1) \<le> d") (auto simp: yearFrom.simps [of y d])
qed

lemma yday0_upper: "0 \<le> k \<Longrightarrow> yday0 (1970 + k) \<le> 366 * k"
proof (induction k rule: int_ge_induct)
  case base
  show ?case by (simp add: yday0_def)
next
  case (step k)
  then show ?case using yday0_Suc [of "1970 + k"] yearLen_bounds [of "1970 + k"]
    by (simp add: add.assoc)
qed

lemma yday0_lower: "k \<le> 0 \<Longrightarrow> yday0 (1970 + k) \<le> 365 * k"
proof (induction k rule: int_le_induct)
  case base
  show ?case by (simp add: yday0_def)
next
  case (step k)
  then show ?case using yday0_Suc [of "1970 + (k - 1)"] yearLen_bounds [of "1970 + (k - 1)"]
    by (simp add: algebra_simps)
qed

lemma yearOfDay_spec: "yday0 (yearOfDay d) \<le> d \<and> d < yday0 (yearOfDay d + 1)"
proof -
  have "yday0 (1970 + (if 0 \<le> d then d div 366 else d div 365)) \<le> d"
  proof (cases "0 \<le> d")
    case True
    then have "yday0 (1970 + d div 366) \<le> 366 * (d div 366)"
      by (intro yday0_upper) (simp add: pos_imp_zdiv_nonneg_iff)
    also have "\<dots> \<le> d" using pos_mod_sign [of 366 d] by (simp add: minus_mod_eq_mult_div [symmetric])
    finally show ?thesis using True by simp
  next
    case False
    then have "d div 365 \<le> 0" by (simp add: neg_imp_zdiv_neg_iff order_less_imp_le)
    then have "yday0 (1970 + d div 365) \<le> 365 * (d div 365)" by (rule yday0_lower)
    also have "\<dots> \<le> d" using pos_mod_sign [of 365 d] by (simp add: minus_mod_eq_mult_div [symmetric])
    finally show ?thesis using False by simp
  qed
  then show ?thesis unfolding yearOfDay_def by (rule yearFrom_spec)
qed

section \<open>Months\<close>

definition monthLen :: "int \<Rightarrow> int \<Rightarrow> int" where
  "monthLen y m = (if m = 2 then (if leap y then 29 else 28)
     else if m \<in> {4, 6, 9, 11} then 30 else 31)"

lemma monthLen_bounds: "28 \<le> monthLen y m" "monthLen y m \<le> 31"
  by (auto simp: monthLen_def)

text \<open>Days before the first of month \<open>m\<close> (1 to 12) in year \<open>y\<close>.\<close>

definition daysBefore :: "int \<Rightarrow> int \<Rightarrow> int" where
  "daysBefore y m = sum_list (map (monthLen y) [1..m - 1])"

lemma daysBefore_1 [simp]: "daysBefore y 1 = 0"
  by (simp add: daysBefore_def)

lemma daysBefore_Suc: "1 \<le> m \<Longrightarrow> daysBefore y (m + 1) = daysBefore y m + monthLen y m"
  by (simp add: daysBefore_def upto_rec2 add.commute)

lemma upto_12: "[1..12] = [1, 2, 3, 4, 5, 6, 7, 8, 9, 10, 11, 12::int]"
  by (simp add: upto.simps)

lemma daysBefore_13: "daysBefore y 13 = yearLen y"
  by (simp add: daysBefore_def upto_12 monthLen_def yearLen_def)

text \<open>Month and day of the month of the \<open>r\<close>-th day (from 0) at or after the first of \<open>m\<close>.\<close>

function monthWalk :: "int \<Rightarrow> int \<Rightarrow> int \<Rightarrow> int \<times> int" where
  "monthWalk y m r =
     (if m < 12 \<and> monthLen y m \<le> r then monthWalk y (m + 1) (r - monthLen y m) else (m, r + 1))"
  by pat_completeness auto
termination
  by (relation "measure (\<lambda>(y, m, r). nat (12 - m))") auto

declare monthWalk.simps [simp del]

lemma monthWalk_spec:
  assumes "1 \<le> m" "m \<le> 12" "0 \<le> r" "daysBefore y m + r < yearLen y"
    and "monthWalk y m r = (m', d')"
  shows "1 \<le> m' \<and> m' \<le> 12 \<and> 1 \<le> d' \<and> d' \<le> monthLen y m' \<and>
    daysBefore y m' + d' - 1 = daysBefore y m + r"
  using assms
proof (induction y m r arbitrary: m' d' rule: monthWalk.induct)
  case (1 y m r)
  show ?case
  proof (cases "m < 12 \<and> monthLen y m \<le> r")
    case True
    then show ?thesis
      using "1.IH" [OF True] "1.prems" daysBefore_Suc [of m y] by (auto simp: monthWalk.simps [of y m r])
  next
    case False
    then have "m' = m" "d' = r + 1" using "1.prems"(5) by (auto simp: monthWalk.simps [of y m r])
    moreover have "r < monthLen y m"
    proof (cases "m < 12")
      case True
      then show ?thesis using False by simp
    next
      case m: False
      then have "m = 12" using "1.prems"(2) by simp
      then show ?thesis using "1.prems"(4) daysBefore_Suc [of 12 y] daysBefore_13 [of y] by simp
    qed
    ultimately show ?thesis using "1.prems" by simp
  qed
qed

section \<open>Fields of an instant and \<open>time.Date\<close>\<close>

definition dayNo :: "time \<Rightarrow> int" where "dayNo t = t div Day"

definition yearOf :: "time \<Rightarrow> int" where "yearOf t = yearOfDay (dayNo t)"

definition monthDay :: "time \<Rightarrow> int \<times> int" where
  "monthDay t = monthWalk (yearOf t) 1 (dayNo t - yday0 (yearOf t))"

definition monthOf :: "time \<Rightarrow> int" where "monthOf t = fst (monthDay t)"

definition dayOf :: "time \<Rightarrow> int" where "dayOf t = snd (monthDay t)"

definition hourOf :: "time \<Rightarrow> int" where "hourOf t = t mod Day div Hour"

definition minuteOf :: "time \<Rightarrow> int" where "minuteOf t = t mod Hour div Minute"

text \<open>1970-01-01 was a Thursday; Go counts Sunday as 0.\<close>

definition weekdayOf :: "time \<Rightarrow> int" where "weekdayOf t = (dayNo t + 4) mod 7"

definition dateUTC :: "int \<Rightarrow> int \<Rightarrow> int \<Rightarrow> int \<Rightarrow> int \<Rightarrow> time" where
  "dateUTC y m d h mi =
     (let y' = y + (m - 1) div 12; m' = (m - 1) mod 12 + 1
      in (yday0 y' + daysBefore y' m' + (d - 1)) * Day + h * Hour + mi * Minute)"

lemma monthDay_spec:
  "1 \<le> monthOf t \<and> monthOf t \<le> 12 \<and> 1 \<le> dayOf t \<and> dayOf t \<le> monthLen (yearOf t) (monthOf t) \<and>
   yday0 (yearOf t) + daysBefore (yearOf t) (monthOf t) + (dayOf t - 1) = dayNo t"
proof -
  let ?y = "yearOf t"
  have y: "yday0 ?y \<le> dayNo t" "dayNo t < yday0 (?y + 1)"
    using yearOfDay_spec [of "dayNo t"] by (auto simp: yearOf_def)
  obtain m' d' where md: "monthWalk ?y 1 (dayNo t - yday0 ?y) = (m', d')" by fastforce
  have "daysBefore ?y 1 + (dayNo t - yday0 ?y) < yearLen ?y"
    using y(2) yday0_Suc [of ?y] by simp
  from monthWalk_spec [OF _ _ _ this md] y(1) show ?thesis
    by (simp add: monthOf_def dayOf_def monthDay_def md)
qed

lemma dateUTC_same_day:
  "dateUTC (yearOf t) (monthOf t) (dayOf t + k) h mi = (dayNo t + k) * Day + h * Hour + mi * Minute"
proof -
  have "(monthOf t - 1) div 12 = 0" "(monthOf t - 1) mod 12 + 1 = monthOf t"
    using monthDay_spec [of t] by (auto simp: div_pos_pos_trivial mod_pos_pos_trivial)
  moreover have "yday0 (yearOf t) + daysBefore (yearOf t) (monthOf t) + (dayOf t + k - 1) = dayNo t + k"
    using monthDay_spec [of t] by linarith
  ultimately show ?thesis by (simp add: dateUTC_def Let_def)
qed

lemma dateUTC_next_month:
  "dateUTC (yearOf t) (monthOf t + 1) 1 0 0 =
     (dayNo t - dayOf t + 1 + monthLen (yearOf t) (monthOf t)) * Day"
proof -
  let ?y = "yearOf t" and ?m = "monthOf t"
  have sp: "1 \<le> ?m" "?m \<le> 12" "yday0 ?y + daysBefore ?y ?m + (dayOf t - 1) = dayNo t"
    using monthDay_spec [of t] by auto
  have "yday0 (?y + ?m div 12) + daysBefore (?y + ?m div 12) (?m mod 12 + 1) =
      yday0 ?y + daysBefore ?y ?m + monthLen ?y ?m"
  proof (cases "?m = 12")
    case True
    then show ?thesis using yday0_Suc [of ?y] daysBefore_13 [of ?y] daysBefore_Suc [of 12 ?y] by simp
  next
    case False
    then have "?m div 12 = 0" "?m mod 12 = ?m"
      using sp by (auto simp: div_pos_pos_trivial mod_pos_pos_trivial)
    then show ?thesis using daysBefore_Suc [OF sp(1), of ?y] by simp
  qed
  then have "yday0 (?y + ?m div 12) + daysBefore (?y + ?m div 12) (?m mod 12 + 1) =
      dayNo t - dayOf t + 1 + monthLen ?y ?m"
    using sp(3) by linarith
  then show ?thesis by (simp add: dateUTC_def Let_def)
qed

lemma time_split: "t = dayNo t * Day + hourOf t * Hour + minuteOf t * Minute + t mod Minute"
proof -
  have 1: "t = dayNo t * Day + t mod Day" by (simp add: dayNo_def)
  have 2: "t mod Day = hourOf t * Hour + t mod Day mod Hour" by (simp add: hourOf_def)
  have 3: "t mod Day mod Hour = t mod Hour" by (rule mod_mod_cancel) simp
  have 4: "t mod Hour = minuteOf t * Minute + t mod Hour mod Minute" by (simp add: minuteOf_def)
  have 5: "t mod Hour mod Minute = t mod Minute" by (rule mod_mod_cancel) simp
  from 1 2 3 4 5 show ?thesis by linarith
qed

lemma hourOf_bounds: "0 \<le> hourOf t" "hourOf t < 24"
proof -
  show "0 \<le> hourOf t" by (simp add: hourOf_def pos_imp_zdiv_nonneg_iff)
  have "t mod Day < Day" by simp
  then show "hourOf t < 24" unfolding hourOf_def by linarith
qed

lemma minuteOf_bounds: "0 \<le> minuteOf t" "minuteOf t < 60"
proof -
  show "0 \<le> minuteOf t" by (simp add: minuteOf_def pos_imp_zdiv_nonneg_iff)
  have "t mod Hour < Hour" by simp
  then show "minuteOf t < 60" unfolding minuteOf_def by linarith
qed

end
