(* ===== verification/Cron.thy ===== *)
theory Cron
  imports Calendar
begin

text \<open>
  \<open>internal/domain/cron.go\<close>: the five-field cron parser and the search for the next matching
  minute. Integers keep Go's 64-bit wrap-around where a field's digits can exceed it. The
  value loop of a field is a \<^theory_text>\<open>partial_function\<close>, because with wrap-around its
  termination is not obvious; it is proved to return for every bound the parser passes. The
  search of \<open>Next\<close> is a terminating function, and the lemmas show that it returns the
  earliest matching minute after the given instant.
\<close>

section \<open>Parsing\<close>

record CronSchedule =
  cs_minutes :: "int list"
  cs_hours :: "int list"
  cs_daysOfMonth :: "int list"
  cs_months :: "int list"
  cs_daysOfWeek :: "int list"

definition digitVal :: "char \<Rightarrow> int option" where
  "digitVal c = (let k = (of_char c :: int) in if k < 48 \<or> 57 < k then None else Some (k - 48))"

fun atoiLoop :: "int \<Rightarrow> string \<Rightarrow> int option" where
  "atoiLoop n [] = Some n"
| "atoiLoop n (c # s) =
     (case digitVal c of None \<Rightarrow> None | Some k \<Rightarrow> atoiLoop (wrap64 (n * 10 + k)) s)"

definition atoiSmall :: "string \<Rightarrow> int option" where
  "atoiSmall s = (if s = [] then None else atoiLoop 0 s)"

definition addValue :: "int \<Rightarrow> int list \<Rightarrow> int list" where
  "addValue v out = (if v \<in> set out then out else out @ [v])"

partial_function (option) valueLoop :: "int \<Rightarrow> int \<Rightarrow> int \<Rightarrow> int list \<Rightarrow> int list option" where
  "valueLoop v hi step out =
     (if v \<le> hi then valueLoop (wrap64 (v + step)) hi step (addValue v out) else Some out)"

lemmas valueLoop_code [code] = valueLoop.simps

text \<open>The index of the first occurrence of a character, as \<open>strings.Index\<close> finds it.\<close>

fun indexChar :: "char \<Rightarrow> string \<Rightarrow> nat option" where
  "indexChar d [] = None"
| "indexChar d (c # s) = (if c = d then Some 0 else map_option Suc (indexChar d s))"

definition cutAt :: "nat \<Rightarrow> string \<Rightarrow> string \<times> string" where
  "cutAt i s = (take i s, drop (Suc i) s)"

text \<open>The step and the base of one comma-separated part of a field.\<close>

definition partStep :: "string \<Rightarrow> CronErr + (int \<times> string)" where
  "partStep part =
     (case indexChar CHR ''/'' part of
        None \<Rightarrow> Inr (1, part)
      | Some i \<Rightarrow>
          (case atoiSmall (snd (cutAt i part)) of
             None \<Rightarrow> Inl (BadStep (snd (cutAt i part)))
           | Some step \<Rightarrow>
               if step \<le> 0 then Inl (BadStep (snd (cutAt i part)))
               else Inr (step, fst (cutAt i part))))"

text \<open>
  What a part denotes: \<open>Inl v\<close> a single value (the \<open>continue\<close> branch), \<open>Inr (lo, hi)\<close> a
  range to be walked with the step.
\<close>

definition partRange :: "string \<Rightarrow> int \<Rightarrow> int \<Rightarrow> int \<Rightarrow> CronErr + (int + int \<times> int)" where
  "partRange base step mn mx =
     (if base = ''*'' then Inr (Inr (mn, mx))
      else if HasPrefix base ''*/'' then Inr (Inr (mn, mx))
      else if Contains base ''-'' then
        (case indexChar CHR ''-'' base of
           None \<Rightarrow> Inl (BadRange base)
         | Some i \<Rightarrow>
             (case atoiSmall (fst (cutAt i base)) of
                None \<Rightarrow> Inl (BadRange base)
              | Some lo \<Rightarrow>
                  (case atoiSmall (snd (cutAt i base)) of
                     None \<Rightarrow> Inl (BadRange base)
                   | Some hi \<Rightarrow> Inr (Inr (lo, hi)))))
      else
        (case atoiSmall base of
           None \<Rightarrow> Inl (BadValue base)
         | Some v \<Rightarrow>
             if step \<noteq> 1 then Inr (Inr (v, mx))
             else if v < mn \<or> v > mx then Inl (OutOfRange v)
             else Inr (Inl v)))"

fun expandParts :: "string list \<Rightarrow> int \<Rightarrow> int \<Rightarrow> int list \<Rightarrow> (CronErr + int list) option" where
  "expandParts [] mn mx out = Some (Inr out)"
| "expandParts (part # parts) mn mx out =
     (case partStep part of
        Inl e \<Rightarrow> Some (Inl e)
      | Inr (step, base) \<Rightarrow>
          (case partRange base step mn mx of
             Inl e \<Rightarrow> Some (Inl e)
           | Inr (Inl v) \<Rightarrow> expandParts parts mn mx (addValue v out)
           | Inr (Inr (lo, hi)) \<Rightarrow>
               if lo < mn \<or> hi > mx \<or> lo > hi then Some (Inl (OutOfBounds lo hi mn mx))
               else (case valueLoop lo hi step out of
                       None \<Rightarrow> None
                     | Some out' \<Rightarrow> expandParts parts mn mx out')))"

definition expandCronField :: "string \<Rightarrow> int \<Rightarrow> int \<Rightarrow> CronErr + int list" where
  "expandCronField field mn mx =
     (case expandParts (splitChar CHR '','' field) mn mx [] of
        None \<Rightarrow> Inl Diverges | Some r \<Rightarrow> r)"

definition cronField :: "string \<Rightarrow> string \<Rightarrow> int \<Rightarrow> int \<Rightarrow> int list res" where
  "cronField name field mn mx =
     (case expandCronField field mn mx of
        Inl e \<Rightarrow> Inl (CronError (InField name e)) | Inr vs \<Rightarrow> Inr vs)"

definition ParseCron :: "string \<Rightarrow> CronSchedule res" where
  "ParseCron expr =
     (case Fields expr of
        [f0, f1, f2, f3, f4] \<Rightarrow>
          (case cronField ''minute'' f0 0 59 of Inl e \<Rightarrow> Inl e | Inr mins \<Rightarrow>
          (case cronField ''hour'' f1 0 23 of Inl e \<Rightarrow> Inl e | Inr hs \<Rightarrow>
          (case cronField ''day-of-month'' f2 1 31 of Inl e \<Rightarrow> Inl e | Inr doms \<Rightarrow>
          (case cronField ''month'' f3 1 12 of Inl e \<Rightarrow> Inl e | Inr ms \<Rightarrow>
          (case cronField ''day-of-week'' f4 0 6 of Inl e \<Rightarrow> Inl e | Inr dows \<Rightarrow>
             Inr \<lparr>cs_minutes = mins, cs_hours = hs, cs_daysOfMonth = doms,
                  cs_months = ms, cs_daysOfWeek = dows\<rparr>)))))
      | fs \<Rightarrow> Inl (CronError (FieldCount (length fs))))"

section \<open>The value loop returns\<close>

text \<open>
  With a step below \<open>2^63 - 64\<close> the counter never wraps. With a larger step it can wrap to a
  negative value, come back two below where it was, and so on down: the measure counts those
  rounds.
\<close>

definition loopMeasure :: "int \<Rightarrow> int \<Rightarrow> int \<Rightarrow> nat" where
  "loopMeasure hi step v =
     (if hi < v then 0
      else if step \<le> 2 ^ 63 - 64 then nat (64 - v)
      else if 0 \<le> v then 2 * nat v + 2
      else if -64 \<le> v then 1
      else 2 * nat (max 0 (v + step)) + 3)"

lemma wrap64_above: "2 ^ 63 \<le> n \<Longrightarrow> n < 2 ^ 63 + 2 ^ 64 \<Longrightarrow> wrap64 n = n - 2 ^ 64"
proof -
  assume n: "2 ^ 63 \<le> n" "n < 2 ^ 63 + 2 ^ 64"
  have "n + 2 ^ 63 = n + 2 ^ 63 - 2 ^ 64 + 2 ^ 64" by simp
  then have "(n + 2 ^ 63) mod 2 ^ 64 = (n + 2 ^ 63 - 2 ^ 64) mod 2 ^ 64"
    by (metis mod_add_self2)
  also have "\<dots> = n + 2 ^ 63 - 2 ^ 64" using n by (intro mod_pos_pos_trivial) simp_all
  finally show ?thesis by (simp add: wrap64_def)
qed

lemma loopMeasure_decreases:
  assumes "v \<le> hi" "hi < 64" "0 < step" "step < 2 ^ 63" "- (2 ^ 63) \<le> v"
  shows "loopMeasure hi step (wrap64 (v + step)) < loopMeasure hi step v"
proof (cases "v + step < 2 ^ 63")
  case True
  then have "wrap64 (v + step) = v + step" using assms by (intro wrap64_id) auto
  then show ?thesis using assms True by (auto simp: loopMeasure_def)
next
  case False
  then have w: "wrap64 (v + step) = v + step - 2 ^ 64" using assms by (intro wrap64_above) auto
  show ?thesis unfolding w using assms False by (auto simp: loopMeasure_def)
qed

lemma valueLoop_returns:
  assumes "hi < 64" "0 < step" "step < 2 ^ 63" "- (2 ^ 63) \<le> v"
  shows "\<exists>r. valueLoop v hi step out = Some r"
  using assms
proof (induction "loopMeasure hi step v" arbitrary: v out rule: less_induct)
  case less
  show ?case
  proof (cases "v \<le> hi")
    case True
    have "loopMeasure hi step (wrap64 (v + step)) < loopMeasure hi step v"
      using True less.prems by (intro loopMeasure_decreases)
    then have "\<exists>r. valueLoop (wrap64 (v + step)) hi step (addValue v out) = Some r"
      using less.prems wrap64_range by (intro less.hyps) auto
    then show ?thesis using True by (simp add: valueLoop.simps [of v])
  next
    case False
    then show ?thesis by (simp add: valueLoop.simps [of v])
  qed
qed

lemma atoiLoop_range: "atoiLoop n s = Some k \<Longrightarrow> - (2 ^ 63) \<le> n \<Longrightarrow> n < 2 ^ 63 \<Longrightarrow>
  - (2 ^ 63) \<le> k \<and> k < 2 ^ 63"
proof (induction s arbitrary: n)
  case Nil
  then show ?case by simp
next
  case (Cons c s)
  then obtain d where "atoiLoop (wrap64 (n * 10 + d)) s = Some k" by (auto split: option.splits)
  then show ?case using Cons.IH wrap64_range [of "n * 10 + d"] by blast
qed

lemma atoiSmall_range: "atoiSmall s = Some k \<Longrightarrow> - (2 ^ 63) \<le> k \<and> k < 2 ^ 63"
  by (auto simp: atoiSmall_def split: if_splits dest: atoiLoop_range)

lemma partStep_range: "partStep part = Inr (step, base) \<Longrightarrow> 0 < step \<and> step < 2 ^ 63"
  by (auto simp: partStep_def split: option.splits if_splits dest: atoiSmall_range)

lemma expandParts_returns:
  assumes "mx < 64" "0 \<le> mn"
  shows "\<exists>r. expandParts parts mn mx out = Some r"
proof (induction parts arbitrary: out)
  case Nil
  show ?case by simp
next
  case (Cons part parts)
  show ?case
  proof (cases "partStep part")
    case (Inl e)
    then show ?thesis by simp
  next
    case (Inr sb)
    obtain step base where sb: "sb = (step, base)" by fastforce
    have step: "0 < step" "step < 2 ^ 63" using partStep_range Inr sb by blast+
    have loop: "\<exists>r. expandParts (part # parts) mn mx out = Some r"
      if r: "partRange base step mn mx = Inr (Inr (lo, hi))" for lo hi
    proof (cases "lo < mn \<or> hi > mx \<or> lo > hi")
      case True
      then show ?thesis using Inr sb r by simp
    next
      case False
      then obtain out' where "valueLoop lo hi step out = Some out'"
        using valueLoop_returns [of hi step lo out] assms step by auto
      then show ?thesis using Inr sb r False Cons.IH by auto
    qed
    show ?thesis
    proof (cases "partRange base step mn mx")
      case (Inl e)
      then show ?thesis using Inr sb by simp
    next
      case r: (Inr r)
      then show ?thesis using Inr sb Cons.IH loop by (cases r) auto
    qed
  qed
qed

lemma expandCronField_returns: "mx < 64 \<Longrightarrow> 0 \<le> mn \<Longrightarrow> expandCronField f mn mx \<noteq> Inl Diverges"
proof -
  have partStep: "partStep p \<noteq> Inl Diverges" for p
    by (auto simp: partStep_def split: option.splits)
  have partRange: "partRange b st mn mx \<noteq> Inl Diverges" for b st
    by (auto simp: partRange_def split: option.splits)
  have parts: "expandParts ps mn mx out \<noteq> Some (Inl Diverges)" for ps out
    by (induction ps arbitrary: out)
      (auto split: sum.splits option.splits prod.splits simp: partStep partRange)
  assume "mx < 64" "0 \<le> mn"
  then obtain r where "expandParts (splitChar CHR '','' f) mn mx [] = Some r"
    using expandParts_returns by blast
  then show ?thesis using parts by (auto simp: expandCronField_def)
qed

section \<open>Values of a field\<close>

text \<open>
  When the step is below \<open>2^63 - 64\<close> the values of a field are within the field's bounds; the
  hypothesis is what \<open>step\<close> digits short of 19 give. With larger steps the counter can wrap.
\<close>

lemma set_addValue [simp]: "set (addValue v out) = insert v (set out)"
  by (auto simp: addValue_def)

lemma distinct_addValue [simp]: "distinct out \<Longrightarrow> distinct (addValue v out)"
  by (auto simp: addValue_def)

lemma valueLoop_values:
  assumes "hi < 64" "0 < step" "step \<le> 2 ^ 63 - 64" "0 \<le> v" "valueLoop v hi step out = Some r"
  shows "set r = set out \<union> {x. v \<le> x \<and> x \<le> hi \<and> step dvd (x - v)}"
  using assms
proof (induction "nat (64 - v)" arbitrary: v out rule: less_induct)
  case less
  show ?case
  proof (cases "v \<le> hi")
    case True
    have w: "wrap64 (v + step) = v + step" using less.prems True by (intro wrap64_id) auto
    have "valueLoop (v + step) hi step (addValue v out) = Some r"
      using less.prems(5) True by (simp add: valueLoop.simps [of v] w)
    then have IH: "set r = set (addValue v out) \<union>
        {x. v + step \<le> x \<and> x \<le> hi \<and> step dvd (x - (v + step))}"
      using less.prems True by (intro less.hyps) auto
    have "step dvd (x - v) \<longleftrightarrow> step dvd (x - (v + step))" for x
      by (metis add_diff_eq diff_diff_eq dvd_add_triv_right_iff diff_add_cancel)
    moreover have "x = v" if "step dvd (x - v)" "v \<le> x" "\<not> v + step \<le> x" for x
      using that less.prems(2) by (auto dest: zdvd_imp_le)
    ultimately show ?thesis using IH True less.prems(2) by auto
  next
    case False
    then show ?thesis using less.prems(5) by (auto simp: valueLoop.simps [of v])
  qed
qed

lemma digitVal_range: "digitVal c = Some k \<Longrightarrow> 0 \<le> k \<and> k \<le> 9"
  by (auto simp: digitVal_def Let_def split: if_splits)

text \<open>Up to 18 digits the number is the one written, without wrap-around.\<close>

lemma atoiLoop_small:
  assumes "atoiLoop n s = Some k" "0 \<le> n" "n < 10 ^ j" "j + length s \<le> 18"
  shows "0 \<le> k \<and> k < 10 ^ 18"
  using assms
proof (induction s arbitrary: n j)
  case Nil
  have "(10 :: int) ^ j \<le> 10 ^ 18" using Nil.prems by (intro power_increasing) auto
  then show ?case using Nil.prems by simp
next
  case (Cons c s)
  then obtain d where d: "digitVal c = Some d" "atoiLoop (wrap64 (n * 10 + d)) s = Some k" by (auto split: option.splits)
  have n: "0 \<le> n * 10 + d" "n * 10 + d < 10 ^ Suc j" using Cons.prems(2,3) digitVal_range [OF d(1)] by auto
  have "(10 :: int) ^ Suc j \<le> 10 ^ 18" using Cons.prems(4) by (intro power_increasing) auto
  then have "wrap64 (n * 10 + d) = n * 10 + d" using n by (intro wrap64_id) auto
  then show ?case using Cons.IH [of "n * 10 + d" "Suc j"] d(2) n Cons.prems(4) by simp
qed

text \<open>No step of the field is written with more than 18 digits.\<close>

definition shortStep :: "string \<Rightarrow> bool" where
  "shortStep part = (case indexChar CHR ''/'' part of None \<Rightarrow> True | Some i \<Rightarrow> length (snd (cutAt i part)) \<le> 18)"

definition shortSteps :: "string \<Rightarrow> bool" where
  "shortSteps f = list_all shortStep (splitChar CHR '','' f)"

lemma partStep_small:
  assumes "partStep part = Inr (step, base)" "shortStep part"
  shows "step \<le> 2 ^ 63 - 64"
proof (cases "indexChar CHR ''/'' part")
  case None
  then show ?thesis using assms by (auto simp: partStep_def)
next
  case (Some i)
  let ?d = "snd (cutAt i part)"
  have "atoiSmall ?d = Some step" "length ?d \<le> 18"
    using assms Some by (auto simp: partStep_def shortStep_def split: option.splits if_splits)
  then show ?thesis using atoiLoop_small [of 0 ?d step 0] by (auto simp: atoiSmall_def split: if_splits)
qed

text \<open>Whatever the step, the loop adds values that are not there yet and not above its limit.\<close>

lemma valueLoop_adds:
  assumes "valueLoop v hi step out = Some r"
  shows "set out \<subseteq> set r \<and> (v \<le> hi \<longrightarrow> v \<in> set r) \<and> (distinct out \<longrightarrow> distinct r) \<and> (\<forall>x \<in> set r. x \<in> set out \<or> x \<le> hi)"
proof (induction v hi step out r rule: valueLoop.raw_induct)
  case (1 f v hi step out r)
  show ?case
  proof (cases "v \<le> hi")
    case True
    then have "f (wrap64 (v + step)) hi step (addValue v out) = Some r" using 1(2) by simp
    from 1(1) [OF this] True show ?thesis by auto
  qed (use 1(2) in auto)
qed (rule assms)

text \<open>A field of a schedule: some values, none twice, none above the field's maximum, and none below its minimum if the steps are short.\<close>

definition fieldOk :: "int \<Rightarrow> int \<Rightarrow> bool \<Rightarrow> int list \<Rightarrow> bool" where
  "fieldOk mn mx short vs \<longleftrightarrow> distinct vs \<and> (\<forall>v \<in> set vs. v \<le> mx \<and> (short \<longrightarrow> mn \<le> v))"

lemma expandParts_ok:
  assumes "mx < 64" "0 \<le> mn" "expandParts parts mn mx out = Some (Inr vs)" "short \<longrightarrow> list_all shortStep parts" "fieldOk mn mx short out"
  shows "fieldOk mn mx short vs \<and> (parts \<noteq> [] \<or> out \<noteq> [] \<longrightarrow> vs \<noteq> [])"
  using assms(3-)
proof (induction parts arbitrary: out)
  case (Cons part parts)
  obtain step base where sb: "partStep part = Inr (step, base)" using Cons.prems(1) by (auto split: sum.splits)
  obtain x where x: "partRange base step mn mx = Inr x" using Cons.prems(1) sb by (auto split: sum.splits)
  obtain out' where out': "expandParts parts mn mx out' = Some (Inr vs)" "fieldOk mn mx short out'" "out' \<noteq> []"
  proof (cases x)
    case (Inl v)
    then have "mn \<le> v \<and> v \<le> mx" using x by (auto simp: partRange_def split: if_splits option.splits)
    then have "fieldOk mn mx short (addValue v out)" using Cons.prems(3) by (auto simp: fieldOk_def)
    moreover have "addValue v out \<noteq> []" by (simp add: addValue_def) (metis empty_iff empty_set)
    moreover have "expandParts parts mn mx (addValue v out) = Some (Inr vs)" using Cons.prems(1) sb x Inl by simp
    ultimately show thesis using that by blast
  next
    case (Inr lh)
    obtain lo hi where lh: "lh = (lo, hi)" by fastforce
    from Cons.prems(1) obtain r where b: "mn \<le> lo" "hi \<le> mx" "lo \<le> hi" and
      r: "valueLoop lo hi step out = Some r" "expandParts parts mn mx r = Some (Inr vs)"
      using sb x Inr lh by (auto split: if_splits option.splits)
    have h: "hi < 64" "0 \<le> lo" using b assms(1,2) by auto
    note a = valueLoop_adds [OF r(1)]
    have "mn \<le> y" if y: "short" "y \<in> set r" for y
    proof -
      have "step \<le> 2 ^ 63 - 64" using partStep_small [OF sb] Cons.prems(2) y(1) by simp
      then have "y \<in> set out \<or> lo \<le> y" using valueLoop_values [OF h(1) _ _ h(2) r(1)] partStep_range [OF sb] y(2) by blast
      then show ?thesis using Cons.prems(3) y(1) b(1) by (auto simp: fieldOk_def)
    qed
    moreover have "y \<le> mx" if "y \<in> set r" for y using a that Cons.prems(3) b(2) unfolding fieldOk_def by fastforce
    ultimately have "fieldOk mn mx short r" using a Cons.prems(3) by (simp add: fieldOk_def)
    moreover have "r \<noteq> []" using a b(3) by auto
    ultimately show thesis using that r(2) by blast
  qed
  then show ?case using Cons.IH [OF out'(1)] Cons.prems(2) by simp
qed simp

lemma cronField_ok:
  assumes "cronField name f mn mx = Inr vs" "mx < 64" "0 \<le> mn"
  shows "vs \<noteq> [] \<and> fieldOk mn mx (shortSteps f) vs"
proof -
  have "expandParts (splitChar CHR '','' f) mn mx [] = Some (Inr vs)"
    using assms(1) by (auto simp: cronField_def expandCronField_def split: sum.splits option.splits)
  from expandParts_ok [OF assms(2,3) this, of "shortSteps f"] show ?thesis by (simp add: fieldOk_def shortSteps_def)
qed

section \<open>The next matching minute\<close>

definition containsInt :: "int list \<Rightarrow> int \<Rightarrow> bool" where
  "containsInt xs v \<longleftrightarrow> v \<in> set xs"

text \<open>The jumps the search takes.\<close>

definition nextMonth :: "time \<Rightarrow> time" where
  "nextMonth c = dateUTC (yearOf c) (monthOf c + 1) 1 0 0"

definition nextDay :: "time \<Rightarrow> time" where
  "nextDay c = dateUTC (yearOf c) (monthOf c) (dayOf c + 1) 0 0"

definition nextHour :: "time \<Rightarrow> time" where
  "nextHour c = dateUTC (yearOf c) (monthOf c) (dayOf c) (hourOf c + 1) 0"

lemma nextDay_eq: "nextDay c = (dayNo c + 1) * Day"
  using dateUTC_same_day [of c 1 0 0] by (simp add: nextDay_def)

lemma nextHour_eq: "nextHour c = dayNo c * Day + (hourOf c + 1) * Hour"
  using dateUTC_same_day [of c 0 "hourOf c + 1" 0] by (simp add: nextHour_def)

lemma nextMonth_eq: "nextMonth c = (dayNo c - dayOf c + 1 + monthLen (yearOf c) (monthOf c)) * Day"
  by (simp add: nextMonth_def dateUTC_next_month)

lemma mod_Minute: "0 \<le> t mod Minute" "t mod Minute < Minute"
  by simp_all

lemma nextHour_gt: "c < nextHour c"
  using time_split [of c] minuteOf_bounds [of c] mod_Minute [of c] by (simp add: nextHour_eq)

lemma nextDay_gt: "c < nextDay c"
  using time_split [of c] minuteOf_bounds [of c] hourOf_bounds [of c] mod_Minute [of c]
  by (simp add: nextDay_eq)

lemma nextMonth_ge: "nextDay c \<le> nextMonth c"
  using monthDay_spec [of c] by (simp add: nextDay_eq nextMonth_eq)

lemmas jumps_gt = nextHour_gt nextDay_gt order.strict_trans2 [OF nextDay_gt nextMonth_ge]

function nextLoop :: "CronSchedule \<Rightarrow> time \<Rightarrow> time \<Rightarrow> time \<Rightarrow> time" where
  "nextLoop s t limit cand =
     (if cand < limit then
        (if \<not> containsInt (cs_months s) (monthOf cand) then nextLoop s t limit (nextMonth cand)
         else if \<not> containsInt (cs_daysOfMonth s) (dayOf cand) \<or>
                 \<not> containsInt (cs_daysOfWeek s) (weekdayOf cand)
         then nextLoop s t limit (nextDay cand)
         else if \<not> containsInt (cs_hours s) (hourOf cand) then nextLoop s t limit (nextHour cand)
         else if \<not> containsInt (cs_minutes s) (minuteOf cand) then nextLoop s t limit (cand + Minute)
         else cand)
      else t + 24 * Hour)"
  by pat_completeness auto
termination
  by (relation "measure (\<lambda>(s, t, limit, cand). nat (limit - cand))") (auto simp: jumps_gt)

declare nextLoop.simps [simp del]

definition firstCand :: "time \<Rightarrow> time" where
  "firstCand t = (let c = t + Minute
     in dateUTC (yearOf c) (monthOf c) (dayOf c) (hourOf c) (minuteOf c))"

definition Next :: "CronSchedule \<Rightarrow> time \<Rightarrow> time" where
  "Next s t = nextLoop s t (t + 366 * 24 * Hour) (firstCand t)"

section \<open>The search finds the earliest match\<close>

definition matches :: "CronSchedule \<Rightarrow> time \<Rightarrow> bool" where
  "matches s c \<longleftrightarrow> monthOf c \<in> set (cs_months s) \<and> dayOf c \<in> set (cs_daysOfMonth s) \<and>
     weekdayOf c \<in> set (cs_daysOfWeek s) \<and> hourOf c \<in> set (cs_hours s) \<and>
     minuteOf c \<in> set (cs_minutes s)"

definition onMinute :: "time \<Rightarrow> bool" where "onMinute c \<longleftrightarrow> Minute dvd c"

lemma firstCand_eq: "firstCand t = t + Minute - t mod Minute"
  using dateUTC_same_day [of "t + Minute" 0 "hourOf (t + Minute)" "minuteOf (t + Minute)"]
    time_split [of "t + Minute"]
  by (simp add: firstCand_def Let_def)

lemma firstCand_gt: "t < firstCand t" and firstCand_onMinute: "onMinute (firstCand t)"
  by (simp_all add: firstCand_eq onMinute_def dvd_eq_mod_eq_0 mod_diff_eq [symmetric] mod_add_eq [symmetric])

lemma firstCand_least: "onMinute c \<Longrightarrow> t < c \<Longrightarrow> firstCand t \<le> c"
proof -
  assume "onMinute c" "t < c"
  then obtain k where k: "c = Minute * k" by (auto simp: onMinute_def)
  have t: "t = Minute * (t div Minute) + t mod Minute" by simp
  with \<open>t < c\<close> k mod_Minute(1) [of t] have "t div Minute < k" by linarith
  then have "Minute * (t div Minute) + Minute \<le> Minute * k" by simp
  moreover have "t + Minute - t mod Minute = Minute * (t div Minute) + Minute" using t by linarith
  ultimately show ?thesis using k by (simp only: firstCand_eq)
qed

text \<open>Instants between a candidate and the jump share the field that failed.\<close>

lemma same_dayNo: "c \<le> x \<Longrightarrow> x < nextDay c \<Longrightarrow> dayNo x = dayNo c"
proof -
  assume x: "c \<le> x" "x < nextDay c"
  have "dayNo c \<le> dayNo x" using x(1) by (simp add: dayNo_def zdiv_mono1)
  moreover have "x div Day < dayNo c + 1" using x(2) by (simp add: nextDay_eq)
  ultimately show ?thesis by (simp add: dayNo_def)
qed

lemma same_day_fields:
  assumes "dayNo x = dayNo c"
  shows "yearOf x = yearOf c" "monthOf x = monthOf c" "dayOf x = dayOf c" "weekdayOf x = weekdayOf c"
proof -
  show y: "yearOf x = yearOf c" by (simp add: yearOf_def assms)
  then have "monthDay x = monthDay c" by (simp add: monthDay_def assms)
  then show "monthOf x = monthOf c" "dayOf x = dayOf c" by (simp_all add: monthOf_def dayOf_def)
  show "weekdayOf x = weekdayOf c" by (simp add: weekdayOf_def assms)
qed

lemma same_hour:
  assumes "c \<le> x" "x < nextHour c"
  shows "dayNo x = dayNo c" "hourOf x = hourOf c"
proof -
  have h: "nextHour c \<le> nextDay c" using hourOf_bounds [of c] by (simp add: nextHour_eq nextDay_eq)
  then show d: "dayNo x = dayNo c" using assms by (intro same_dayNo) auto
  define r where "r = minuteOf x * Minute + x mod Minute"
  have r: "0 \<le> r" "r < Hour"
    using minuteOf_bounds [of x] mod_Minute [of x] unfolding r_def by linarith+
  have x: "x = dayNo c * Day + hourOf x * Hour + r" using time_split [of x] d r_def by linarith
  have "dayNo c * Day + hourOf c * Hour \<le> c"
    using time_split [of c] minuteOf_bounds(1) [of c] mod_Minute(1) [of c] by linarith
  with assms x have "hourOf c * Hour \<le> hourOf x * Hour + r" "hourOf x * Hour + r < (hourOf c + 1) * Hour"
    by (simp_all add: nextHour_eq)
  with r have "hourOf x * Hour < (hourOf c + 1) * Hour" "hourOf c * Hour < (hourOf x + 1) * Hour"
    by (simp_all add: distrib_right)
  then have "hourOf x < hourOf c + 1" "hourOf c < hourOf x + 1"
    by (simp_all only: mult_less_cancel_right)
  then show "hourOf x = hourOf c" by simp
qed

text \<open>Year and month of a day number are determined by the month's first and last day.\<close>

lemma yday0_strict: "y < y' \<Longrightarrow> yday0 (y + 1) \<le> yday0 y'"
proof (induction y' rule: int_gr_induct)
  case base
  show ?case by simp
next
  case (step i)
  then show ?case using yday0_Suc [of i] yearLen_bounds [of i] by linarith
qed

lemma yearOfDay_unique:
  assumes "yday0 y \<le> d" "d < yday0 (y + 1)"
  shows "yearOfDay d = y"
  using assms yearOfDay_spec [of d] yday0_strict [of y "yearOfDay d"] yday0_strict [of "yearOfDay d" y]
  by (cases "yearOfDay d" y rule: linorder_cases) auto

lemma daysBefore_strict: "1 \<le> m \<Longrightarrow> m < m' \<Longrightarrow> daysBefore y m + monthLen y m \<le> daysBefore y m'"
proof -
  assume m: "1 \<le> m" "m < m'"
  from m(2) show ?thesis
  proof (induction m' rule: int_gr_induct)
    case base
    show ?case using daysBefore_Suc [OF m(1)] by simp
  next
    case (step i)
    then show ?case using daysBefore_Suc [of i y] monthLen_bounds [of y i] m(1) by linarith
  qed
qed

lemma same_month:
  assumes "c \<le> x" "x < nextMonth c"
  shows "monthOf x = monthOf c"
proof -
  let ?y = "yearOf c" and ?m = "monthOf c"
  have c: "1 \<le> ?m" "?m \<le> 12" "1 \<le> dayOf c" "yday0 ?y + daysBefore ?y ?m + (dayOf c - 1) = dayNo c"
    using monthDay_spec [of c] by auto
  have dx: "dayNo c \<le> dayNo x" using assms(1) by (simp add: dayNo_def zdiv_mono1)
  have "x div Day < dayNo c - dayOf c + 1 + monthLen ?y ?m"
    using assms(2) by (simp add: nextMonth_eq)
  then have hi: "dayNo x < yday0 ?y + daysBefore ?y ?m + monthLen ?y ?m" using c(4) by (simp add: dayNo_def)
  have lo: "yday0 ?y + daysBefore ?y ?m \<le> dayNo x" using dx c by linarith
  have "0 \<le> daysBefore ?y ?m" using daysBefore_strict [of 1 ?m ?y] c(1) monthLen_bounds [of ?y 1]
    by (cases "?m = 1") auto
  moreover have "daysBefore ?y ?m + monthLen ?y ?m \<le> yearLen ?y"
    using daysBefore_strict [of ?m 13 ?y] c daysBefore_13 [of ?y] by simp
  ultimately have y: "yearOf x = ?y" unfolding yearOf_def [of x]
    using lo hi yday0_Suc [of ?y] by (intro yearOfDay_unique) linarith+
  have x: "1 \<le> monthOf x" "1 \<le> dayOf x" "dayOf x \<le> monthLen ?y (monthOf x)"
    "yday0 ?y + daysBefore ?y (monthOf x) + (dayOf x - 1) = dayNo x"
    using monthDay_spec [of x] y by auto
  show ?thesis
    using lo hi x daysBefore_strict [of "monthOf x" ?m ?y] daysBefore_strict [of ?m "monthOf x" ?y] c(1)
    by (cases "monthOf x" ?m rule: linorder_cases) auto
qed

lemma onMinute_gap: "onMinute c \<Longrightarrow> onMinute x \<Longrightarrow> c \<le> x \<Longrightarrow> x < c + Minute \<Longrightarrow> x = c"
proof -
  assume "onMinute c" "onMinute x" and le: "c \<le> x" "x < c + Minute"
  then have "Minute dvd x - c" by (simp add: onMinute_def)
  with le show "x = c" using zdvd_imp_le [of Minute "x - c"] by linarith
qed

lemma onMinute_jumps:
  "onMinute (nextMonth c)" "onMinute (nextDay c)" "onMinute (nextHour c)"
  "onMinute c \<Longrightarrow> onMinute (c + Minute)"
  by (simp_all add: onMinute_def nextMonth_eq nextDay_eq nextHour_eq dvd_add dvd_mult)

lemma skip_nonmatching:
  assumes "onMinute c" "onMinute x" "c \<le> x"
  shows "monthOf c \<notin> set (cs_months s) \<Longrightarrow> x < nextMonth c \<Longrightarrow> \<not> matches s x"
    and "dayOf c \<notin> set (cs_daysOfMonth s) \<or> weekdayOf c \<notin> set (cs_daysOfWeek s) \<Longrightarrow>
      x < nextDay c \<Longrightarrow> \<not> matches s x"
    and "hourOf c \<notin> set (cs_hours s) \<Longrightarrow> x < nextHour c \<Longrightarrow> \<not> matches s x"
    and "minuteOf c \<notin> set (cs_minutes s) \<Longrightarrow> x < c + Minute \<Longrightarrow> \<not> matches s x"
  using assms same_month [of c x] same_day_fields [OF same_dayNo, of c x] same_hour [of c x]
    onMinute_gap [of c x]
  by (auto simp: matches_def)

text \<open>
  What the search returns from candidate \<open>c\<close>: the first matching minute in \<open>[c, limit)\<close>, or
  the fallback when there is none.
\<close>

definition firstMatch :: "CronSchedule \<Rightarrow> time \<Rightarrow> time \<Rightarrow> time \<Rightarrow> time \<Rightarrow> bool" where
  "firstMatch s t limit c r \<longleftrightarrow>
     (onMinute r \<and> matches s r \<and> c \<le> r \<and> r < limit \<and>
        (\<forall>x. onMinute x \<and> c \<le> x \<and> x < r \<longrightarrow> \<not> matches s x)) \<or>
     (r = t + 24 * Hour \<and> (\<forall>x. onMinute x \<and> c \<le> x \<and> x < limit \<longrightarrow> \<not> matches s x))"

lemma firstMatch_skip:
  assumes "firstMatch s t limit c' r" "c < c'"
    and "\<And>x. onMinute x \<Longrightarrow> c \<le> x \<Longrightarrow> x < c' \<Longrightarrow> \<not> matches s x"
  shows "firstMatch s t limit c r"
  using assms unfolding firstMatch_def by (meson linorder_not_less order.strict_iff_not order.trans)

lemma nextLoop_firstMatch: "onMinute c \<Longrightarrow> firstMatch s t limit c (nextLoop s t limit c)"
proof (induction s t limit c rule: nextLoop.induct)
  case (1 s t limit c)
  note skip = firstMatch_skip [of s t limit _ _ c] and sk = skip_nonmatching [OF "1.prems", where s = s]
  note unf = nextLoop.simps [of s t limit c]
  consider "\<not> c < limit"
    | (m) "c < limit" "monthOf c \<notin> set (cs_months s)"
    | (d) "c < limit" "monthOf c \<in> set (cs_months s)"
        "dayOf c \<notin> set (cs_daysOfMonth s) \<or> weekdayOf c \<notin> set (cs_daysOfWeek s)"
    | (h) "c < limit" "monthOf c \<in> set (cs_months s)" "dayOf c \<in> set (cs_daysOfMonth s)"
        "weekdayOf c \<in> set (cs_daysOfWeek s)" "hourOf c \<notin> set (cs_hours s)"
    | (mi) "c < limit" "monthOf c \<in> set (cs_months s)" "dayOf c \<in> set (cs_daysOfMonth s)"
        "weekdayOf c \<in> set (cs_daysOfWeek s)" "hourOf c \<in> set (cs_hours s)"
        "minuteOf c \<notin> set (cs_minutes s)"
    | (ok) "c < limit" "matches s c"
    by (auto simp: matches_def)
  then show ?case
  proof cases
    case 1
    then show ?thesis by (auto simp: unf firstMatch_def)
  next
    case m
    then show ?thesis using skip [OF "1.IH"(1)] sk(1) onMinute_jumps(1) jumps_gt(3)
      by (simp add: unf containsInt_def)
  next
    case d
    then show ?thesis using skip [OF "1.IH"(2)] sk(2) onMinute_jumps(2) jumps_gt(2)
      by (simp add: unf containsInt_def)
  next
    case h
    then show ?thesis using skip [OF "1.IH"(3)] sk(3) onMinute_jumps(3) jumps_gt(1)
      by (simp add: unf containsInt_def)
  next
    case mi
    then show ?thesis using skip [OF "1.IH"(4)] sk(4) onMinute_jumps(4) [OF "1.prems"]
      by (simp add: unf containsInt_def)
  next
    case ok
    then show ?thesis using "1.prems" by (auto simp: unf firstMatch_def containsInt_def matches_def)
  qed
qed

lemma Next_firstMatch: "firstMatch s t (t + 366 * 24 * Hour) (firstCand t) (Next s t)"
  unfolding Next_def by (rule nextLoop_firstMatch [OF firstCand_onMinute])

lemma Next_gt: "t < Next s t"
  using Next_firstMatch [of s t] firstCand_gt [of t] by (auto simp: firstMatch_def)

section \<open>Properties\<close>

text \<open>
  C32: \<open>Next\<close> returns the earliest matching minute strictly after \<open>t\<close> within 366 days, and
  \<open>t\<close> plus a day when there is none.
\<close>

theorem Next_earliest:
  "if \<exists>x. onMinute x \<and> matches s x \<and> t < x \<and> x < t + 366 * 24 * Hour
   then onMinute (Next s t) \<and> matches s (Next s t) \<and> t < Next s t \<and> Next s t < t + 366 * 24 * Hour \<and>
     (\<forall>x. onMinute x \<and> matches s x \<and> t < x \<longrightarrow> Next s t \<le> x)
   else Next s t = t + 24 * Hour"
proof -
  let ?m = "\<lambda>x. onMinute x \<and> matches s x \<and> t < x"
  have c: "firstCand t \<le> x \<longleftrightarrow> t < x" if "onMinute x" for x
    using that firstCand_least [of x t] firstCand_gt [of t] by auto
  from Next_firstMatch [of s t] consider
    (hit) "onMinute (Next s t)" "matches s (Next s t)" "firstCand t \<le> Next s t" "Next s t < t + 366 * 24 * Hour"
      "\<And>x. onMinute x \<Longrightarrow> firstCand t \<le> x \<Longrightarrow> x < Next s t \<Longrightarrow> \<not> matches s x"
    | (none) "Next s t = t + 24 * Hour"
      "\<And>x. onMinute x \<Longrightarrow> firstCand t \<le> x \<Longrightarrow> x < t + 366 * 24 * Hour \<Longrightarrow> \<not> matches s x"
    unfolding firstMatch_def by blast
  then show ?thesis
  proof cases
    case hit
    have "\<exists>x. ?m x \<and> x < t + 366 * 24 * Hour" using hit c [OF hit(1)] by blast
    moreover have "\<forall>x. ?m x \<longrightarrow> Next s t \<le> x" using hit(5) c by (meson linorder_not_less)
    ultimately show ?thesis using hit c [OF hit(1)] by auto
  next
    case none
    then have "\<not> (\<exists>x. ?m x \<and> x < t + 366 * 24 * Hour)" using c by blast
    then show ?thesis using none(1) by auto
  qed
qed

definition everyHour :: CronSchedule where
  "everyHour = \<lparr>cs_minutes = [30], cs_hours = [0..23], cs_daysOfMonth = [1..31], cs_months = [1..12],
     cs_daysOfWeek = [0..6]\<rparr>"

text \<open>At the epoch a schedule of minute 30 of every hour fires at half past midnight.\<close>

theorem Next_earliest_witness:
  "onMinute (Next everyHour 0) \<and> matches everyHour (Next everyHour 0) \<and> Next everyHour 0 \<le> 30 * Minute"
proof -
  have "onMinute (30 * Minute)" by (simp add: onMinute_def)
  moreover have "matches everyHour (30 * Minute)" by code_simp
  ultimately have "\<exists>x. onMinute x \<and> matches everyHour x \<and> 0 < x \<and> x < 0 + 366 * 24 * Hour"
    and "onMinute (30 * Minute) \<and> matches everyHour (30 * Minute) \<and> 0 < (30 * Minute :: int)"
    by (auto intro!: exI [of _ "30 * Minute"])
  then show ?thesis using Next_earliest [of everyHour 0] by presburger
qed

text \<open>
  C37: the parser always returns: no field, however large its numbers, sends the loop that
  collects its values round forever, although that loop's counter wraps at 64 bits.
\<close>

theorem ParseCron_returns: "ParseCron expr \<noteq> Inl (CronError (InField name Diverges))"
proof -
  have "cronField n f mn mx \<noteq> Inl (CronError (InField name Diverges))"
    if "mx < 64" "0 \<le> mn" for n f mn mx
    using expandCronField_returns [OF that, of f] by (auto simp: cronField_def split: sum.splits)
  then show ?thesis by (auto simp: ParseCron_def split: list.splits sum.splits)
qed

text \<open>
  C34: the shape of every schedule the parser accepts. Each of the five lists is non-empty, without
  repetition and within the upper bound of its field (59, 23, 31, 12, 6). It is also within the lower bound (0,
  0, 1, 1, 0), unless a step of that field is written with more than 18 digits: then the loop's
  counter can wrap around.
\<close>

theorem ParseCron_wellformed:
  assumes "ParseCron expr = Inr s"
  shows "\<exists>f0 f1 f2 f3 f4. Fields expr = [f0, f1, f2, f3, f4] \<and>
    (cs_minutes s \<noteq> [] \<and> fieldOk 0 59 (shortSteps f0) (cs_minutes s)) \<and>
    (cs_hours s \<noteq> [] \<and> fieldOk 0 23 (shortSteps f1) (cs_hours s)) \<and>
    (cs_daysOfMonth s \<noteq> [] \<and> fieldOk 1 31 (shortSteps f2) (cs_daysOfMonth s)) \<and>
    (cs_months s \<noteq> [] \<and> fieldOk 1 12 (shortSteps f3) (cs_months s)) \<and>
    (cs_daysOfWeek s \<noteq> [] \<and> fieldOk 0 6 (shortSteps f4) (cs_daysOfWeek s))"
proof -
  obtain f0 f1 f2 f3 f4 where f: "Fields expr = [f0, f1, f2, f3, f4]"
    "cronField ''minute'' f0 0 59 = Inr (cs_minutes s)" "cronField ''hour'' f1 0 23 = Inr (cs_hours s)"
    "cronField ''day-of-month'' f2 1 31 = Inr (cs_daysOfMonth s)" "cronField ''month'' f3 1 12 = Inr (cs_months s)"
    "cronField ''day-of-week'' f4 0 6 = Inr (cs_daysOfWeek s)"
    using assms by (auto simp: ParseCron_def split: list.splits sum.splits)
  note ok = f(2-6) [THEN cronField_ok]
  show ?thesis by (intro exI [of _ f0] exI [of _ f1] exI [of _ f2] exI [of _ f3] exI [of _ f4] conjI f(1)) (simp_all add: ok)
qed

theorem ParseCron_wellformed_witness:
  "\<exists>s. ParseCron ''0,5,10,15,20,25,30,35,40,45,50,55 9-17 * * 1-5'' = Inr s \<and> cs_hours s = [9..17] \<and>
     fieldOk 0 59 True (cs_minutes s) \<and> fieldOk 0 23 True (cs_hours s)"
proof -
  let ?e = "''0,5,10,15,20,25,30,35,40,45,50,55 9-17 * * 1-5''"
  let ?s = "\<lparr>cs_minutes = [0, 5, 10, 15, 20, 25, 30, 35, 40, 45, 50, 55], cs_hours = [9..17], cs_daysOfMonth = [1..31],
    cs_months = [1..12], cs_daysOfWeek = [1..5]\<rparr>"
  have e: "ParseCron ?e = Inr ?s" by code_simp
  have "Fields ?e = [''0,5,10,15,20,25,30,35,40,45,50,55'', ''9-17'', ''*'', ''*'', ''1-5'']" by code_simp
  moreover have "shortSteps ''0,5,10,15,20,25,30,35,40,45,50,55''" "shortSteps ''9-17''" by code_simp+
  ultimately have "fieldOk 0 59 True (cs_minutes ?s)" "fieldOk 0 23 True (cs_hours ?s)"
    using ParseCron_wellformed [OF e] by auto
  then show ?thesis using e by (intro exI [of _ ?s]) simp
qed

text \<open>With a step of 19 digits the counter wraps, and values outside the field get in.\<close>

lemma cron_step_wraps: "expandCronField ''1-59/9223372036854775807'' 0 59 = Inr [1, -9223372036854775808, -1]"
  by code_simp

text \<open>
  The loop over \<open>lo-hi/step\<close> collects, without repetition, exactly the values from
  \<open>lo\<close> to \<open>hi\<close> that are a multiple of \<open>step\<close> away from \<open>lo\<close>.
\<close>

lemma valueLoop_collects:
  assumes "hi < 64" "0 < step" "step \<le> 2 ^ 63 - 64" "0 \<le> lo"
  shows "\<exists>r. valueLoop lo hi step [] = Some r \<and> set r = {x. lo \<le> x \<and> x \<le> hi \<and> step dvd (x - lo)}"
proof -
  obtain r where "valueLoop lo hi step [] = Some r"
    using valueLoop_returns [of hi step lo "[]"] assms by auto
  then show ?thesis using valueLoop_values [OF assms] by simp
qed

lemma valueLoop_collects_witness:
  "\<exists>r. valueLoop 0 59 15 [] = Some r \<and> set r = {x. 0 \<le> x \<and> x \<le> 59 \<and> 15 dvd (x - 0)}"
  using valueLoop_collects [of 59 15 0] by simp

end
