(* ===== verification/Domain.thy ===== *)
theory Domain
  imports Cron
begin

text \<open>
  \<open>internal/domain/models.go\<close> and \<open>internal/errcat/errcat.go\<close>: the entities shared by every
  component, the five priorities and their ranks, the retry policies and the delay they give,
  and the error classifier. \<open>Priority\<close>, \<open>RetryKind\<close> and \<open>DAGFailurePolicy\<close> stay strings,
  since callers supply arbitrary ones and the code tests for it; the status types, which only
  the engine writes, are datatypes.
\<close>

section \<open>Priorities\<close>

type_synonym Priority = string

abbreviation PriorityCritical :: Priority where "PriorityCritical \<equiv> ''critical''"
abbreviation PriorityHigh :: Priority where "PriorityHigh \<equiv> ''high''"
abbreviation PriorityNormal :: Priority where "PriorityNormal \<equiv> ''normal''"
abbreviation PriorityLow :: Priority where "PriorityLow \<equiv> ''low''"
abbreviation PriorityBulk :: Priority where "PriorityBulk \<equiv> ''bulk''"

definition PriorityOrder :: "Priority list" where
  "PriorityOrder = [PriorityCritical, PriorityHigh, PriorityNormal, PriorityLow, PriorityBulk]"

fun rankLoop :: "Priority \<Rightarrow> nat \<Rightarrow> Priority list \<Rightarrow> nat" where
  "rankLoop p i [] = i"
| "rankLoop p i (q # qs) = (if p = q then i else rankLoop p (Suc i) qs)"

definition Rank :: "Priority \<Rightarrow> nat" where
  "Rank p = rankLoop p 0 PriorityOrder"

definition Valid :: "Priority \<Rightarrow> bool" where
  "Valid p \<longleftrightarrow> Rank p < length PriorityOrder"

lemma Rank_simps [simp]:
  "Rank ''critical'' = 0" "Rank ''high'' = 1" "Rank ''normal'' = 2" "Rank ''low'' = 3"
  "Rank ''bulk'' = 4"
  by (simp_all add: Rank_def PriorityOrder_def)

lemma set_PriorityOrder: "set PriorityOrder = {''critical'', ''high'', ''normal'', ''low'', ''bulk''}"
  by (simp add: PriorityOrder_def)

lemma Rank_le: "Rank p \<le> 5"
  by (simp add: Rank_def PriorityOrder_def)

lemma Valid_iff: "Valid p \<longleftrightarrow> p \<in> set PriorityOrder"
  by (auto simp: Valid_def Rank_def PriorityOrder_def)

lemma PriorityOrder_nth_Rank: "p \<in> set PriorityOrder \<Longrightarrow> PriorityOrder ! Rank p = p"
  by (auto simp: set_PriorityOrder) (auto simp: PriorityOrder_def)

lemma Rank_inj: "p \<in> set PriorityOrder \<Longrightarrow> q \<in> set PriorityOrder \<Longrightarrow> Rank p = Rank q \<Longrightarrow> p = q"
  by (metis PriorityOrder_nth_Rank)

section \<open>Statuses\<close>

datatype TaskStatus = StatusPending | StatusReady | StatusRunning | StatusSucceeded
  | StatusFailed | StatusDead | StatusCanceled | StatusPaused

fun statusStr :: "TaskStatus \<Rightarrow> string" where
  "statusStr StatusPending = ''pending''"
| "statusStr StatusReady = ''ready''"
| "statusStr StatusRunning = ''running''"
| "statusStr StatusSucceeded = ''succeeded''"
| "statusStr StatusFailed = ''failed''"
| "statusStr StatusDead = ''dead''"
| "statusStr StatusCanceled = ''canceled''"
| "statusStr StatusPaused = ''paused''"

lemma statusStr_inj: "statusStr a = statusStr b \<longleftrightarrow> a = b"
  by (cases a; cases b; simp)

definition TerminalStatuses :: "TaskStatus \<Rightarrow> bool" where
  "TerminalStatuses s \<longleftrightarrow> s \<in> {StatusSucceeded, StatusFailed, StatusDead, StatusCanceled}"

section \<open>Retry policies\<close>

type_synonym RetryKind = string

abbreviation RetryExponential :: RetryKind where "RetryExponential \<equiv> ''exponential''"
abbreviation RetryFixed :: RetryKind where "RetryFixed \<equiv> ''fixed''"
abbreviation RetryCron :: RetryKind where "RetryCron \<equiv> ''cron''"

record RetryPolicy =
  rp_Kind :: RetryKind
  rp_BaseInterval :: int
  rp_MaxRetries :: int
  rp_CronExpression :: string

text \<open>The doubling loop: \<open>n\<close> iterations remain; it stops once the delay reaches an hour.\<close>

fun backoffLoop :: "nat \<Rightarrow> int \<Rightarrow> int" where
  "backoffLoop 0 d = d"
| "backoffLoop (Suc n) d = (if d \<ge> 3600 then d else backoffLoop n (d * 2))"

definition NextDelay :: "RetryPolicy \<Rightarrow> int \<Rightarrow> time \<Rightarrow> int res" where
  "NextDelay r attemptNumber now =
     (if rp_Kind r = RetryFixed then Inr (rp_BaseInterval r)
      else if rp_Kind r = RetryExponential \<or> rp_Kind r = '''' then
        Inr (backoffLoop (nat (attemptNumber - 1))
               (if rp_BaseInterval r \<le> 0 then 1 else rp_BaseInterval r))
      else if rp_Kind r = RetryCron then
        (case ParseCron (rp_CronExpression r) of
           Inl e \<Rightarrow> Inl e
         | Inr sched \<Rightarrow> Inr ((Next sched now - now) div Second + 1))
      else Inr (rp_BaseInterval r))"

lemma backoffLoop_bound: "0 < d \<Longrightarrow> backoffLoop n d < max (d + 1) 7200"
proof (induction n arbitrary: d)
  case 0
  then show ?case by simp
next
  case (Suc n)
  show ?case
  proof (cases "d \<ge> 3600")
    case False
    then have "backoffLoop n (d * 2) < max (d * 2 + 1) 7200"
      using Suc.IH [of "d * 2"] Suc.prems by simp
    with False show ?thesis by simp
  qed simp
qed

lemma backoffLoop_doublings:
  "\<exists>k \<le> n. backoffLoop n d = d * 2 ^ k \<and> (\<forall>j < k. d * 2 ^ j < 3600) \<and> (k < n \<longrightarrow> 3600 \<le> d * 2 ^ k)"
proof (induction n arbitrary: d)
  case (Suc n)
  show ?case
  proof (cases "d \<ge> 3600")
    case True
    then show ?thesis by (intro exI [of _ 0]) simp
  next
    case False
    obtain k where k: "k \<le> n" "backoffLoop n (d * 2) = d * 2 * 2 ^ k" "\<forall>j < k. d * 2 * 2 ^ j < 3600"
      "k < n \<longrightarrow> 3600 \<le> d * 2 * 2 ^ k" using Suc.IH [of "d * 2"] by blast
    have "d * 2 ^ j < 3600" if "j < Suc k" for j using that k(3) False by (cases j) (auto simp: mult.assoc)
    then show ?thesis using k False by (intro exI [of _ "Suc k"]) (auto simp: mult.assoc)
  qed
qed simp

lemma backoffLoop_mono: "0 < d \<Longrightarrow> backoffLoop n d \<le> backoffLoop (Suc n) d"
proof (induction n arbitrary: d)
  case 0
  then show ?case by simp
next
  case (Suc n)
  show ?case
  proof (cases "d \<ge> 3600")
    case False
    have "backoffLoop n (d * 2) \<le> backoffLoop (Suc n) (d * 2)"
      using Suc.IH [of "d * 2"] Suc.prems by (simp del: backoffLoop.simps)
    moreover have "backoffLoop (Suc n) d = backoffLoop n (d * 2)"
      "backoffLoop (Suc (Suc n)) d = backoffLoop (Suc n) (d * 2)" using False by simp_all
    ultimately show ?thesis by simp
  qed simp
qed

section \<open>Entities\<close>

record Task =
  t_ID :: string
  t_IDempotencyKey :: string
  t_Type :: string
  t_Payload :: string
  t_Priority :: Priority
  t_Status :: TaskStatus
  t_MaxRetries :: int
  t_Attempts :: int
  t_TimeoutSeconds :: int
  t_RetryPolicy :: RetryPolicy
  t_CallbackURL :: string
  t_ExecuteAfter :: "time option"
  t_WorkerID :: string
  t_LeaseExpiresAt :: "time option"
  t_DAGID :: string
  t_DAGNodeID :: string
  t_LastError :: string
  t_ErrCategory :: string
  t_CreatedAt :: time
  t_UpdatedAt :: time
  t_StartedAt :: "time option"
  t_FinishedAt :: "time option"

datatype AttemptStatus = AttRunning | AttSucceeded | AttFailed | AttTimeout | AttInterrupted

record Attempt =
  a_TaskID :: string
  a_AttemptNo :: int
  a_WorkerID :: string
  a_StartedAt :: time
  a_EndedAt :: "time option"
  a_Status :: AttemptStatus
  a_Error :: string
  a_ErrCategory :: string
  a_Result :: "string option"

datatype WorkerStatus = Draining | Offline | Online

text \<open>
  The status column of the workers table is text, and \<open>ORDER BY status\<close> sorts it as text:
  draining, offline, online. The order of the type is that order.
\<close>

fun workerStatusStr :: "WorkerStatus \<Rightarrow> string" where
  "workerStatusStr Draining = ''draining''"
| "workerStatusStr Offline = ''offline''"
| "workerStatusStr Online = ''online''"

instantiation WorkerStatus :: linorder
begin

definition less_eq_WorkerStatus :: "WorkerStatus \<Rightarrow> WorkerStatus \<Rightarrow> bool" where
  "a \<le> b \<longleftrightarrow> workerStatusStr a \<le> workerStatusStr b"

definition less_WorkerStatus :: "WorkerStatus \<Rightarrow> WorkerStatus \<Rightarrow> bool" where
  "a < b \<longleftrightarrow> workerStatusStr a < workerStatusStr b"

instance
proof
  fix a b c :: WorkerStatus
  show "a < b \<longleftrightarrow> a \<le> b \<and> \<not> b \<le> a"
    by (auto simp: less_eq_WorkerStatus_def less_WorkerStatus_def)
  show "a \<le> a" by (simp add: less_eq_WorkerStatus_def)
  show "a \<le> b \<Longrightarrow> b \<le> c \<Longrightarrow> a \<le> c" by (auto simp: less_eq_WorkerStatus_def)
  show "a \<le> b \<Longrightarrow> b \<le> a \<Longrightarrow> a = b"
    by (cases a; cases b) (auto simp: less_eq_WorkerStatus_def dest: order.antisym)
  show "a \<le> b \<or> b \<le> a" by (auto simp: less_eq_WorkerStatus_def)
qed

end

record Worker =
  w_ID :: string
  w_Name :: string
  w_Capabilities :: "string list"
  w_TotalSlots :: int
  w_UsedSlots :: int
  w_Status :: WorkerStatus
  w_LastHeartbeat :: time
  w_CurrentTaskIDs :: "string list"
  w_Completed :: int
  w_Failed :: int
  w_CreatedAt :: time

type_synonym DAGFailurePolicy = string

abbreviation DAGAbort :: DAGFailurePolicy where "DAGAbort \<equiv> ''terminate''"
abbreviation DAGSkip :: DAGFailurePolicy where "DAGSkip \<equiv> ''skip''"
abbreviation DAGRetry :: DAGFailurePolicy where "DAGRetry \<equiv> ''retry''"

record DAGNodeDef =
  nd_ID :: string
  nd_Type :: string
  nd_Payload :: string
  nd_Priority :: Priority
  nd_TimeoutSecs :: int
  nd_MaxRetries :: int
  nd_RetryPolicy :: RetryPolicy
  nd_CallbackURL :: string
  nd_Dependencies :: "string list"

record DAGDef =
  dd_Name :: string
  dd_FailurePolicy :: DAGFailurePolicy
  dd_Nodes :: "DAGNodeDef list"

datatype DAGStatus = DAGPending | DAGRunning | DAGSucceeded | DAGFailed

record DAG =
  d_ID :: string
  d_Name :: string
  d_FailurePolicy :: DAGFailurePolicy
  d_Status :: DAGStatus
  d_Def :: DAGDef
  d_CreatedAt :: time
  d_FinishedAt :: "time option"

datatype DAGNodeState = NodeWaiting | NodeReady | NodeRunning | NodeSucceeded | NodeFailed
  | NodeSkipped

record DAGNode =
  n_DAGID :: string
  n_NodeID :: string
  n_TaskID :: string
  n_State :: DAGNodeState
  n_Dependencies :: "string list"
  n_Attempts :: int
  n_UpdatedAt :: time

record AuditEntry =
  au_Entity :: string
  au_EntityID :: string
  au_Action :: string
  au_From :: string
  au_To :: string
  au_Actor :: string
  au_Detail :: string

section \<open>Error categories\<close>

definition Classify :: "string \<Rightarrow> string" where
  "Classify errMsg =
     (let m = ToLower errMsg in
      if Contains m ''timeout'' \<or> Contains m ''deadline exceeded'' \<or> Contains m ''context deadline''
      then ''timeout''
      else if Contains m ''panic'' then ''panic''
      else if Contains m ''preempt'' \<or> Contains m ''interrupt'' then ''preempted''
      else if Contains m ''invalid'' \<or> Contains m ''unmarshal'' \<or> Contains m ''bad request''
      then ''invalid_input''
      else if Contains m ''connection'' \<or> Contains m ''http'' \<or> Contains m ''dial'' \<or> Contains m ''refused''
      then ''external_dependency''
      else if errMsg = '''' then ''unknown''
      else ''handler_error'')"

lemma Classify_unknown_iff: "Classify m = ''unknown'' \<longleftrightarrow> m = ''''"
  by (cases m) (auto simp: Classify_def Let_def ToLower_def)

lemma Classify_nonempty: "Classify m \<noteq> ''''"
  by (simp add: Classify_def Let_def)

section \<open>Properties\<close>

text \<open>
  C38: exponential backoff, exactly. The delay after attempt \<open>n\<close> is the base (one second when it is
  not positive) doubled \<open>k\<close> times, where \<open>k\<close> is \<open>n - 1\<close>, or less when the doubled base reaches an
  hour before: then \<open>k\<close> is the first number of doublings that reaches it. So the delay never shrinks
  from one attempt to the next; and since the check comes before the doubling, it is not capped at
  the hour the README names but can come close to two hours, and a base of an hour or more is kept as
  it is.
\<close>

theorem NextDelay_exponential:
  assumes "rp_Kind r = RetryExponential \<or> rp_Kind r = ''''" "1 \<le> n"
  defines "b \<equiv> (if rp_BaseInterval r \<le> 0 then 1 else rp_BaseInterval r)"
  shows "\<exists>k d'. NextDelay r n now = Inr (b * 2 ^ k) \<and> int k \<le> n - 1 \<and> (\<forall>j < k. b * 2 ^ j < 3600) \<and>
    (int k < n - 1 \<longrightarrow> 3600 \<le> b * 2 ^ k) \<and>
    NextDelay r (n + 1) now = Inr d' \<and> b * 2 ^ k \<le> d' \<and> b * 2 ^ k < max (b + 1) 7200"
proof -
  have b: "0 < b" by (simp add: b_def)
  have n: "nat (n + 1 - 1) = Suc (nat (n - 1))" using assms(2) by simp
  have d: "NextDelay r k now = Inr (backoffLoop (nat (k - 1)) b)" for k
    using assms(1) by (auto simp: NextDelay_def b_def)
  obtain k where k: "k \<le> nat (n - 1)" "backoffLoop (nat (n - 1)) b = b * 2 ^ k" "\<forall>j < k. b * 2 ^ j < 3600"
    "k < nat (n - 1) \<longrightarrow> 3600 \<le> b * 2 ^ k" using backoffLoop_doublings by blast
  have "b * 2 ^ k \<le> backoffLoop (Suc (nat (n - 1))) b" "b * 2 ^ k < max (b + 1) 7200"
    using backoffLoop_mono [OF b, of "nat (n - 1)"] backoffLoop_bound [OF b, of "nat (n - 1)"] unfolding k(2) by blast+
  moreover have "int k \<le> n - 1" "int k < n - 1 \<longrightarrow> 3600 \<le> b * 2 ^ k" using k(1,4) assms(2) by auto
  ultimately show ?thesis using k(3) unfolding d n k(2) by blast
qed

definition hourlyBackoff :: RetryPolicy where
  "hourlyBackoff = \<lparr>rp_Kind = RetryExponential, rp_BaseInterval = 5, rp_MaxRetries = 20, rp_CronExpression = ''''\<rparr>"

text \<open>With a base of 5 seconds the eleventh attempt waits ten doublings, 5120 seconds, more than an hour.\<close>

theorem NextDelay_exponential_witness:
  "\<exists>k. NextDelay hourlyBackoff 11 0 = Inr (5 * 2 ^ k) \<and> k \<le> 10 \<and> (k < 10 \<longrightarrow> 3600 \<le> (5 :: int) * 2 ^ k) \<and>
     NextDelay hourlyBackoff 11 0 = Inr 5120"
proof -
  have "NextDelay hourlyBackoff 11 0 = Inr 5120" by code_simp
  then show ?thesis using NextDelay_exponential [of hourlyBackoff 11 0] by (auto simp: hourlyBackoff_def)
qed

text \<open>
  A cron policy with an expression that parses waits for the next match: the delay is
  positive, and the instant it reaches lies in the second that follows the match.
\<close>

lemma NextDelay_cron:
  assumes "rp_Kind r = RetryCron" "ParseCron (rp_CronExpression r) = Inr sched"
  shows "\<exists>d. NextDelay r n now = Inr d \<and> 1 \<le> d \<and>
    Next sched now < now + d * Second \<and> now + d * Second \<le> Next sched now + Second"
proof -
  let ?w = "Next sched now - now"
  have d: "NextDelay r n now = Inr (?w div Second + 1)" using assms by (simp add: NextDelay_def)
  have "0 < ?w" using Next_gt [of now sched] by simp
  then have "0 \<le> ?w div Second" by simp
  moreover have "?w = Second * (?w div Second) + ?w mod Second" by simp
  moreover have "0 \<le> ?w mod Second" "?w mod Second < Second" by simp_all
  ultimately have "1 \<le> ?w div Second + 1 \<and> Next sched now < now + (?w div Second + 1) * Second \<and>
      now + (?w div Second + 1) * Second \<le> Next sched now + Second"
    unfolding distrib_right by linarith
  then show ?thesis unfolding d by blast
qed

definition dailyRetry :: RetryPolicy where
  "dailyRetry = \<lparr>rp_Kind = RetryCron, rp_BaseInterval = 0, rp_MaxRetries = 1, rp_CronExpression = ''0 4 1 1 0''\<rparr>"

lemma NextDelay_cron_witness:
  "\<exists>sched d. ParseCron ''0 4 1 1 0'' = Inr sched \<and> NextDelay dailyRetry 1 0 = Inr d \<and> 1 \<le> d"
proof -
  have "ParseCron (rp_CronExpression dailyRetry) = Inr \<lparr>cs_minutes = [0], cs_hours = [4], cs_daysOfMonth = [1],
      cs_months = [1], cs_daysOfWeek = [0]\<rparr>"
    by code_simp
  then show ?thesis using NextDelay_cron [of dailyRetry _ 1 0] by (auto simp: dailyRetry_def)
qed

end
