(* ===== verification/Store_Base.thy ===== *)
theory Store_Base
  imports Domain
begin

text \<open>
  The tables of the Postgres store, transactions and the audit log
  (\<open>internal/storage/postgres.go\<close>, \<open>audit.go\<close>, the column lists and row conversions of
  \<open>tasks.go\<close> and \<open>update_helpers.go\<close>). A store call takes a \<open>call\<close>: the fault the
  driver answers it with, if any, and the two clocks it reads, the server's \<open>now()\<close> (the
  transaction's timestamp) and the process's \<open>time.Now()\<close>. A fault of any statement of a
  transaction, of its begin or of its commit takes the same exit, rolls back and returns the
  error, so one fault per call covers them.
\<close>

section \<open>Tables\<close>

record TaskRow =
  c_id :: string
  c_idempotency_key :: string
  c_type :: string
  c_payload :: string
  c_priority :: string
  c_status :: TaskStatus
  c_max_retries :: int
  c_attempts :: int
  c_timeout_seconds :: int
  c_retry_kind :: string
  c_retry_base :: int
  c_retry_cron :: string
  c_callback_url :: string
  c_execute_after :: "time option"
  c_worker_id :: string
  c_lease_expires_at :: "time option"
  c_dag_id :: string
  c_dag_node_id :: string
  c_last_error :: string
  c_error_category :: string
  c_created_at :: time
  c_updated_at :: time
  c_started_at :: "time option"
  c_finished_at :: "time option"

record db =
  tasks :: "TaskRow list"
  task_attempts :: "Attempt list"
  workers :: "Worker list"
  dags :: "DAG list"
  dag_nodes :: "DAGNode list"
  audit_logs :: "AuditEntry list"

definition emptyDb :: db where
  "emptyDb = \<lparr>tasks = [], task_attempts = [], workers = [], dags = [], dag_nodes = [], audit_logs = []\<rparr>"

section \<open>Calls and transactions\<close>

record call =
  k_fault :: "err option"
  k_dbnow :: time
  k_gonow :: time

definition withTx :: "call \<Rightarrow> (db \<Rightarrow> err + ('a \<times> db)) \<Rightarrow> db \<Rightarrow> 'a res \<times> db" where
  "withTx c fn s =
     (case k_fault c of
        Some e \<Rightarrow> (Inl e, s)
      | None \<Rightarrow> (case fn s of Inl e \<Rightarrow> (Inl e, s) | Inr (x, s') \<Rightarrow> (Inr x, s')))"

text \<open>A single statement outside a transaction, and a query, which changes nothing.\<close>

definition poolExec :: "call \<Rightarrow> (db \<Rightarrow> 'a \<times> db) \<Rightarrow> db \<Rightarrow> 'a res \<times> db" where
  "poolExec c fn s =
     (case k_fault c of Some e \<Rightarrow> (Inl e, s) | None \<Rightarrow> (case fn s of (x, s') \<Rightarrow> (Inr x, s')))"

definition poolQuery :: "call \<Rightarrow> (db \<Rightarrow> 'a) \<Rightarrow> db \<Rightarrow> 'a res" where
  "poolQuery c fn s = (case k_fault c of Some e \<Rightarrow> Inl e | None \<Rightarrow> Inr (fn s))"

lemma withTx_Inl: "withTx c fn s = (Inl e, s') \<Longrightarrow> s' = s"
  by (auto simp: withTx_def split: option.splits sum.splits prod.splits)

lemma withTx_Inr: "withTx c fn s = (Inr x, s') \<longleftrightarrow> k_fault c = None \<and> fn s = Inr (x, s')"
  by (auto simp: withTx_def split: option.splits sum.splits prod.splits)

lemma withTx_cases:
  obtains (err) e where "withTx c fn s = (Inl e, s)"
  | (ok) x s' where "withTx c fn s = (Inr x, s')" "k_fault c = None" "fn s = Inr (x, s')"
  by (cases "withTx c fn s"; cases "fst (withTx c fn s)") (auto simp: withTx_Inr dest: withTx_Inl)

lemma poolExec_Inl: "poolExec c fn s = (Inl e, s') \<Longrightarrow> s' = s"
  by (auto simp: poolExec_def split: option.splits prod.splits)

lemma poolExec_Inr: "poolExec c fn s = (Inr x, s') \<longleftrightarrow> k_fault c = None \<and> fn s = (x, s')"
  by (auto simp: poolExec_def split: option.splits prod.splits)

section \<open>The audit log\<close>

definition writeAudit ::
  "string \<Rightarrow> string \<Rightarrow> string \<Rightarrow> string \<Rightarrow> string \<Rightarrow> string \<Rightarrow> string \<Rightarrow> db \<Rightarrow> db" where
  "writeAudit entity entityID action from to actor detail s =
     s\<lparr>audit_logs := audit_logs s @
        [\<lparr>au_Entity = entity, au_EntityID = entityID, au_Action = action, au_From = from,
          au_To = to, au_Actor = actor, au_Detail = detail\<rparr>]\<rparr>"

definition Audit ::
  "call \<Rightarrow> string \<Rightarrow> string \<Rightarrow> string \<Rightarrow> string \<Rightarrow> string \<Rightarrow> string \<Rightarrow> string \<Rightarrow> db \<Rightarrow> unit res \<times> db" where
  "Audit c entity entityID action from to actor detail =
     poolExec c (\<lambda>s. ((), writeAudit entity entityID action from to actor detail s))"

text \<open>Newest first; the empty string is the wildcard of either filter.\<close>

definition ListAudit :: "call \<Rightarrow> string \<Rightarrow> string \<Rightarrow> int \<Rightarrow> db \<Rightarrow> AuditEntry list res" where
  "ListAudit c entity entityID limit =
     poolQuery c (\<lambda>s.
       take (nat (if limit \<le> 0 \<or> limit > 1000 then 200 else limit))
         (rev (selectWhere (\<lambda>a. (entity = '''' \<or> au_Entity a = entity) \<and>
                                (entityID = '''' \<or> au_EntityID a = entityID)) (audit_logs s))))"

lemma writeAudit_simps [simp]:
  "tasks (writeAudit a b c d e f g s) = tasks s"
  "task_attempts (writeAudit a b c d e f g s) = task_attempts s"
  "workers (writeAudit a b c d e f g s) = workers s"
  "dags (writeAudit a b c d e f g s) = dags s"
  "dag_nodes (writeAudit a b c d e f g s) = dag_nodes s"
  by (simp_all add: writeAudit_def)

lemma audit_writeAudit: "audit_logs (writeAudit en i a f t ac d s) =
  audit_logs s @ [\<lparr>au_Entity = en, au_EntityID = i, au_Action = a, au_From = f, au_To = t,
    au_Actor = ac, au_Detail = d\<rparr>]"
  by (simp add: writeAudit_def)

section \<open>Rows and tasks\<close>

definition taskArgs :: "Task \<Rightarrow> TaskRow" where
  "taskArgs t = \<lparr>
     c_id = t_ID t, c_idempotency_key = t_IDempotencyKey t, c_type = t_Type t,
     c_payload = t_Payload t, c_priority = t_Priority t, c_status = t_Status t,
     c_max_retries = t_MaxRetries t, c_attempts = t_Attempts t,
     c_timeout_seconds = t_TimeoutSeconds t,
     c_retry_kind = rp_Kind (t_RetryPolicy t), c_retry_base = rp_BaseInterval (t_RetryPolicy t),
     c_retry_cron = rp_CronExpression (t_RetryPolicy t),
     c_callback_url = t_CallbackURL t, c_execute_after = t_ExecuteAfter t,
     c_worker_id = t_WorkerID t, c_lease_expires_at = t_LeaseExpiresAt t,
     c_dag_id = t_DAGID t, c_dag_node_id = t_DAGNodeID t, c_last_error = t_LastError t,
     c_error_category = t_ErrCategory t, c_created_at = t_CreatedAt t,
     c_updated_at = t_UpdatedAt t, c_started_at = t_StartedAt t, c_finished_at = t_FinishedAt t\<rparr>"

definition scanTask :: "TaskRow \<Rightarrow> Task" where
  "scanTask r = \<lparr>
     t_ID = c_id r, t_IDempotencyKey = c_idempotency_key r, t_Type = c_type r,
     t_Payload = c_payload r, t_Priority = c_priority r, t_Status = c_status r,
     t_MaxRetries = c_max_retries r, t_Attempts = c_attempts r,
     t_TimeoutSeconds = c_timeout_seconds r,
     t_RetryPolicy = \<lparr>rp_Kind = c_retry_kind r, rp_BaseInterval = c_retry_base r,
        rp_MaxRetries = c_max_retries r, rp_CronExpression = c_retry_cron r\<rparr>,
     t_CallbackURL = c_callback_url r, t_ExecuteAfter = c_execute_after r,
     t_WorkerID = c_worker_id r, t_LeaseExpiresAt = c_lease_expires_at r,
     t_DAGID = c_dag_id r, t_DAGNodeID = c_dag_node_id r, t_LastError = c_last_error r,
     t_ErrCategory = c_error_category r, t_CreatedAt = c_created_at r,
     t_UpdatedAt = c_updated_at r, t_StartedAt = c_started_at r, t_FinishedAt = c_finished_at r\<rparr>"

lemma scanTask_sel [simp]:
  "t_ID (scanTask r) = c_id r" "t_Type (scanTask r) = c_type r"
  "t_Priority (scanTask r) = c_priority r" "t_Status (scanTask r) = c_status r"
  "t_MaxRetries (scanTask r) = c_max_retries r" "t_Attempts (scanTask r) = c_attempts r"
  "t_WorkerID (scanTask r) = c_worker_id r" "t_LeaseExpiresAt (scanTask r) = c_lease_expires_at r"
  "t_ExecuteAfter (scanTask r) = c_execute_after r" "t_DAGID (scanTask r) = c_dag_id r"
  "t_DAGNodeID (scanTask r) = c_dag_node_id r" "t_IDempotencyKey (scanTask r) = c_idempotency_key r"
  "t_TimeoutSeconds (scanTask r) = c_timeout_seconds r" "t_CallbackURL (scanTask r) = c_callback_url r"
  "t_LastError (scanTask r) = c_last_error r" "t_ErrCategory (scanTask r) = c_error_category r"
  "t_UpdatedAt (scanTask r) = c_updated_at r" "t_CreatedAt (scanTask r) = c_created_at r"
  "t_FinishedAt (scanTask r) = c_finished_at r" "t_StartedAt (scanTask r) = c_started_at r"
  by (simp_all add: scanTask_def)

lemma taskArgs_sel [simp]:
  "c_id (taskArgs t) = t_ID t" "c_status (taskArgs t) = t_Status t"
  "c_idempotency_key (taskArgs t) = t_IDempotencyKey t" "c_attempts (taskArgs t) = t_Attempts t"
  "c_worker_id (taskArgs t) = t_WorkerID t" "c_lease_expires_at (taskArgs t) = t_LeaseExpiresAt t"
  "c_execute_after (taskArgs t) = t_ExecuteAfter t" "c_finished_at (taskArgs t) = t_FinishedAt t"
  "c_priority (taskArgs t) = t_Priority t" "c_max_retries (taskArgs t) = t_MaxRetries t"
  "c_type (taskArgs t) = t_Type t" "c_payload (taskArgs t) = t_Payload t"
  by (simp_all add: taskArgs_def)

lemma taskArgs_scanTask [simp]: "taskArgs (scanTask r) = r"
  by (simp add: taskArgs_def scanTask_def)

lemma scanTask_taskArgs:
  "scanTask (taskArgs t) = t\<lparr>t_RetryPolicy := (t_RetryPolicy t)\<lparr>rp_MaxRetries := t_MaxRetries t\<rparr>\<rparr>"
  by (cases t; cases "t_RetryPolicy t") (simp add: taskArgs_def scanTask_def)

section \<open>The column lists\<close>

text \<open>
  \<open>taskColumns\<close> is a raw string literal whose lines end in a comma, a newline and a tab;
  \<open>prefixedColumns\<close> splits it at a comma followed by a blank.
\<close>

definition newlineTab :: string where "newlineTab = [CHR 0x0A, CHR 0x09]"

definition taskColumns :: string where
  "taskColumns =
     ''id, idempotency_key, type, payload, priority, status,'' @ newlineTab @
     ''max_retries, attempts, timeout_seconds,'' @ newlineTab @
     ''retry_kind, retry_base, retry_cron,'' @ newlineTab @
     ''callback_url, execute_after, worker_id, lease_expires_at,'' @ newlineTab @
     ''dag_id, dag_node_id, last_error, error_category,'' @ newlineTab @
     ''created_at, updated_at, started_at, finished_at''"

text \<open>\<open>strings.Split\<close> at a separator of two characters, \<open>strings.TrimSpace\<close>, \<open>strings.Join\<close>.\<close>

fun splitPair :: "char \<Rightarrow> char \<Rightarrow> string \<Rightarrow> string list" where
  "splitPair a b [] = [[]]"
| "splitPair a b [c] = [[c]]"
| "splitPair a b (c # d # s) =
     (if c = a \<and> d = b then [] # splitPair a b s
      else (case splitPair a b (d # s) of [] \<Rightarrow> [[c]] | w # ws \<Rightarrow> (c # w) # ws))"

definition TrimSpace :: "string \<Rightarrow> string" where
  "TrimSpace s = rev (dropWhile isSpace (rev (dropWhile isSpace s)))"

fun Join :: "string list \<Rightarrow> string \<Rightarrow> string" where
  "Join [] sep = []"
| "Join [w] sep = w"
| "Join (w # ws) sep = w @ sep @ Join ws sep"

definition prefixedColumns :: "string \<Rightarrow> string" where
  "prefixedColumns alias =
     Join (map (\<lambda>c. alias @ ''.'' @ TrimSpace c) (splitPair CHR '','' CHR '' '' taskColumns)) '', ''"

text \<open>The items of a select list, as SQL reads it: separated by commas, white space ignored.\<close>

definition selectItems :: "string \<Rightarrow> string list" where
  "selectItems s = map TrimSpace (splitChar CHR '','' s)"

text \<open>\<open>RFC3339\<close> of a UTC instant, and the decimal rendering \<open>itoa\<close> of the store.\<close>

definition pad2 :: "int \<Rightarrow> string" where
  "pad2 n = (if n < 10 then ''0'' @ showInt n else showInt n)"

definition formatRFC3339 :: "time \<Rightarrow> string" where
  "formatRFC3339 t = showInt (yearOf t) @ ''-'' @ pad2 (monthOf t) @ ''-'' @ pad2 (dayOf t) @ ''T'' @
     pad2 (hourOf t) @ '':'' @ pad2 (minuteOf t) @ '':'' @ pad2 (t mod Minute div Second) @ ''Z''"

function itoaLoop :: "nat \<Rightarrow> string \<Rightarrow> string" where
  "itoaLoop n b = (if n > 0 then itoaLoop (n div 10) (char_of (48 + n mod 10) # b) else b)"
  by pat_completeness auto
termination
  by (relation "measure fst") auto

declare itoaLoop.simps [simp del]

definition itoa :: "nat \<Rightarrow> string" where
  "itoa n = (if n = 0 then ''0'' else itoaLoop n [])"

lemma itoaLoop_showNat: "0 < n \<Longrightarrow> itoaLoop n b = showNat n @ b"
proof (induction n b rule: itoaLoop.induct)
  case (1 n b)
  show ?case
  proof (cases "n < 10")
    case True
    then show ?thesis using "1.prems" by (simp add: itoaLoop.simps [of n] itoaLoop.simps [of 0] showNat.simps [of n])
  next
    case False
    then have "0 < n div 10" by (simp add: div_greater_zero_iff)
    then show ?thesis using "1.IH" "1.prems" False
      by (simp add: itoaLoop.simps [of n b] showNat.simps [of n])
  qed
qed

lemma char_of_48: "char_of (48::nat) = CHR ''0''"
  by code_simp

lemma itoa_showNat: "itoa n = showNat n"
  by (cases "n = 0") (simp_all add: itoa_def itoaLoop_showNat showNat.simps [of 0] char_of_48)

end
