(* ===== verification/Store_Tasks.thy ===== *)
theory Store_Tasks
  imports Store_Base
begin

text \<open>
  The task side of the store: \<open>tasks.go\<close>, \<open>attempts.go\<close>, \<open>transitions.go\<close>, \<open>cancel.go\<close>,
  \<open>queue_ops.go\<close> and the partial update of \<open>update_helpers.go\<close>. Each operation is its
  statements in the order the code sends them.
\<close>

section \<open>Creating and reading tasks\<close>

text \<open>The defaults \<open>CreateTask\<close> writes into the task it is given.\<close>

definition createDefaults :: "time \<Rightarrow> Task \<Rightarrow> Task" where
  "createDefaults now t =
     (let t1 = (if IsZero (t_CreatedAt t) then t\<lparr>t_CreatedAt := now\<rparr> else t);
          t2 = t1\<lparr>t_UpdatedAt := t_CreatedAt t1\<rparr>;
          t3 = (if rp_Kind (t_RetryPolicy t2) = ''''
                then t2\<lparr>t_RetryPolicy := (t_RetryPolicy t2)\<lparr>rp_Kind := RetryExponential\<rparr>\<rparr> else t2)
      in if t_MaxRetries t3 = 0 \<and> rp_MaxRetries (t_RetryPolicy t3) > 0
         then t3\<lparr>t_MaxRetries := rp_MaxRetries (t_RetryPolicy t3)\<rparr> else t3)"

text \<open>
  The primary key and the unique index on non-empty idempotency keys; the driver reports both
  with a message containing \<open>duplicate key\<close>, which \<open>CreateTask\<close> turns into \<open>ErrConflict\<close>.
\<close>

definition duplicateKey :: "TaskRow \<Rightarrow> TaskRow list \<Rightarrow> bool" where
  "duplicateKey r rows \<longleftrightarrow>
     (\<exists>x \<in> set rows. c_id x = c_id r \<or>
        (c_idempotency_key r \<noteq> '''' \<and> c_idempotency_key x = c_idempotency_key r))"

definition CreateTask :: "call \<Rightarrow> Task \<Rightarrow> db \<Rightarrow> Task res \<times> db" where
  "CreateTask c t =
     (let t' = createDefaults (k_gonow c) t in
      withTx c (\<lambda>s.
        if duplicateKey (taskArgs t') (tasks s) then Inl ErrConflict
        else Inr (t', writeAudit ''task'' (t_ID t') ''created'' '''' (statusStr (t_Status t')) (t_Type t')
                        (''priority='' @ t_Priority t' @ '' type='' @ t_Type t')
                        (s\<lparr>tasks := tasks s @ [taskArgs t']\<rparr>))))"

definition GetTask :: "call \<Rightarrow> string \<Rightarrow> db \<Rightarrow> Task option res" where
  "GetTask c tid = poolQuery c (\<lambda>s. map_option scanTask (lookupRow c_id tid (tasks s)))"

definition GetTaskByIdem :: "call \<Rightarrow> string \<Rightarrow> db \<Rightarrow> Task option res" where
  "GetTaskByIdem c key = poolQuery c (\<lambda>s. map_option scanTask (lookupRow c_idempotency_key key (tasks s)))"

record TaskFilter =
  f_Statuses :: "string list"
  f_Priority :: string
  f_Type :: string
  f_DAGID :: string
  f_From :: "time option"
  f_To :: "time option"
  f_Limit :: int
  f_Offset :: int

definition filterConds :: "TaskFilter \<Rightarrow> TaskRow \<Rightarrow> bool" where
  "filterConds f r \<longleftrightarrow>
     (f_Statuses f \<noteq> [] \<longrightarrow> statusStr (c_status r) \<in> set (f_Statuses f)) \<and>
     (f_Priority f \<noteq> '''' \<longrightarrow> c_priority r = f_Priority f) \<and>
     (f_Type f \<noteq> '''' \<longrightarrow> c_type r = f_Type f) \<and>
     (f_DAGID f \<noteq> '''' \<longrightarrow> c_dag_id r = f_DAGID f) \<and>
     (case f_From f of None \<Rightarrow> True | Some t \<Rightarrow> c_created_at r \<ge> t) \<and>
     (case f_To f of None \<Rightarrow> True | Some t \<Rightarrow> c_created_at r \<le> t)"

text \<open>Newest first; the server refuses a negative \<open>OFFSET\<close>.\<close>

definition ListTasks :: "call \<Rightarrow> TaskFilter \<Rightarrow> db \<Rightarrow> (Task list \<times> nat) res" where
  "ListTasks c f s =
     (if k_fault c = None \<and> f_Offset f < 0 then Inl (DriverErr ''OFFSET must not be negative'')
      else poolQuery c (\<lambda>s.
       let rows = selectWhere (filterConds f) (tasks s);
           limit = (if f_Limit f \<le> 0 \<or> f_Limit f > 500 then 100 else f_Limit f)
       in (map scanTask (take (nat limit) (drop (nat (f_Offset f))
             (sort_key (\<lambda>r. - c_created_at r) rows))), length rows)) s)"

definition TaskStatusCount :: "call \<Rightarrow> db \<Rightarrow> (TaskStatus, nat) amap res" where
  "TaskStatusCount c = poolQuery c (\<lambda>s.
     map (\<lambda>st. (st, length (selectWhere (\<lambda>r. c_status r = st) (tasks s))))
       (remdups (map c_status (tasks s))))"

definition Attempts :: "call \<Rightarrow> string \<Rightarrow> db \<Rightarrow> Attempt list res" where
  "Attempts c tid = poolQuery c (\<lambda>s.
     sort_key a_AttemptNo (selectWhere (\<lambda>a. a_TaskID a = tid) (task_attempts s)))"

section \<open>Leasing\<close>

definition beginRow :: "string \<Rightarrow> time \<Rightarrow> time \<Rightarrow> TaskRow \<Rightarrow> TaskRow" where
  "beginRow workerID lease now r =
     r\<lparr>c_status := StatusRunning, c_worker_id := workerID, c_lease_expires_at := Some lease,
       c_attempts := c_attempts r + 1,
       c_started_at := (case c_started_at r of None \<Rightarrow> Some now | Some t \<Rightarrow> Some t),
       c_updated_at := now\<rparr>"

definition newAttempt :: "string \<Rightarrow> int \<Rightarrow> string \<Rightarrow> time \<Rightarrow> Attempt" where
  "newAttempt tid no workerID now =
     \<lparr>a_TaskID = tid, a_AttemptNo = no, a_WorkerID = workerID, a_StartedAt = now, a_EndedAt = None,
      a_Status = AttRunning, a_Error = '''', a_ErrCategory = '''', a_Result = None\<rparr>"

definition BeginAttempt :: "call \<Rightarrow> string \<Rightarrow> string \<Rightarrow> time \<Rightarrow> db \<Rightarrow> Task res \<times> db" where
  "BeginAttempt c taskID workerID lease =
     withTx c (\<lambda>s.
       let P = (\<lambda>r. c_id r = taskID \<and> c_status r = StatusReady);
           f = beginRow workerID lease (k_dbnow c)
       in (case map f (selectWhere P (tasks s)) of
             [] \<Rightarrow> Inl ErrConflict
           | r # _ \<Rightarrow>
               let t = scanTask r;
                   s1 = s\<lparr>tasks := updateWhere P f (tasks s)\<rparr>;
                   s2 = s1\<lparr>task_attempts := task_attempts s1 @
                            [newAttempt (t_ID t) (t_Attempts t) workerID (k_dbnow c)]\<rparr>
               in Inr (t, writeAudit ''task'' (t_ID t) ''leased'' ''ready'' ''running'' workerID
                            (''attempt='' @ showInt (t_Attempts t)) s2)))"

definition RenewLease :: "call \<Rightarrow> string \<Rightarrow> string \<Rightarrow> time \<Rightarrow> db \<Rightarrow> bool res \<times> db" where
  "RenewLease c taskID workerID expiry =
     poolExec c (\<lambda>s.
       let P = (\<lambda>r. c_id r = taskID \<and> c_worker_id r = workerID \<and> c_status r = StatusRunning)
       in (length (selectWhere P (tasks s)) = 1,
           s\<lparr>tasks := updateWhere P (\<lambda>r. r\<lparr>c_lease_expires_at := Some expiry\<rparr>) (tasks s)\<rparr>))"

section \<open>Partial task updates\<close>

record taskUpdate =
  u_status :: "TaskStatus option"
  u_executeAfter :: "time option"
  u_finishedAt :: "time option"
  u_lastError :: "string option"
  u_errorCategory :: "string option"
  u_clearLease :: bool

definition noUpdate :: taskUpdate where
  "noUpdate = \<lparr>u_status = None, u_executeAfter = None, u_finishedAt = None, u_lastError = None,
     u_errorCategory = None, u_clearLease = False\<rparr>"

definition updateRow :: "taskUpdate \<Rightarrow> time \<Rightarrow> TaskRow \<Rightarrow> TaskRow" where
  "updateRow u now r =
     (let r1 = r\<lparr>c_updated_at := now\<rparr>;
          r2 = (case u_status u of None \<Rightarrow> r1 | Some x \<Rightarrow> r1\<lparr>c_status := x\<rparr>);
          r3 = (case u_executeAfter u of None \<Rightarrow> r2 | Some x \<Rightarrow> r2\<lparr>c_execute_after := Some x\<rparr>);
          r4 = (case u_finishedAt u of None \<Rightarrow> r3 | Some x \<Rightarrow> r3\<lparr>c_finished_at := Some x\<rparr>);
          r5 = (case u_lastError u of None \<Rightarrow> r4 | Some x \<Rightarrow> r4\<lparr>c_last_error := x\<rparr>);
          r6 = (case u_errorCategory u of None \<Rightarrow> r5 | Some x \<Rightarrow> r5\<lparr>c_error_category := x\<rparr>)
      in if u_clearLease u then r6\<lparr>c_worker_id := '''', c_lease_expires_at := None\<rparr> else r6)"

definition applyTaskUpdate :: "call \<Rightarrow> Task \<Rightarrow> taskUpdate \<Rightarrow> db \<Rightarrow> db" where
  "applyTaskUpdate c t u s =
     s\<lparr>tasks := updateWhere (\<lambda>r. c_id r = t_ID t) (updateRow u (k_dbnow c)) (tasks s)\<rparr>"

section \<open>Completing an attempt\<close>

datatype CompletionOutcome = OutcomeSucceeded | OutcomeRetrying | OutcomeDead

record CompleteResult =
  cr_TaskID :: string
  cr_WorkerID :: string
  cr_Success :: bool
  cr_Result :: string
  cr_Error :: string
  cr_Category :: string
  cr_RetryAfter :: time

definition nullableBytes :: "string \<Rightarrow> string option" where
  "nullableBytes b = (if b = [] then None else Some b)"

definition endAttempt :: "AttemptStatus \<Rightarrow> string \<Rightarrow> string \<Rightarrow> string option \<Rightarrow> time \<Rightarrow> Attempt \<Rightarrow> Attempt" where
  "endAttempt st e cat res now a =
     a\<lparr>a_EndedAt := Some now, a_Status := st, a_Error := e, a_ErrCategory := cat, a_Result := res\<rparr>"

text \<open>The transition of the \<open>switch\<close>: the update, the outcome and the audit entry.\<close>

definition completionUpdate :: "call \<Rightarrow> CompleteResult \<Rightarrow> CompletionOutcome \<times> taskUpdate" where
  "completionUpdate c inp =
     (if cr_Success inp then
        (OutcomeSucceeded, noUpdate\<lparr>u_status := Some StatusSucceeded,
           u_finishedAt := Some (k_gonow c), u_clearLease := True\<rparr>)
      else if IsZero (cr_RetryAfter inp) then
        (OutcomeDead, noUpdate\<lparr>u_status := Some StatusDead, u_finishedAt := Some (k_gonow c),
           u_lastError := Some (cr_Error inp), u_errorCategory := Some (cr_Category inp),
           u_clearLease := True\<rparr>)
      else
        (OutcomeRetrying, noUpdate\<lparr>u_status := Some StatusPending,
           u_executeAfter := Some (cr_RetryAfter inp),
           u_lastError := Some (cr_Error inp), u_errorCategory := Some (cr_Category inp),
           u_clearLease := True\<rparr>))"

definition completionAudit :: "CompleteResult \<Rightarrow> Task \<Rightarrow> CompletionOutcome \<Rightarrow> db \<Rightarrow> db" where
  "completionAudit inp t outcome =
     (case outcome of
        OutcomeSucceeded \<Rightarrow> writeAudit ''task'' (t_ID t) ''succeeded'' ''running'' ''succeeded'' (cr_WorkerID inp) ''''
      | OutcomeDead \<Rightarrow> writeAudit ''task'' (t_ID t) ''dead_letter'' ''running'' ''dead'' (cr_WorkerID inp)
          (''category='' @ cr_Category inp @ '' attempts='' @ showInt (t_Attempts t))
      | OutcomeRetrying \<Rightarrow> writeAudit ''task'' (t_ID t) ''retry_scheduled'' ''running'' ''pending'' (cr_WorkerID inp)
          (''after='' @ formatRFC3339 (cr_RetryAfter inp) @ '' category='' @ cr_Category inp))"

definition CompleteAttempt :: "call \<Rightarrow> CompleteResult \<Rightarrow> db \<Rightarrow> (Task \<times> CompletionOutcome) res \<times> db" where
  "CompleteAttempt c inp =
     withTx c (\<lambda>s.
       (case lookupRow c_id (cr_TaskID inp) (tasks s) of
          None \<Rightarrow> Inl ErrConflict
        | Some row \<Rightarrow>
            let t = scanTask row in
            if t_Status t \<noteq> StatusRunning \<or> t_WorkerID t \<noteq> cr_WorkerID inp then Inl ErrConflict
            else
              let s1 = s\<lparr>task_attempts := updateWhere
                          (\<lambda>a. a_TaskID a = t_ID t \<and> a_AttemptNo a = t_Attempts t)
                          (endAttempt (if cr_Success inp then AttSucceeded else AttFailed) (cr_Error inp)
                             (cr_Category inp) (nullableBytes (cr_Result inp)) (k_dbnow c))
                          (task_attempts s)\<rparr>;
                  (outcome, u) = completionUpdate c inp;
                  s2 = completionAudit inp t outcome (applyTaskUpdate c t u s1)
              in (case lookupRow c_id (t_ID t) (tasks s2) of
                    None \<Rightarrow> Inl ErrNoRows
                  | Some row' \<Rightarrow> Inr ((scanTask row', outcome), s2))))"

section \<open>Preemption and reclaiming\<close>

definition freeRow :: "time \<Rightarrow> TaskRow \<Rightarrow> TaskRow" where
  "freeRow now r =
     r\<lparr>c_status := StatusReady, c_worker_id := '''', c_lease_expires_at := None, c_updated_at := now\<rparr>"

definition Preempt :: "call \<Rightarrow> string \<Rightarrow> string \<Rightarrow> db \<Rightarrow> Task res \<times> db" where
  "Preempt c taskID byWorker =
     withTx c (\<lambda>s.
       let P = (\<lambda>r. c_id r = taskID \<and> c_status r = StatusRunning);
           f = freeRow (k_dbnow c)
       in (case map f (selectWhere P (tasks s)) of
             [] \<Rightarrow> Inl ErrConflict
           | r # _ \<Rightarrow>
               let s1 = s\<lparr>tasks := updateWhere P f (tasks s)\<rparr>;
                   s2 = s1\<lparr>task_attempts := updateWhere
                            (\<lambda>a. a_TaskID a = taskID \<and> a_EndedAt a = None)
                            (\<lambda>a. a\<lparr>a_EndedAt := Some (k_dbnow c), a_Status := AttInterrupted,
                                   a_Error := ''preempted by critical task'', a_ErrCategory := ''preempted''\<rparr>)
                            (task_attempts s1)\<rparr>
               in Inr (scanTask r, writeAudit ''task'' taskID ''preempted'' ''running'' ''ready'' byWorker
                            ''interrupted for critical dispatch; back to queue head'' s2)))"

record ReclaimedTask =
  rc_Task :: Task
  rc_OldWorker :: string
  rc_Reason :: string

definition workerLost :: "Worker list \<Rightarrow> string \<Rightarrow> bool" where
  "workerLost ws wid = (case lookupRow w_ID wid ws of None \<Rightarrow> True | Some w \<Rightarrow> w_Status w = Offline)"

definition leaseExpired :: "time \<Rightarrow> TaskRow \<Rightarrow> bool" where
  "leaseExpired now r = (case c_lease_expires_at r of None \<Rightarrow> False | Some l \<Rightarrow> l < now)"

definition victims :: "time \<Rightarrow> db \<Rightarrow> ReclaimedTask list" where
  "victims now s =
     map (\<lambda>r. \<lparr>rc_Task = scanTask r, rc_OldWorker = c_worker_id r,
               rc_Reason = (if workerLost (workers s) (c_worker_id r) then ''worker_offline''
                            else ''lease_expired'')\<rparr>)
       (selectWhere (\<lambda>r. c_status r = StatusRunning \<and>
          (leaseExpired now r \<or> workerLost (workers s) (c_worker_id r))) (tasks s))"

text \<open>
  The \<open>UPDATE\<close> of the attempts: \<open>ended_at\<close> is set on every attempt of the task, the other
  columns only where it was still open.
\<close>

definition timeoutAttempt :: "time \<Rightarrow> Attempt \<Rightarrow> Attempt" where
  "timeoutAttempt now a =
     (if a_EndedAt a = None
      then a\<lparr>a_EndedAt := Some now, a_Status := AttTimeout, a_Error := ''lease expired / worker lost'',
             a_ErrCategory := ''timeout''\<rparr>
      else a\<lparr>a_EndedAt := Some now\<rparr>)"

definition reclaimOne :: "call \<Rightarrow> ReclaimedTask \<Rightarrow> db \<Rightarrow> db" where
  "reclaimOne c v s =
     (let tid = t_ID (rc_Task v);
          s1 = s\<lparr>tasks := updateWhere (\<lambda>r. c_id r = tid) (freeRow (k_dbnow c)) (tasks s)\<rparr>;
          s2 = s1\<lparr>task_attempts := updateWhere (\<lambda>a. a_TaskID a = tid) (timeoutAttempt (k_dbnow c)) (task_attempts s1)\<rparr>
      in writeAudit ''task'' tid ''reclaimed'' ''running'' ''ready'' ''reaper''
           (''reason='' @ rc_Reason v @ '' old_worker='' @ rc_OldWorker v) s2)"

text \<open>
  \<open>accepts\<close> says whether the server accepts a select list over \<open>tasks t LEFT JOIN workers w\<close>;
  the list sent is \<open>prefixedColumns("t")\<close> followed by the reason.
\<close>

definition ReclaimExpired :: "(string list \<Rightarrow> bool) \<Rightarrow> call \<Rightarrow> time \<Rightarrow> db \<Rightarrow> ReclaimedTask list res \<times> db" where
  "ReclaimExpired accepts c now =
     withTx c (\<lambda>s.
       if \<not> accepts (selectItems (prefixedColumns ''t'')) then Inl (DriverErr ''query rejected'')
       else (let vs = victims now s in Inr (vs, fold (reclaimOne c) vs s)))"

section \<open>Promotion of waiting tasks\<close>

definition dueRow :: "time \<Rightarrow> TaskRow \<Rightarrow> bool" where
  "dueRow now r \<longleftrightarrow> c_status r = StatusPending \<and>
     (case c_execute_after r of None \<Rightarrow> True | Some t \<Rightarrow> t \<le> now)"

definition readyRow :: "time \<Rightarrow> TaskRow \<Rightarrow> TaskRow" where
  "readyRow now r = r\<lparr>c_status := StatusReady, c_updated_at := now\<rparr>"

text \<open>\<open>ORDER BY execute_after NULLS FIRST\<close>.\<close>

definition dueOrder :: "TaskRow list \<Rightarrow> TaskRow list" where
  "dueOrder rows = filter (\<lambda>r. c_execute_after r = None) rows @
     sort_key (\<lambda>r. case c_execute_after r of None \<Rightarrow> 0 | Some t \<Rightarrow> t)
       (filter (\<lambda>r. c_execute_after r \<noteq> None) rows)"

definition PromotePending :: "call \<Rightarrow> time \<Rightarrow> nat \<Rightarrow> db \<Rightarrow> Task list res \<times> db" where
  "PromotePending c now limit =
     withTx c (\<lambda>s.
       let ids = map c_id (take limit (dueOrder (selectWhere (dueRow now) (tasks s))));
           P = (\<lambda>r. c_id r \<in> set ids);
           f = readyRow (k_dbnow c)
       in Inr (map (scanTask \<circ> f) (selectWhere P (tasks s)), s\<lparr>tasks := updateWhere P f (tasks s)\<rparr>))"

definition auditEach :: "(string \<Rightarrow> db \<Rightarrow> db) \<Rightarrow> string list \<Rightarrow> db \<Rightarrow> db" where
  "auditEach w ids s = fold w ids s"

definition MarkReadyByIDs :: "call \<Rightarrow> string list \<Rightarrow> time \<Rightarrow> db \<Rightarrow> Task list res \<times> db" where
  "MarkReadyByIDs c ids now s =
     (if ids = [] then (Inr [], s)
      else withTx c (\<lambda>s.
        let P = (\<lambda>r. c_id r \<in> set ids \<and> dueRow now r);
            f = readyRow (k_dbnow c);
            out = map (scanTask \<circ> f) (selectWhere P (tasks s));
            s1 = s\<lparr>tasks := updateWhere P f (tasks s)\<rparr>
        in Inr (out, auditEach (\<lambda>i. writeAudit ''task'' i ''promoted'' ''pending'' ''ready'' ''delay-scheduler''
                                    ''delay/retry wait elapsed'') (map t_ID out) s1)) s)"

record PendingEntry =
  pe_ID :: string
  pe_ExecuteAfter :: "time option"

definition ListPending :: "call \<Rightarrow> db \<Rightarrow> PendingEntry list res" where
  "ListPending c = poolQuery c (\<lambda>s.
     map (\<lambda>r. \<lparr>pe_ID = c_id r, pe_ExecuteAfter = c_execute_after r\<rparr>)
       (selectWhere (\<lambda>r. c_status r = StatusPending) (tasks s)))"

definition requeueRow :: "time \<Rightarrow> TaskRow \<Rightarrow> TaskRow" where
  "requeueRow now r =
     r\<lparr>c_status := StatusReady, c_worker_id := '''', c_lease_expires_at := None,
       c_execute_after := None, c_updated_at := now\<rparr>"

definition RequeueReady :: "call \<Rightarrow> string list \<Rightarrow> db \<Rightarrow> unit res \<times> db" where
  "RequeueReady c ids s =
     (if ids = [] then (Inr (), s)
      else withTx c (\<lambda>s.
        Inr ((), s\<lparr>tasks := updateWhere
          (\<lambda>r. c_id r \<in> set ids \<and> c_status r \<noteq> StatusReady \<and>
               c_status r \<notin> {StatusSucceeded, StatusCanceled})
          (requeueRow (k_dbnow c)) (tasks s)\<rparr>)) s)"

text \<open>
  \<open>RecoverInflight\<close>: the count is assigned inside the transaction and survives a later fault
  of it (\<open>late\<close>, the fault of the statements after the update), so the audit entry, written
  on its own connection, may record a recovery that was rolled back.
\<close>

definition RecoverInflight ::
  "call \<Rightarrow> err option \<Rightarrow> call \<Rightarrow> db \<Rightarrow> (Task list \<times> nat) res \<times> db" where
  "RecoverInflight c late ca s =
     (case k_fault c of
        Some e \<Rightarrow> (Inl e, s)
      | None \<Rightarrow>
          let P = (\<lambda>r. c_status r = StatusRunning);
              reclaimed = length (selectWhere P (tasks s));
              s1 = s\<lparr>tasks := updateWhere P (freeRow (k_dbnow c)) (tasks s)\<rparr>;
              readyIDs = map scanTask (sort_key c_created_at (selectWhere (\<lambda>r. c_status r = StatusReady) (tasks s1)));
              (r, s2) = (case late of Some e \<Rightarrow> (Inl e, s) | None \<Rightarrow> (Inr (readyIDs, reclaimed), s1))
          in if reclaimed > 0
             then (r, snd (Audit ca ''task'' ''*'' ''startup_recovery'' ''running'' ''ready'' ''bootstrap''
                             ''reclaimed running tasks on engine start'' s2))
             else (r, s2))"

section \<open>Dead letters\<close>

definition CountDead :: "call \<Rightarrow> db \<Rightarrow> nat res" where
  "CountDead c = poolQuery c (\<lambda>s. length (selectWhere (\<lambda>r. c_status r = StatusDead) (tasks s)))"

record DeadLetter =
  dl_Task :: Task
  dl_Attempts :: "Attempt list"
  dl_DeadAt :: time

definition ListDead :: "call \<Rightarrow> int \<Rightarrow> int \<Rightarrow> db \<Rightarrow> (DeadLetter list \<times> nat) res" where
  "ListDead c limit offset s =
     (if k_fault c = None \<and> offset < 0 then Inl (DriverErr ''OFFSET must not be negative'')
      else poolQuery c (\<lambda>s.
       let dead = selectWhere (\<lambda>r. c_status r = StatusDead) (tasks s);
           lim = (if limit \<le> 0 \<or> limit > 500 then 100 else limit);
           page = take (nat lim) (drop (nat offset) (sort_key (\<lambda>r. - c_updated_at r) dead))
       in (map (\<lambda>r. \<lparr>dl_Task = scanTask r,
                     dl_Attempts = sort_key a_AttemptNo (selectWhere (\<lambda>a. a_TaskID a = c_id r) (task_attempts s)),
                     dl_DeadAt = c_updated_at r\<rparr>) page, length dead)) s)"

definition retryDeadRow :: "time \<Rightarrow> TaskRow \<Rightarrow> TaskRow" where
  "retryDeadRow now r =
     r\<lparr>c_status := StatusReady, c_last_error := '''', c_error_category := '''', c_finished_at := None,
       c_execute_after := None, c_updated_at := now\<rparr>"

text \<open>
  The audit entries are written while the rows of the \<open>UPDATE ... RETURNING\<close> are still being
  read; \<open>busy\<close> says whether the driver refuses a statement on a connection whose rows are
  open.
\<close>

definition RetryDead :: "bool \<Rightarrow> call \<Rightarrow> string list \<Rightarrow> db \<Rightarrow> (Task list \<times> nat) res \<times> db" where
  "RetryDead busy c ids =
     withTx c (\<lambda>s.
       let P = (\<lambda>r. c_id r \<in> set ids \<and> c_status r = StatusDead);
           f = retryDeadRow (k_dbnow c);
           moved = map (scanTask \<circ> f) (selectWhere P (tasks s));
           s1 = s\<lparr>tasks := updateWhere P f (tasks s)\<rparr>
       in if moved \<noteq> [] \<and> busy then Inl (DriverErr ''conn busy'')
          else Inr ((moved, length moved),
                 auditEach (\<lambda>i. writeAudit ''task'' i ''dead_retry'' ''dead'' ''ready'' ''api''
                                ''dead letter manually re-enqueued'') (map t_ID moved) s1))"

definition DiscardDead :: "call \<Rightarrow> string list \<Rightarrow> db \<Rightarrow> nat res \<times> db" where
  "DiscardDead c ids =
     withTx c (\<lambda>s.
       let P = (\<lambda>r. c_id r \<in> set ids \<and> c_status r = StatusDead);
           n = length (selectWhere P (tasks s));
           s1 = s\<lparr>tasks := updateWhere P (\<lambda>r. r\<lparr>c_status := StatusCanceled, c_updated_at := k_dbnow c\<rparr>) (tasks s)\<rparr>
       in Inr (n, auditEach (\<lambda>i. writeAudit ''task'' i ''dead_discard'' ''dead'' ''canceled'' ''api'' '''') ids s1))"

definition deadCategory :: "TaskRow \<Rightarrow> string" where
  "deadCategory r = (if c_error_category r = '''' then ''unknown'' else c_error_category r)"

definition AggregateDead :: "call \<Rightarrow> db \<Rightarrow> (string \<times> nat) list res" where
  "AggregateDead c = poolQuery c (\<lambda>s.
     let cats = map deadCategory (selectWhere (\<lambda>r. c_status r = StatusDead) (tasks s))
     in sort_key (\<lambda>b. - int (snd b)) (map (\<lambda>k. (k, count_list cats k)) (remdups cats)))"

definition EnsureReady :: "call \<Rightarrow> string \<Rightarrow> db \<Rightarrow> Task option res" where
  "EnsureReady c tid = poolQuery c (\<lambda>s.
     (case selectWhere (\<lambda>r. c_id r = tid \<and> c_status r = StatusReady) (tasks s) of
        [] \<Rightarrow> None | r # _ \<Rightarrow> Some (scanTask r)))"

section \<open>Cancelling\<close>

definition cancelRow :: "time \<Rightarrow> TaskRow \<Rightarrow> TaskRow" where
  "cancelRow now r = r\<lparr>c_status := StatusCanceled, c_updated_at := now, c_finished_at := Some now\<rparr>"

definition CancelTask :: "call \<Rightarrow> string \<Rightarrow> db \<Rightarrow> unit res \<times> db" where
  "CancelTask c tid =
     withTx c (\<lambda>s.
       (case lookupRow c_id tid (tasks s) of
          None \<Rightarrow> Inl ErrConflict
        | Some r \<Rightarrow>
            if TerminalStatuses (c_status r) then Inl ErrConflict
            else Inr ((), writeAudit ''task'' tid ''canceled'' (statusStr (c_status r)) ''canceled'' ''api''
                            ''manual cancellation''
                            (s\<lparr>tasks := updateWhere (\<lambda>r. c_id r = tid) (cancelRow (k_dbnow c)) (tasks s)\<rparr>))))"

definition LinkDAGNode :: "call \<Rightarrow> string \<Rightarrow> string \<Rightarrow> string \<Rightarrow> db \<Rightarrow> unit res \<times> db" where
  "LinkDAGNode c taskID dagID nodeID =
     withTx c (\<lambda>s. Inr ((), s\<lparr>tasks := updateWhere (\<lambda>r. c_id r = taskID)
       (\<lambda>r. r\<lparr>c_dag_id := dagID, c_dag_node_id := nodeID\<rparr>) (tasks s)\<rparr>))"

end
