(* ===== verification/Store_Inv.thy ===== *)
theory Store_Inv
  imports Store_Tasks
begin

text \<open>
  The store as a state machine. \<open>StoreOp\<close> lists the operations that change tasks,
  \<open>applyOp\<close> runs one. The theory states the well-formedness invariant of tasks and attempts
  and shows that every operation keeps it.
\<close>

section \<open>The operations\<close>

datatype StoreOp =
    OpCreate call Task
  | OpBegin call string string time
  | OpRenew call string string time
  | OpComplete call CompleteResult
  | OpPreempt call string string
  | OpReclaim "string list \<Rightarrow> bool" call time
  | OpPromote call time nat
  | OpMarkReady call "string list" time
  | OpRequeue call "string list"
  | OpRecover call "err option" call
  | OpRetryDead bool call "string list"
  | OpDiscard call "string list"
  | OpCancel call string
  | OpLink call string string string

fun applyOp :: "StoreOp \<Rightarrow> db \<Rightarrow> db" where
  "applyOp (OpCreate c t) s = snd (CreateTask c t s)"
| "applyOp (OpBegin c i w l) s = snd (BeginAttempt c i w l s)"
| "applyOp (OpRenew c i w l) s = snd (RenewLease c i w l s)"
| "applyOp (OpComplete c r) s = snd (CompleteAttempt c r s)"
| "applyOp (OpPreempt c i w) s = snd (Preempt c i w s)"
| "applyOp (OpReclaim a c n) s = snd (ReclaimExpired a c n s)"
| "applyOp (OpPromote c n l) s = snd (PromotePending c n l s)"
| "applyOp (OpMarkReady c is n) s = snd (MarkReadyByIDs c is n s)"
| "applyOp (OpRequeue c is) s = snd (RequeueReady c is s)"
| "applyOp (OpRecover c l ca) s = snd (RecoverInflight c l ca s)"
| "applyOp (OpRetryDead b c is) s = snd (RetryDead b c is s)"
| "applyOp (OpDiscard c is) s = snd (DiscardDead c is s)"
| "applyOp (OpCancel c i) s = snd (CancelTask c i s)"
| "applyOp (OpLink c i d n) s = snd (LinkDAGNode c i d n s)"

section \<open>Every operation is one update of the task table\<close>

lemma updateWhere_idem_fold:
  assumes "\<And>r. key (f r) = key r" "\<And>r. f (f r) = f r"
  shows "fold (\<lambda>v. updateWhere (\<lambda>r. key r = g v) f) vs rows = updateWhere (\<lambda>r. key r \<in> g ` set vs) f rows"
proof (induction vs arbitrary: rows)
  case Nil
  then show ?case by (simp add: updateWhere_none)
next
  case (Cons v vs)
  have "updateWhere (\<lambda>r. key r \<in> g ` set vs) f (updateWhere (\<lambda>r. key r = g v) f rows) =
      updateWhere (\<lambda>r. key r \<in> g ` set (v # vs)) f rows"
    by (induction rows) (auto simp: assms)
  then show ?case using Cons by simp
qed

lemma freeRow_simps [simp]:
  "c_id (freeRow n r) = c_id r" "freeRow n (freeRow n r) = freeRow n r"
  "c_status (freeRow n r) = StatusReady" "c_worker_id (freeRow n r) = ''''"
  "c_lease_expires_at (freeRow n r) = None" "c_attempts (freeRow n r) = c_attempts r"
  "c_idempotency_key (freeRow n r) = c_idempotency_key r" "c_priority (freeRow n r) = c_priority r"
  "c_execute_after (freeRow n r) = c_execute_after r" "c_finished_at (freeRow n r) = c_finished_at r"
  by (simp_all add: freeRow_def)

lemma timeoutAttempt_simps [simp]:
  "a_TaskID (timeoutAttempt n a) = a_TaskID a" "a_AttemptNo (timeoutAttempt n a) = a_AttemptNo a"
  "a_WorkerID (timeoutAttempt n a) = a_WorkerID a"
  "timeoutAttempt n (timeoutAttempt n a) = timeoutAttempt n a"
  "a_EndedAt (timeoutAttempt n a) = Some n"
  by (simp_all add: timeoutAttempt_def)

lemma reclaimOne_simps [simp]:
  "tasks (reclaimOne c v s) = updateWhere (\<lambda>r. c_id r = t_ID (rc_Task v)) (freeRow (k_dbnow c)) (tasks s)"
  "task_attempts (reclaimOne c v s) =
     updateWhere (\<lambda>a. a_TaskID a = t_ID (rc_Task v)) (timeoutAttempt (k_dbnow c)) (task_attempts s)"
  "workers (reclaimOne c v s) = workers s"
  by (simp_all add: reclaimOne_def Let_def)

lemma fold_reclaimOne:
  "tasks (fold (reclaimOne c) vs s) =
     updateWhere (\<lambda>r. c_id r \<in> (t_ID \<circ> rc_Task) ` set vs) (freeRow (k_dbnow c)) (tasks s)"
  "task_attempts (fold (reclaimOne c) vs s) =
     updateWhere (\<lambda>a. a_TaskID a \<in> (t_ID \<circ> rc_Task) ` set vs) (timeoutAttempt (k_dbnow c)) (task_attempts s)"
  "workers (fold (reclaimOne c) vs s) = workers s"
proof -
  have "tasks (fold (reclaimOne c) vs s) =
      fold (\<lambda>v. updateWhere (\<lambda>r. c_id r = (t_ID \<circ> rc_Task) v) (freeRow (k_dbnow c))) vs (tasks s)"
    by (induction vs arbitrary: s) auto
  then show "tasks (fold (reclaimOne c) vs s) =
      updateWhere (\<lambda>r. c_id r \<in> (t_ID \<circ> rc_Task) ` set vs) (freeRow (k_dbnow c)) (tasks s)"
    by (simp add: updateWhere_idem_fold [of c_id "freeRow (k_dbnow c)"])
  have "task_attempts (fold (reclaimOne c) vs s) =
      fold (\<lambda>v. updateWhere (\<lambda>a. a_TaskID a = (t_ID \<circ> rc_Task) v) (timeoutAttempt (k_dbnow c))) vs (task_attempts s)"
    by (induction vs arbitrary: s) auto
  then show "task_attempts (fold (reclaimOne c) vs s) =
      updateWhere (\<lambda>a. a_TaskID a \<in> (t_ID \<circ> rc_Task) ` set vs) (timeoutAttempt (k_dbnow c)) (task_attempts s)"
    by (simp add: updateWhere_idem_fold [of a_TaskID "timeoutAttempt (k_dbnow c)"])
  show "workers (fold (reclaimOne c) vs s) = workers s"
    by (induction vs arbitrary: s) auto
qed

lemma auditEach_simps [simp]:
  "tasks (auditEach (\<lambda>i. writeAudit a i b d e f g) is s) = tasks s"
  "task_attempts (auditEach (\<lambda>i. writeAudit a i b d e f g) is s) = task_attempts s"
  "workers (auditEach (\<lambda>i. writeAudit a i b d e f g) is s) = workers s"
  by (induction "is" arbitrary: s) (auto simp: auditEach_def)

lemma completionAudit_simps [simp]:
  "tasks (completionAudit inp t out s) = tasks s"
  "task_attempts (completionAudit inp t out s) = task_attempts s"
  "workers (completionAudit inp t out s) = workers s"
  by (cases out; simp add: completionAudit_def)+

lemma applyTaskUpdate_simps [simp]:
  "tasks (applyTaskUpdate c t u s) = updateWhere (\<lambda>r. c_id r = t_ID t) (updateRow u (k_dbnow c)) (tasks s)"
  "task_attempts (applyTaskUpdate c t u s) = task_attempts s"
  "workers (applyTaskUpdate c t u s) = workers s"
  by (simp_all add: applyTaskUpdate_def)

lemma updateRow_simps [simp]:
  "c_id (updateRow u n r) = c_id r" "c_attempts (updateRow u n r) = c_attempts r"
  "c_idempotency_key (updateRow u n r) = c_idempotency_key r"
  "c_status (updateRow u n r) = (case u_status u of None \<Rightarrow> c_status r | Some x \<Rightarrow> x)"
  "c_worker_id (updateRow u n r) = (if u_clearLease u then '''' else c_worker_id r)"
  "c_lease_expires_at (updateRow u n r) = (if u_clearLease u then None else c_lease_expires_at r)"
  "c_finished_at (updateRow u n r) = (case u_finishedAt u of None \<Rightarrow> c_finished_at r | Some x \<Rightarrow> Some x)"
  "c_execute_after (updateRow u n r) = (case u_executeAfter u of None \<Rightarrow> c_execute_after r | Some x \<Rightarrow> Some x)"
  "c_last_error (updateRow u n r) = (case u_lastError u of None \<Rightarrow> c_last_error r | Some x \<Rightarrow> x)"
  "c_error_category (updateRow u n r) = (case u_errorCategory u of None \<Rightarrow> c_error_category r | Some x \<Rightarrow> x)"
  "c_priority (updateRow u n r) = c_priority r" "c_max_retries (updateRow u n r) = c_max_retries r"
  by (simp_all add: updateRow_def Let_def split: option.splits)

section \<open>Well-formedness\<close>

text \<open>What holds of a single row, by its status.\<close>

definition row_ok :: "TaskRow \<Rightarrow> bool" where
  "row_ok r \<longleftrightarrow> 0 \<le> c_attempts r \<and> c_status r \<noteq> StatusFailed \<and> c_status r \<noteq> StatusPaused \<and>
     (c_status r \<in> {StatusPending, StatusReady, StatusSucceeded, StatusDead} \<longrightarrow>
        c_worker_id r = '''' \<and> c_lease_expires_at r = None) \<and>
     (c_status r = StatusRunning \<longrightarrow> c_lease_expires_at r \<noteq> None \<and> 1 \<le> c_attempts r) \<and>
     (c_status r = StatusPending \<longrightarrow> c_execute_after r \<noteq> None) \<and>
     (c_status r \<in> {StatusSucceeded, StatusDead, StatusCanceled} \<longrightarrow> c_finished_at r \<noteq> None)"

definition idem_unique :: "TaskRow list \<Rightarrow> bool" where
  "idem_unique rows \<longleftrightarrow>
     distinct (filter (\<lambda>k. k \<noteq> '''') (map c_idempotency_key rows))"

text \<open>The attempts of a task are numbered 1 to \<open>attempts\<close>, in the order they were inserted.\<close>

definition attempts_numbered :: "Attempt list \<Rightarrow> TaskRow \<Rightarrow> bool" where
  "attempts_numbered as r \<longleftrightarrow>
     map a_AttemptNo (selectWhere (\<lambda>a. a_TaskID a = c_id r) as) = [1..c_attempts r]"

text \<open>A running task has an open attempt, the current one, on the worker that leases it.\<close>

definition running_open :: "Attempt list \<Rightarrow> TaskRow \<Rightarrow> bool" where
  "running_open as r \<longleftrightarrow> (c_status r = StatusRunning \<longrightarrow>
     (\<exists>a \<in> set as. a_TaskID a = c_id r \<and> a_AttemptNo a = c_attempts r \<and> a_EndedAt a = None \<and>
        a_WorkerID a = c_worker_id r))"

definition db_inv :: "db \<Rightarrow> bool" where
  "db_inv s \<longleftrightarrow> distinct (map c_id (tasks s)) \<and> idem_unique (tasks s) \<and>
     (\<forall>r \<in> set (tasks s). row_ok r \<and> attempts_numbered (task_attempts s) r \<and> running_open (task_attempts s) r) \<and>
     a_TaskID ` set (task_attempts s) \<subseteq> c_id ` set (tasks s)"

text \<open>What the engine's \<open>Submit\<close> guarantees of the tasks it creates.\<close>

definition new_task_ok :: "Task \<Rightarrow> bool" where
  "new_task_ok t \<longleftrightarrow> t_Attempts t = 0 \<and> t_WorkerID t = '''' \<and> t_LeaseExpiresAt t = None \<and>
     (t_Status t = StatusReady \<or> (t_Status t = StatusPending \<and> t_ExecuteAfter t \<noteq> None))"

definition op_ok :: "StoreOp \<Rightarrow> bool" where
  "op_ok op = (case op of OpCreate c t \<Rightarrow> new_task_ok t | _ \<Rightarrow> True)"

lemma db_inv_empty: "db_inv emptyDb"
  by (simp add: db_inv_def emptyDb_def idem_unique_def)

text \<open>
  The one lemma behind every operation but the two that insert: an update of the tasks and an
  update of the attempts keep the invariant if the row update keeps \<open>row_ok\<close> and never
  turns a row running, and no open attempt of a task that stays running is touched.
\<close>

lemma db_inv_update:
  assumes inv: "db_inv s"
    and t: "tasks s' = updateWhere P f (tasks s)"
    and a: "task_attempts s' = updateWhere Q g (task_attempts s)"
    and f: "\<And>r. c_id (f r) = c_id r" "\<And>r. c_idempotency_key (f r) = c_idempotency_key r"
      "\<And>r. c_attempts (f r) = c_attempts r"
    and ok: "\<And>r. r \<in> set (tasks s) \<Longrightarrow> P r \<Longrightarrow> row_ok r \<Longrightarrow> row_ok (f r)"
    and run: "\<And>r. r \<in> set (tasks s) \<Longrightarrow> P r \<Longrightarrow> c_status (f r) = StatusRunning \<Longrightarrow>
      c_status r = StatusRunning \<and> c_worker_id (f r) = c_worker_id r"
    and g: "\<And>x. a_TaskID (g x) = a_TaskID x" "\<And>x. a_AttemptNo (g x) = a_AttemptNo x"
    and q: "\<And>x r. r \<in> set (tasks s) \<Longrightarrow> Q x \<Longrightarrow> a_TaskID x = c_id r \<Longrightarrow> P r \<and> c_status (f r) \<noteq> StatusRunning"
  shows "db_inv s'"
proof -
  let ?u = "\<lambda>r. if P r then f r else r" and ?v = "\<lambda>x. if Q x then g x else x"
  have ids: "map c_id (tasks s') = map c_id (tasks s)" unfolding t by (rule map_key_updateWhere) (rule f)
  have idem: "map c_idempotency_key (tasks s') = map c_idempotency_key (tasks s)"
    unfolding t by (rule map_key_updateWhere) (rule f)
  have fk: "a_TaskID ` set (task_attempts s') = a_TaskID ` set (task_attempts s)"
    using map_key_updateWhere [of "task_attempts s" Q a_TaskID g] g(1) unfolding a
    by (metis list.set_map)
  have sel: "map a_AttemptNo (selectWhere (\<lambda>x. a_TaskID x = i) (updateWhere Q g as)) =
      map a_AttemptNo (selectWhere (\<lambda>x. a_TaskID x = i) as)" for i as
    by (induction as) (auto simp: g)
  have rows: "row_ok (?u r) \<and> attempts_numbered (task_attempts s') (?u r) \<and> running_open (task_attempts s') (?u r)"
    if r: "r \<in> set (tasks s)" for r
  proof (intro conjI)
    have old: "row_ok r" "attempts_numbered (task_attempts s) r" "running_open (task_attempts s) r"
      using inv r by (auto simp: db_inv_def)
    show "row_ok (?u r)" using ok [OF r] old by simp
    show "attempts_numbered (task_attempts s') (?u r)"
      using old(2) by (simp add: attempts_numbered_def a sel f)
    show "running_open (task_attempts s') (?u r)"
      unfolding running_open_def
    proof
      assume run': "c_status (?u r) = StatusRunning"
      then have "c_status r = StatusRunning" "c_worker_id (?u r) = c_worker_id r"
        using run [OF r] by (auto split: if_splits)
      then obtain x where x: "x \<in> set (task_attempts s)" "a_TaskID x = c_id r" "a_AttemptNo x = c_attempts r"
        "a_EndedAt x = None" "a_WorkerID x = c_worker_id r"
        using old(3) by (auto simp: running_open_def)
      have "\<not> Q x" using q [OF r _ x(2)] run' by auto
      then have "x \<in> set (task_attempts s')" using x(1) unfolding a set_updateWhere by force
      then show "\<exists>y\<in>set (task_attempts s'). a_TaskID y = c_id (?u r) \<and> a_AttemptNo y = c_attempts (?u r) \<and>
          a_EndedAt y = None \<and> a_WorkerID y = c_worker_id (?u r)"
        using x \<open>c_worker_id (?u r) = c_worker_id r\<close> by (auto simp: f)
    qed
  qed
  have "\<forall>x \<in> set (tasks s'). row_ok x \<and> attempts_numbered (task_attempts s') x \<and> running_open (task_attempts s') x"
    unfolding t set_updateWhere using rows by blast
  moreover have "a_TaskID ` set (task_attempts s') \<subseteq> c_id ` set (tasks s')"
    using inv fk arg_cong [OF ids, of set] by (simp add: db_inv_def)
  ultimately show ?thesis using inv ids idem unfolding db_inv_def idem_unique_def by simp
qed

lemma updateWhere_False [simp]: "updateWhere (\<lambda>_. False) f rows = rows"
  by (induction rows) auto

text \<open>The same with the attempts left alone.\<close>

lemma db_inv_update_tasks:
  assumes "db_inv s" "tasks s' = updateWhere P f (tasks s)" "task_attempts s' = task_attempts s"
    and "\<And>r. c_id (f r) = c_id r" "\<And>r. c_idempotency_key (f r) = c_idempotency_key r"
      "\<And>r. c_attempts (f r) = c_attempts r"
    and "\<And>r. r \<in> set (tasks s) \<Longrightarrow> P r \<Longrightarrow> row_ok r \<Longrightarrow> row_ok (f r)"
    and "\<And>r. r \<in> set (tasks s) \<Longrightarrow> P r \<Longrightarrow> c_status (f r) = StatusRunning \<Longrightarrow>
      c_status r = StatusRunning \<and> c_worker_id (f r) = c_worker_id r"
  shows "db_inv s'"
  by (rule db_inv_update [OF assms(1,2), where Q = "\<lambda>_. False" and g = "\<lambda>x. x"]) (use assms in auto)

lemma unique_row: "db_inv s \<Longrightarrow> r \<in> set (tasks s) \<Longrightarrow> r' \<in> set (tasks s) \<Longrightarrow> c_id r = c_id r' \<Longrightarrow> r = r'"
  by (auto simp: db_inv_def dest: eq_key_imp_eq_value distinct_map [THEN iffD1] inj_onD)

section \<open>Each operation keeps the invariant\<close>

lemma withTx_inv:
  assumes "db_inv s" "\<And>x s'. fn s = Inr (x, s') \<Longrightarrow> db_inv s'"
  shows "db_inv (snd (withTx c fn s))"
  by (rule withTx_cases [of c fn s]) (use assms in auto)

lemma attempts_numbered_new:
  assumes "db_inv s" "tid \<notin> c_id ` set (tasks s)"
  shows "selectWhere (\<lambda>a. a_TaskID a = tid) (task_attempts s) = []"
  using assms by (auto simp: db_inv_def selectWhere_def filter_empty_conv)

lemma createDefaults_simps [simp]:
  "t_ID (createDefaults n t) = t_ID t" "t_Status (createDefaults n t) = t_Status t"
  "t_Attempts (createDefaults n t) = t_Attempts t" "t_WorkerID (createDefaults n t) = t_WorkerID t"
  "t_LeaseExpiresAt (createDefaults n t) = t_LeaseExpiresAt t" "t_Priority (createDefaults n t) = t_Priority t"
  "t_ExecuteAfter (createDefaults n t) = t_ExecuteAfter t" "t_Type (createDefaults n t) = t_Type t"
  "t_IDempotencyKey (createDefaults n t) = t_IDempotencyKey t" "t_Payload (createDefaults n t) = t_Payload t"
  by (simp_all add: createDefaults_def Let_def)

lemma CreateTask_inv:
  assumes "db_inv s" "new_task_ok t"
  shows "db_inv (snd (CreateTask c t s))"
proof (cases "CreateTask c t s")
  case (Pair r s')
  show ?thesis
  proof (cases r)
    case (Inl e)
    then show ?thesis using Pair assms by (auto simp: CreateTask_def Let_def dest!: withTx_Inl)
  next
    case (Inr t')
    let ?r = "taskArgs (createDefaults (k_gonow c) t)"
    have dup: "\<not> duplicateKey ?r (tasks s)"
      and s': "tasks s' = tasks s @ [?r]" "task_attempts s' = task_attempts s"
      using Pair Inr by (auto simp: CreateTask_def Let_def withTx_Inr split: if_splits)
    have new: "c_id ?r \<notin> c_id ` set (tasks s)" using dup by (auto simp: duplicateKey_def)
    have "c_idempotency_key ?r \<noteq> '''' \<Longrightarrow> c_idempotency_key ?r \<notin> c_idempotency_key ` set (tasks s)"
      using dup by (auto simp: duplicateKey_def)
    then have "idem_unique (tasks s')" using assms(1)
      by (auto simp: s' idem_unique_def db_inv_def)
    moreover have "row_ok ?r" using assms(2) by (auto simp: row_ok_def new_task_ok_def)
    moreover have "attempts_numbered (task_attempts s) ?r" "running_open (task_attempts s) ?r"
      using attempts_numbered_new [OF assms(1) new] assms(2)
      by (auto simp: attempts_numbered_def running_open_def new_task_ok_def)
    ultimately show ?thesis using assms(1) new
      by (auto simp: Pair s' db_inv_def)
  qed
qed

lemma beginRow_simps [simp]:
  "c_id (beginRow w l n r) = c_id r" "c_attempts (beginRow w l n r) = c_attempts r + 1"
  "c_status (beginRow w l n r) = StatusRunning" "c_worker_id (beginRow w l n r) = w"
  "c_lease_expires_at (beginRow w l n r) = Some l" "c_priority (beginRow w l n r) = c_priority r"
  "c_idempotency_key (beginRow w l n r) = c_idempotency_key r" "c_type (beginRow w l n r) = c_type r"
  "c_max_retries (beginRow w l n r) = c_max_retries r"
  by (simp_all add: beginRow_def)

lemma selectWhere_unique:
  assumes "distinct (map key rows)"
  shows "selectWhere (\<lambda>r. key r = k \<and> P r) rows = [] \<or>
    (\<exists>r \<in> set rows. key r = k \<and> P r \<and> selectWhere (\<lambda>r. key r = k \<and> P r) rows = [r])"
  using selectWhere_key [OF assms] by (auto split: option.splits dest: lookupRow_Some)

text \<open>The outcome of leasing, in terms of the row it finds.\<close>

lemma BeginAttempt_ok:
  assumes "db_inv s" "BeginAttempt c tid wid l s = (Inr t, s')"
  obtains r where "r \<in> set (tasks s)" "c_id r = tid" "c_status r = StatusReady"
    "t = scanTask (beginRow wid l (k_dbnow c) r)"
    "tasks s' = updateWhere (\<lambda>r. c_id r = tid \<and> c_status r = StatusReady) (beginRow wid l (k_dbnow c)) (tasks s)"
    "task_attempts s' = task_attempts s @ [newAttempt tid (c_attempts r + 1) wid (k_dbnow c)]"
    "workers s' = workers s" "k_fault c = None"
proof -
  have d: "distinct (map c_id (tasks s))" using assms(1) by (simp add: db_inv_def)
  from assms(2) show thesis
    using selectWhere_unique [OF d, of tid "\<lambda>r. c_status r = StatusReady"]
    by (auto simp: BeginAttempt_def withTx_Inr Let_def intro!: that)
qed

lemma updateWhere_unique:
  assumes "distinct (map key rows)" "r \<in> set rows" "x \<in> set (updateWhere (\<lambda>y. key y = key r \<and> P y) f rows)" "P r"
  shows "x = f r \<or> (x \<in> set rows \<and> key x \<noteq> key r)"
proof -
  have "y = r" if "y \<in> set rows" "key y = key r" for y
    using assms(1,2) that by (auto simp: distinct_map dest: inj_onD)
  then show ?thesis using assms(3,4) by (auto simp: set_updateWhere split: if_splits)
qed

lemma BeginAttempt_inv:
  assumes "db_inv s"
  shows "db_inv (snd (BeginAttempt c tid wid l s))"
proof (cases "BeginAttempt c tid wid l s")
  case (Pair res s')
  show ?thesis
  proof (cases res)
    case (Inl e)
    then show ?thesis using Pair assms by (auto simp: BeginAttempt_def dest!: withTx_Inl)
  next
    case (Inr t)
    with Pair obtain r where r: "r \<in> set (tasks s)" "c_id r = tid" "c_status r = StatusReady"
      and ts: "tasks s' = updateWhere (\<lambda>r. c_id r = tid \<and> c_status r = StatusReady) (beginRow wid l (k_dbnow c)) (tasks s)"
      and as: "task_attempts s' = task_attempts s @ [newAttempt tid (c_attempts r + 1) wid (k_dbnow c)]"
      by (auto elim: BeginAttempt_ok [OF assms])
    have d: "distinct (map c_id (tasks s))" using assms by (simp add: db_inv_def)
    have ids: "map c_id (tasks s') = map c_id (tasks s)"
      and idem: "map c_idempotency_key (tasks s') = map c_idempotency_key (tasks s)"
      unfolding ts by (simp_all add: map_key_updateWhere)
    have old: "row_ok x" "attempts_numbered (task_attempts s) x" "running_open (task_attempts s) x"
      if "x \<in> set (tasks s)" for x using assms that by (auto simp: db_inv_def)
    have "row_ok x \<and> attempts_numbered (task_attempts s') x \<and> running_open (task_attempts s') x"
      if x: "x \<in> set (tasks s')" for x
    proof -
      consider "x = beginRow wid l (k_dbnow c) r" | "x \<in> set (tasks s)" "c_id x \<noteq> tid"
        using updateWhere_unique [OF d r(1), of x "\<lambda>r. c_status r = StatusReady"] x r ts by auto
      then show ?thesis
      proof cases
        case 1
        have "0 \<le> c_attempts r" using old(1) [OF r(1)] by (simp add: row_ok_def)
        then show ?thesis using 1 old(2) [OF r(1)] r
          by (auto simp: row_ok_def attempts_numbered_def running_open_def as newAttempt_def
              selectWhere_def upto_rec2)
      next
        case 2
        then show ?thesis using old [OF 2(1)]
          by (auto simp: attempts_numbered_def running_open_def as newAttempt_def selectWhere_def)
      qed
    qed
    moreover have "a_TaskID ` set (task_attempts s') \<subseteq> c_id ` set (tasks s')"
      using assms r arg_cong [OF ids, of set] by (auto simp: as db_inv_def newAttempt_def)
    ultimately show ?thesis using assms ids idem by (simp add: Pair db_inv_def idem_unique_def)
  qed
qed

lemma RenewLease_inv:
  assumes "db_inv s"
  shows "db_inv (snd (RenewLease c tid wid l s))"
proof (cases "k_fault c")
  case None
  let ?P = "\<lambda>r. c_id r = tid \<and> c_worker_id r = wid \<and> c_status r = StatusRunning"
  have "tasks (snd (RenewLease c tid wid l s)) = updateWhere ?P (\<lambda>r. r\<lparr>c_lease_expires_at := Some l\<rparr>) (tasks s)"
    "task_attempts (snd (RenewLease c tid wid l s)) = task_attempts s"
    by (simp_all add: RenewLease_def poolExec_def Let_def None)
  then show ?thesis by (rule db_inv_update_tasks [OF assms]) (simp_all add: row_ok_def)
qed (simp add: RenewLease_def poolExec_def assms)

lemma CompleteAttempt_ok:
  assumes "CompleteAttempt c inp s = (Inr (t, out), s')"
  obtains r u where "lookupRow c_id (cr_TaskID inp) (tasks s) = Some r"
    "c_status r = StatusRunning" "c_worker_id r = cr_WorkerID inp" "completionUpdate c inp = (out, u)"
    "t = scanTask (updateRow u (k_dbnow c) r)"
    "tasks s' = updateWhere (\<lambda>x. c_id x = cr_TaskID inp) (updateRow u (k_dbnow c)) (tasks s)"
    "task_attempts s' = updateWhere (\<lambda>a. a_TaskID a = cr_TaskID inp \<and> a_AttemptNo a = c_attempts r)
       (endAttempt (if cr_Success inp then AttSucceeded else AttFailed) (cr_Error inp)
          (cr_Category inp) (nullableBytes (cr_Result inp)) (k_dbnow c)) (task_attempts s)"
    "workers s' = workers s" "k_fault c = None"
proof -
  from assms obtain r where r: "lookupRow c_id (cr_TaskID inp) (tasks s) = Some r"
    "c_status r = StatusRunning" "c_worker_id r = cr_WorkerID inp" "k_fault c = None"
    by (cases "lookupRow c_id (cr_TaskID inp) (tasks s)")
      (fastforce simp: CompleteAttempt_def withTx_Inr Let_def split: if_split_asm)+
  have tid: "c_id r = cr_TaskID inp" using lookupRow_Some [OF r(1)] by simp
  obtain out' u where u: "completionUpdate c inp = (out', u)" by fastforce
  have "out' = out \<and> t = scanTask (updateRow u (k_dbnow c) r) \<and>
    tasks s' = updateWhere (\<lambda>x. c_id x = cr_TaskID inp) (updateRow u (k_dbnow c)) (tasks s) \<and>
    task_attempts s' = updateWhere (\<lambda>a. a_TaskID a = cr_TaskID inp \<and> a_AttemptNo a = c_attempts r)
       (endAttempt (if cr_Success inp then AttSucceeded else AttFailed) (cr_Error inp)
          (cr_Category inp) (nullableBytes (cr_Result inp)) (k_dbnow c)) (task_attempts s) \<and>
    workers s' = workers s"
    using assms r tid by (auto simp: CompleteAttempt_def withTx_Inr Let_def u lookupRow_updateWhere)
  with r u show thesis using that by blast
qed

lemma completionUpdate_cases:
  assumes "completionUpdate c inp = (out, u)"
  obtains "cr_Success inp" "out = OutcomeSucceeded"
      "u = noUpdate\<lparr>u_status := Some StatusSucceeded, u_finishedAt := Some (k_gonow c), u_clearLease := True\<rparr>"
    | "\<not> cr_Success inp" "IsZero (cr_RetryAfter inp)" "out = OutcomeDead"
      "u = noUpdate\<lparr>u_status := Some StatusDead, u_finishedAt := Some (k_gonow c),
         u_lastError := Some (cr_Error inp), u_errorCategory := Some (cr_Category inp), u_clearLease := True\<rparr>"
    | "\<not> cr_Success inp" "\<not> IsZero (cr_RetryAfter inp)" "out = OutcomeRetrying"
      "u = noUpdate\<lparr>u_status := Some StatusPending, u_executeAfter := Some (cr_RetryAfter inp),
         u_lastError := Some (cr_Error inp), u_errorCategory := Some (cr_Category inp), u_clearLease := True\<rparr>"
  using assms by (auto simp: completionUpdate_def split: if_splits)

lemma endAttempt_simps [simp]:
  "a_TaskID (endAttempt st e cat res n a) = a_TaskID a"
  "a_AttemptNo (endAttempt st e cat res n a) = a_AttemptNo a"
  by (simp_all add: endAttempt_def)

lemma CompleteAttempt_inv:
  assumes "db_inv s"
  shows "db_inv (snd (CompleteAttempt c inp s))"
proof (cases "CompleteAttempt c inp s")
  case (Pair res s')
  show ?thesis
  proof (cases res)
    case (Inl e)
    then show ?thesis using Pair assms by (auto simp: CompleteAttempt_def dest!: withTx_Inl)
  next
    case (Inr to)
    obtain t out where "to = (t, out)" by fastforce
    with Pair Inr have "CompleteAttempt c inp s = (Inr (t, out), s')" by simp
    then show ?thesis
    proof (cases rule: CompleteAttempt_ok)
      case (1 r u)
      have u: "row_ok x \<Longrightarrow> row_ok (updateRow u n x)" "c_status (updateRow u n x) \<noteq> StatusRunning" for n x
        by (rule completionUpdate_cases [OF 1(4)]; simp add: row_ok_def noUpdate_def)+
      show ?thesis unfolding Pair snd_conv
        by (rule db_inv_update [OF assms 1(6,7)]) (auto simp: u simp del: updateRow_simps(4,5))
    qed
  qed
qed

lemma Preempt_inv:
  assumes "db_inv s"
  shows "db_inv (snd (Preempt c tid w s))"
proof (cases "Preempt c tid w s")
  case (Pair res s')
  show ?thesis
  proof (cases res)
    case (Inl e)
    then show ?thesis using Pair assms by (auto simp: Preempt_def dest!: withTx_Inl)
  next
    case (Inr t)
    let ?P = "\<lambda>r. c_id r = tid \<and> c_status r = StatusRunning" and ?Q = "\<lambda>a. a_TaskID a = tid \<and> a_EndedAt a = None"
    let ?g = "\<lambda>a. a\<lparr>a_EndedAt := Some (k_dbnow c), a_Status := AttInterrupted,
      a_Error := ''preempted by critical task'', a_ErrCategory := ''preempted''\<rparr>"
    from Pair Inr have s': "tasks s' = updateWhere ?P (freeRow (k_dbnow c)) (tasks s)"
      "task_attempts s' = updateWhere ?Q ?g (task_attempts s)" and sel: "selectWhere ?P (tasks s) \<noteq> []"
      by (auto simp: Preempt_def withTx_Inr Let_def split: list.splits)
    obtain r where r: "r \<in> set (tasks s)" "?P r" using sel by (auto simp: selectWhere_def filter_empty_conv)
    show ?thesis unfolding Pair snd_conv
      by (rule db_inv_update [OF assms s']) (use unique_row [OF assms r(1)] r(2) in \<open>auto simp: row_ok_def\<close>)
  qed
qed

lemma victims_ids: "(t_ID \<circ> rc_Task) ` set (victims now s) =
  c_id ` {r \<in> set (tasks s). c_status r = StatusRunning \<and> (leaseExpired now r \<or> workerLost (workers s) (c_worker_id r))}"
  by (force simp: victims_def set_selectWhere)

lemma ReclaimExpired_ok:
  "ReclaimExpired acc c now s = (Inr vs, s') \<longleftrightarrow> k_fault c = None \<and>
     acc (selectItems (prefixedColumns ''t'')) \<and> vs = victims now s \<and> s' = fold (reclaimOne c) vs s"
  by (auto simp: ReclaimExpired_def withTx_Inr Let_def split: if_splits)

lemma ReclaimExpired_inv:
  assumes "db_inv s"
  shows "db_inv (snd (ReclaimExpired acc c now s))"
proof (cases "ReclaimExpired acc c now s")
  case (Pair res s')
  show ?thesis
  proof (cases res)
    case (Inl e)
    then show ?thesis using Pair assms by (auto simp: ReclaimExpired_def dest!: withTx_Inl)
  next
    case (Inr vs)
    with Pair have "vs = victims now s" "s' = fold (reclaimOne c) vs s" by (simp_all add: ReclaimExpired_ok)
    then have s': "tasks s' = updateWhere (\<lambda>r. c_id r \<in> (t_ID \<circ> rc_Task) ` set (victims now s)) (freeRow (k_dbnow c)) (tasks s)"
      "task_attempts s' = updateWhere (\<lambda>a. a_TaskID a \<in> (t_ID \<circ> rc_Task) ` set (victims now s)) (timeoutAttempt (k_dbnow c)) (task_attempts s)"
      by (simp_all only: fold_reclaimOne)
    have run: "c_status r = StatusRunning"
      if r: "r \<in> set (tasks s)" "c_id r \<in> (t_ID \<circ> rc_Task) ` set (victims now s)" for r
    proof -
      obtain x where x: "x \<in> set (tasks s)" "c_status x = StatusRunning" "c_id r = c_id x"
        using r(2) unfolding victims_ids by auto
      then show ?thesis using unique_row [OF assms r(1) x(1)] by simp
    qed
    have "row_ok (freeRow (k_dbnow c) r)"
      if "r \<in> set (tasks s)" "c_id r \<in> (t_ID \<circ> rc_Task) ` set (victims now s)" "row_ok r" for r
      using run [OF that(1,2)] that(3) by (simp add: row_ok_def)
    then show ?thesis unfolding Pair snd_conv by (intro db_inv_update [OF assms s']) auto
  qed
qed

lemma readyRow_simps [simp]:
  "c_id (readyRow n r) = c_id r" "c_attempts (readyRow n r) = c_attempts r" "c_status (readyRow n r) = StatusReady"
  "c_idempotency_key (readyRow n r) = c_idempotency_key r" "c_worker_id (readyRow n r) = c_worker_id r"
  "c_lease_expires_at (readyRow n r) = c_lease_expires_at r" "c_finished_at (readyRow n r) = c_finished_at r"
  "c_priority (readyRow n r) = c_priority r"
  by (simp_all add: readyRow_def)

lemma row_ok_readyRow: "row_ok r \<Longrightarrow> c_status r = StatusPending \<Longrightarrow> row_ok (readyRow n r)"
  by (simp add: row_ok_def)

lemma set_dueOrder [simp]: "set (dueOrder rows) = set rows"
  by (auto simp: dueOrder_def)

lemma PromotePending_inv:
  assumes "db_inv s"
  shows "db_inv (snd (PromotePending c now lim s))"
proof -
  have p: "c_status r = StatusPending"
    if r: "r \<in> set (tasks s)" "c_id r \<in> c_id ` set (take lim (dueOrder (selectWhere (dueRow now) (tasks s))))" for r
  proof -
    obtain x where "x \<in> set (tasks s)" "c_status x = StatusPending" "c_id r = c_id x"
      using r(2) by (auto dest!: in_set_takeD simp: set_selectWhere dueRow_def)
    then show ?thesis using unique_row [OF assms r(1)] by metis
  qed
  let ?P = "\<lambda>r. c_id r \<in> c_id ` set (take lim (dueOrder (selectWhere (dueRow now) (tasks s))))"
  show ?thesis unfolding PromotePending_def Let_def
  proof (rule withTx_inv [OF assms])
    fix x s'
    assume "Inr (map (scanTask \<circ> readyRow (k_dbnow c))
        (selectWhere (\<lambda>r. c_id r \<in> set (map c_id (take lim (dueOrder (selectWhere (dueRow now) (tasks s)))))) (tasks s)),
        s\<lparr>tasks := updateWhere (\<lambda>r. c_id r \<in> set (map c_id (take lim (dueOrder (selectWhere (dueRow now) (tasks s))))))
          (readyRow (k_dbnow c)) (tasks s)\<rparr>) = Inr (x, s')"
    then have "tasks s' = updateWhere ?P (readyRow (k_dbnow c)) (tasks s)" "task_attempts s' = task_attempts s"
      by auto
    then show "db_inv s'" by (rule db_inv_update_tasks [OF assms]) (simp_all add: p row_ok_readyRow)
  qed
qed

text \<open>The shape the remaining operations share: one guarded update, then audit entries.\<close>

lemma withTx_update_inv:
  assumes "db_inv s"
    and "\<And>x s'. fn s = Inr (x, s') \<Longrightarrow> tasks s' = updateWhere P f (tasks s) \<and> task_attempts s' = task_attempts s"
    and "\<And>r. c_id (f r) = c_id r \<and> c_idempotency_key (f r) = c_idempotency_key r \<and> c_attempts (f r) = c_attempts r"
    and "\<And>r. P r \<Longrightarrow> row_ok r \<Longrightarrow> row_ok (f r)"
    and "\<And>r. P r \<Longrightarrow> c_status (f r) = StatusRunning \<Longrightarrow>
      c_status r = StatusRunning \<and> c_worker_id (f r) = c_worker_id r"
  shows "db_inv (snd (withTx c fn s))"
proof (rule withTx_inv [OF assms(1)])
  fix x s'
  assume "fn s = Inr (x, s')"
  with assms(2) have "tasks s' = updateWhere P f (tasks s)" "task_attempts s' = task_attempts s" by auto
  then show "db_inv s'" by (rule db_inv_update_tasks [OF assms(1)]) (simp_all add: assms(3-5))
qed

lemma MarkReadyByIDs_inv:
  assumes "db_inv s"
  shows "db_inv (snd (MarkReadyByIDs c ids now s))"
proof (cases "ids = []")
  case False
  then show ?thesis unfolding MarkReadyByIDs_def if_not_P [OF False]
    by (intro withTx_update_inv [OF assms, where P = "\<lambda>r. c_id r \<in> set ids \<and> dueRow now r" and f = "readyRow (k_dbnow c)"])
      (auto simp: Let_def row_ok_readyRow dueRow_def)
qed (simp add: MarkReadyByIDs_def assms)

lemma requeueRow_simps [simp]:
  "c_id (requeueRow n r) = c_id r" "c_attempts (requeueRow n r) = c_attempts r" "c_status (requeueRow n r) = StatusReady"
  "c_idempotency_key (requeueRow n r) = c_idempotency_key r" "c_worker_id (requeueRow n r) = ''''"
  "c_lease_expires_at (requeueRow n r) = None" "c_execute_after (requeueRow n r) = None"
  "c_finished_at (requeueRow n r) = c_finished_at r"
  by (simp_all add: requeueRow_def)

lemma RequeueReady_inv:
  assumes "db_inv s"
  shows "db_inv (snd (RequeueReady c ids s))"
proof (cases "ids = []")
  case False
  then show ?thesis unfolding RequeueReady_def if_not_P [OF False]
    by (intro withTx_update_inv [OF assms, where f = "requeueRow (k_dbnow c)" and
          P = "\<lambda>r. c_id r \<in> set ids \<and> c_status r \<noteq> StatusReady \<and> c_status r \<notin> {StatusSucceeded, StatusCanceled}"])
      (auto simp: row_ok_def)
qed (simp add: RequeueReady_def assms)

lemma db_inv_cong: "tasks s' = tasks s \<Longrightarrow> task_attempts s' = task_attempts s \<Longrightarrow> db_inv s' = db_inv s"
  by (simp add: db_inv_def)

lemma Audit_simps [simp]:
  "tasks (snd (Audit c a b d e f g h s)) = tasks s"
  "task_attempts (snd (Audit c a b d e f g h s)) = task_attempts s"
  "workers (snd (Audit c a b d e f g h s)) = workers s"
  by (simp_all add: Audit_def poolExec_def split: option.splits)

text \<open>The tables after a recovery: unchanged, or every running row freed.\<close>

lemma RecoverInflight_tables:
  "task_attempts (snd (RecoverInflight c late ca s)) = task_attempts s"
  "tasks (snd (RecoverInflight c late ca s)) =
     (if k_fault c = None \<and> late = None
      then updateWhere (\<lambda>r. c_status r = StatusRunning) (freeRow (k_dbnow c)) (tasks s) else tasks s)"
  by (auto simp: RecoverInflight_def Let_def split: option.splits)

lemma RecoverInflight_inv: "db_inv s \<Longrightarrow> db_inv (snd (RecoverInflight c late ca s))"
proof (cases "k_fault c = None \<and> late = None")
  case True
  assume inv: "db_inv s"
  have "tasks (snd (RecoverInflight c late ca s)) = updateWhere (\<lambda>r. c_status r = StatusRunning) (freeRow (k_dbnow c)) (tasks s)"
    "task_attempts (snd (RecoverInflight c late ca s)) = task_attempts s"
    using True by (simp_all add: RecoverInflight_tables)
  then show ?thesis by (rule db_inv_update_tasks [OF inv]) (simp_all add: row_ok_def)
next
  case False
  then have "tasks (snd (RecoverInflight c late ca s)) = tasks s" by (auto simp: RecoverInflight_tables)
  then show "db_inv s \<Longrightarrow> ?thesis" using db_inv_cong [OF _ RecoverInflight_tables(1)] by blast
qed

lemma retryDeadRow_simps [simp]:
  "c_id (retryDeadRow n r) = c_id r" "c_attempts (retryDeadRow n r) = c_attempts r" "c_status (retryDeadRow n r) = StatusReady"
  "c_idempotency_key (retryDeadRow n r) = c_idempotency_key r" "c_worker_id (retryDeadRow n r) = c_worker_id r"
  "c_lease_expires_at (retryDeadRow n r) = c_lease_expires_at r" "c_execute_after (retryDeadRow n r) = None"
  "c_finished_at (retryDeadRow n r) = None"
  by (simp_all add: retryDeadRow_def)

lemma RetryDead_inv:
  assumes "db_inv s"
  shows "db_inv (snd (RetryDead b c ids s))"
  unfolding RetryDead_def
  by (rule withTx_update_inv [OF assms, where P = "\<lambda>r. c_id r \<in> set ids \<and> c_status r = StatusDead"
        and f = "retryDeadRow (k_dbnow c)"])
    (auto simp: Let_def row_ok_def split: if_splits)

lemma DiscardDead_inv:
  assumes "db_inv s"
  shows "db_inv (snd (DiscardDead c ids s))"
  unfolding DiscardDead_def
  by (rule withTx_update_inv [OF assms, where P = "\<lambda>r. c_id r \<in> set ids \<and> c_status r = StatusDead"
        and f = "\<lambda>r. r\<lparr>c_status := StatusCanceled, c_updated_at := k_dbnow c\<rparr>"])
    (auto simp: Let_def row_ok_def)

lemma CancelTask_inv:
  assumes "db_inv s"
  shows "db_inv (snd (CancelTask c tid s))"
  unfolding CancelTask_def
  by (rule withTx_update_inv [OF assms, where P = "\<lambda>r. c_id r = tid" and f = "cancelRow (k_dbnow c)"])
    (auto simp: cancelRow_def row_ok_def split: option.splits if_splits)

lemma LinkDAGNode_inv:
  assumes "db_inv s"
  shows "db_inv (snd (LinkDAGNode c tid d n s))"
  unfolding LinkDAGNode_def
  by (rule withTx_update_inv [OF assms, where P = "\<lambda>r. c_id r = tid" and f = "\<lambda>r. r\<lparr>c_dag_id := d, c_dag_node_id := n\<rparr>"])
    (auto simp: row_ok_def)

lemmas op_invs = CreateTask_inv BeginAttempt_inv RenewLease_inv CompleteAttempt_inv Preempt_inv
  ReclaimExpired_inv PromotePending_inv MarkReadyByIDs_inv RequeueReady_inv RecoverInflight_inv
  RetryDead_inv DiscardDead_inv CancelTask_inv LinkDAGNode_inv

lemma applyOp_inv: "db_inv s \<Longrightarrow> op_ok op \<Longrightarrow> db_inv (applyOp op s)"
  by (cases op) (simp_all add: op_invs op_ok_def)

end
