(* ===== verification/Store_Life.thy ===== *)
theory Store_Life
  imports Store_Inv
begin

text \<open>
  The life of a task row under the operations of the store: which transitions a row can take,
  what an operation that reports an error leaves behind, and the lease discipline over whole
  sequences of operations. \<open>runOps\<close> runs a sequence, \<open>leaseOf\<close> is the lease an operation grants.
\<close>

section \<open>Transitions of a row\<close>

text \<open>
  The transitions a row can take in one operation. Only a lease counts an attempt.
\<close>

inductive lifecycle :: "TaskRow \<Rightarrow> TaskRow \<Rightarrow> bool" where
  stay: "c_status r' = c_status r \<Longrightarrow> c_attempts r' = c_attempts r \<Longrightarrow> c_worker_id r' = c_worker_id r \<Longrightarrow> lifecycle r r'"
| promote: "c_status r = StatusPending \<Longrightarrow> c_status r' = StatusReady \<Longrightarrow> c_attempts r' = c_attempts r \<Longrightarrow> lifecycle r r'"
| lease: "c_status r = StatusReady \<Longrightarrow> c_status r' = StatusRunning \<Longrightarrow> c_attempts r' = c_attempts r + 1 \<Longrightarrow> lifecycle r r'"
| finish: "c_status r = StatusRunning \<Longrightarrow> c_status r' \<in> {StatusSucceeded, StatusDead, StatusPending} \<Longrightarrow>
    c_attempts r' = c_attempts r \<Longrightarrow> lifecycle r r'"
| giveBack: "c_status r = StatusRunning \<Longrightarrow> c_status r' = StatusReady \<Longrightarrow> c_attempts r' = c_attempts r \<Longrightarrow> lifecycle r r'"
| revive: "c_status r = StatusDead \<Longrightarrow> c_status r' \<in> {StatusReady, StatusCanceled} \<Longrightarrow> c_attempts r' = c_attempts r \<Longrightarrow> lifecycle r r'"
| cancel: "c_status r \<in> {StatusPending, StatusReady, StatusRunning} \<Longrightarrow> c_status r' = StatusCanceled \<Longrightarrow>
    c_attempts r' = c_attempts r \<Longrightarrow> lifecycle r r'"

lemmas lifecycle_intros = lifecycle.intros

inductive_simps lifecycle_iff: "lifecycle r r'"

lemma lifecycle_final:
  "lifecycle r r' \<Longrightarrow> c_status r \<in> {StatusSucceeded, StatusCanceled} \<Longrightarrow> c_status r' = c_status r"
  by (auto simp: lifecycle_iff)

lemma lifecycle_attempts: "lifecycle r r' \<Longrightarrow> c_attempts r \<le> c_attempts r'"
  by (auto simp: lifecycle_iff)

text \<open>How one operation changes the task table: every old row is kept, in its place.\<close>

definition rows_live :: "db \<Rightarrow> db \<Rightarrow> bool" where
  "rows_live s s' \<longleftrightarrow> (\<exists>new. (\<forall>r \<in> set (tasks s). c_id r \<notin> c_id ` set new) \<and>
     (\<exists>u. tasks s' = map u (tasks s) @ new \<and> (\<forall>r \<in> set (tasks s). c_id (u r) = c_id r \<and> lifecycle r (u r))))"

lemma rows_liveI:
  assumes "tasks s' = updateWhere P f (tasks s)" "\<And>r. c_id (f r) = c_id r"
    "\<And>r. r \<in> set (tasks s) \<Longrightarrow> P r \<Longrightarrow> lifecycle r (f r)"
  shows "rows_live s s'"
  unfolding rows_live_def
  by (rule exI [of _ "[]"], simp, rule exI [of _ "\<lambda>r. if P r then f r else r"])
    (auto simp: assms updateWhere_def lifecycle.stay)

lemma rows_live_refl: "tasks s' = tasks s \<Longrightarrow> rows_live s s'"
  by (rule rows_liveI [where P = "\<lambda>_. False" and f = "\<lambda>r. r"]) auto

lemma withTx_live:
  assumes "\<And>x s'. fn s = Inr (x, s') \<Longrightarrow> tasks s' = updateWhere P f (tasks s)"
    "\<And>r. c_id (f r) = c_id r" "\<And>r. r \<in> set (tasks s) \<Longrightarrow> P r \<Longrightarrow> lifecycle r (f r)"
  shows "rows_live s (snd (withTx c fn s))"
proof (rule withTx_cases [of c fn s])
  fix x s'
  assume "withTx c fn s = (Inr x, s')" "fn s = Inr (x, s')"
  then show ?thesis using rows_liveI [OF assms(1-3)] by simp
qed (simp add: rows_live_refl)

lemma rows_live_lookup:
  assumes "rows_live s s'" "lookupRow c_id tid (tasks s) = Some r"
  shows "\<exists>r'. lookupRow c_id tid (tasks s') = Some r' \<and> lifecycle r r'"
proof -
  from assms(1) obtain new u where t: "tasks s' = map u (tasks s) @ new"
    and u: "\<forall>r \<in> set (tasks s). c_id (u r) = c_id r \<and> lifecycle r (u r)" by (auto simp: rows_live_def)
  have "\<forall>r \<in> set rs. c_id (u r) = c_id r \<Longrightarrow>
      lookupRow c_id tid (map u rs) = map_option u (lookupRow c_id tid rs)" for rs
    by (induction rs) auto
  then have "lookupRow c_id tid (tasks s') = Some (u r)" using u assms(2)
    by (simp add: t lookupRow_append)
  then show ?thesis using u lookupRow_Some [OF assms(2)] by blast
qed

subsection \<open>Operation by operation\<close>

lemma CreateTask_live: "rows_live s (snd (CreateTask c t s))"
proof (rule withTx_cases [of c "\<lambda>s. if duplicateKey (taskArgs (createDefaults (k_gonow c) t)) (tasks s) then Inl ErrConflict
        else Inr (createDefaults (k_gonow c) t, writeAudit ''task'' (t_ID (createDefaults (k_gonow c) t)) ''created'' ''''
             (statusStr (t_Status (createDefaults (k_gonow c) t))) (t_Type (createDefaults (k_gonow c) t))
             (''priority='' @ t_Priority (createDefaults (k_gonow c) t) @ '' type='' @ t_Type (createDefaults (k_gonow c) t))
             (s\<lparr>tasks := tasks s @ [taskArgs (createDefaults (k_gonow c) t)]\<rparr>))" s], goal_cases)
  case (1 e)
  then show ?case by (simp add: CreateTask_def Let_def rows_live_refl)
next
  case (2 x s')
  then have "tasks s' = tasks s @ [taskArgs (createDefaults (k_gonow c) t)]"
    "\<forall>r \<in> set (tasks s). c_id r \<noteq> t_ID t" by (auto simp: duplicateKey_def split: if_splits)
  then have "rows_live s s'" unfolding rows_live_def
    by (intro exI [of _ "[taskArgs (createDefaults (k_gonow c) t)]"] conjI exI [of _ "\<lambda>r. r"]) (auto simp: lifecycle.stay)
  then show ?case using 2 by (simp add: CreateTask_def Let_def)
qed

lemma BeginAttempt_live: "rows_live s (snd (BeginAttempt c tid w l s))"
  unfolding BeginAttempt_def
  by (rule withTx_live [where P = "\<lambda>r. c_id r = tid \<and> c_status r = StatusReady" and f = "beginRow w l (k_dbnow c)"])
    (auto simp: Let_def lifecycle.lease split: list.splits)

lemma RenewLease_live: "rows_live s (snd (RenewLease c tid w l s))"
proof (cases "k_fault c")
  case None
  then have "tasks (snd (RenewLease c tid w l s)) =
      updateWhere (\<lambda>r. c_id r = tid \<and> c_worker_id r = w \<and> c_status r = StatusRunning)
        (\<lambda>r. r\<lparr>c_lease_expires_at := Some l\<rparr>) (tasks s)"
    by (simp add: RenewLease_def poolExec_def Let_def)
  then show ?thesis by (rule rows_liveI) (simp_all add: lifecycle.stay)
qed (simp add: RenewLease_def poolExec_def rows_live_refl)

lemma CompleteAttempt_live:
  assumes "db_inv s"
  shows "rows_live s (snd (CompleteAttempt c inp s))"
proof (cases "CompleteAttempt c inp s")
  case (Pair res s')
  show ?thesis
  proof (cases res)
    case (Inl e)
    then have "s' = s" using Pair by (auto simp: CompleteAttempt_def dest!: withTx_Inl)
    then show ?thesis using Pair by (simp add: rows_live_refl)
  next
    case (Inr to)
    obtain t out where "to = (t, out)" by fastforce
    with Pair Inr have "CompleteAttempt c inp s = (Inr (t, out), s')" by simp
    then show ?thesis
    proof (cases rule: CompleteAttempt_ok)
      case (1 r u)
      have run: "c_status x = StatusRunning" if "x \<in> set (tasks s)" "c_id x = cr_TaskID inp" for x
        using unique_row [OF assms that(1)] lookupRow_Some [OF 1(1)] 1(2) that(2) by metis
      have st: "c_status (updateRow u n x) \<in> {StatusSucceeded, StatusDead, StatusPending}" for n x
        by (rule completionUpdate_cases [OF 1(4)]; simp add: noUpdate_def)
      show ?thesis unfolding Pair snd_conv
        by (rule rows_liveI [OF 1(6)]) (simp, rule lifecycle.finish [OF run st], auto)
    qed
  qed
qed

lemma Preempt_live: "rows_live s (snd (Preempt c tid w s))"
  unfolding Preempt_def
  by (rule withTx_live [where P = "\<lambda>r. c_id r = tid \<and> c_status r = StatusRunning" and f = "freeRow (k_dbnow c)"])
    (auto simp: Let_def lifecycle.giveBack split: list.splits)

lemma victims_running:
  assumes "db_inv s" "r \<in> set (tasks s)" "c_id r \<in> (t_ID \<circ> rc_Task) ` set (victims now s)"
  shows "c_status r = StatusRunning"
proof -
  obtain x where x: "x \<in> set (tasks s)" "c_status x = StatusRunning" "c_id r = c_id x"
    using assms(3) unfolding victims_ids by auto
  then show ?thesis using unique_row [OF assms(1,2) x(1)] by simp
qed

lemma ReclaimExpired_live:
  assumes "db_inv s"
  shows "rows_live s (snd (ReclaimExpired acc c now s))"
  unfolding ReclaimExpired_def
proof (rule withTx_live [where f = "freeRow (k_dbnow c)" and
        P = "\<lambda>r. c_id r \<in> (t_ID \<circ> rc_Task) ` set (victims now s)"], goal_cases)
  case (3 r)
  then show ?case using victims_running [OF assms 3] by (simp add: lifecycle.giveBack)
qed (auto simp: Let_def fold_reclaimOne(1) split: if_splits)

lemma PromotePending_live:
  assumes "db_inv s"
  shows "rows_live s (snd (PromotePending c now lim s))"
  unfolding PromotePending_def
proof (rule withTx_live [where f = "readyRow (k_dbnow c)" and
        P = "\<lambda>r. c_id r \<in> c_id ` set (take lim (dueOrder (selectWhere (dueRow now) (tasks s))))"], goal_cases)
  case (3 r)
  then obtain x where "x \<in> set (tasks s)" "c_status x = StatusPending" "c_id r = c_id x"
    by (auto dest!: in_set_takeD simp: set_selectWhere dueRow_def)
  then have "c_status r = StatusPending" using unique_row [OF assms 3(1)] by metis
  then show ?case by (simp add: lifecycle.promote)
qed (auto simp: Let_def)

lemma MarkReadyByIDs_live: "rows_live s (snd (MarkReadyByIDs c ids now s))"
proof (cases "ids = []")
  case False
  show ?thesis unfolding MarkReadyByIDs_def if_not_P [OF False]
    by (rule withTx_live [where P = "\<lambda>r. c_id r \<in> set ids \<and> dueRow now r" and f = "readyRow (k_dbnow c)"])
      (auto simp: Let_def dueRow_def lifecycle.promote)
qed (simp add: MarkReadyByIDs_def rows_live_refl)

lemma RequeueReady_live:
  assumes "db_inv s"
  shows "rows_live s (snd (RequeueReady c ids s))"
proof (cases "ids = []")
  case False
  have st: "c_status r \<in> {StatusPending, StatusReady, StatusRunning, StatusDead, StatusSucceeded, StatusCanceled}"
    if "r \<in> set (tasks s)" for r
    using assms that by (cases "c_status r") (auto simp: db_inv_def row_ok_def)
  show ?thesis unfolding RequeueReady_def if_not_P [OF False]
    by (rule withTx_live [where f = "requeueRow (k_dbnow c)" and
          P = "\<lambda>r. c_id r \<in> set ids \<and> c_status r \<noteq> StatusReady \<and> c_status r \<notin> {StatusSucceeded, StatusCanceled}"])
      (auto simp: lifecycle_iff dest: st)
qed (simp add: RequeueReady_def rows_live_refl)

lemma RecoverInflight_live: "rows_live s (snd (RecoverInflight c late ca s))"
proof (cases "k_fault c = None \<and> late = None")
  case True
  then have "tasks (snd (RecoverInflight c late ca s)) =
      updateWhere (\<lambda>r. c_status r = StatusRunning) (freeRow (k_dbnow c)) (tasks s)"
    by (simp add: RecoverInflight_tables)
  then show ?thesis by (rule rows_liveI) (simp_all add: lifecycle.giveBack)
next
  case False
  then show ?thesis by (intro rows_live_refl) (auto simp: RecoverInflight_tables)
qed

lemma RetryDead_live: "rows_live s (snd (RetryDead b c ids s))"
  unfolding RetryDead_def
  by (rule withTx_live [where P = "\<lambda>r. c_id r \<in> set ids \<and> c_status r = StatusDead" and f = "retryDeadRow (k_dbnow c)"])
    (auto simp: Let_def lifecycle.revive split: if_splits)

lemma DiscardDead_live: "rows_live s (snd (DiscardDead c ids s))"
  unfolding DiscardDead_def
  by (rule withTx_live [where P = "\<lambda>r. c_id r \<in> set ids \<and> c_status r = StatusDead"
        and f = "\<lambda>r. r\<lparr>c_status := StatusCanceled, c_updated_at := k_dbnow c\<rparr>"])
    (auto simp: Let_def lifecycle.revive)

lemma CancelTask_live:
  assumes "db_inv s"
  shows "rows_live s (snd (CancelTask c tid s))"
proof (cases "lookupRow c_id tid (tasks s)")
  case None
  then show ?thesis by (simp add: CancelTask_def withTx_def rows_live_refl split: option.splits)
next
  case (Some r)
  note r = lookupRow_Some [OF Some]
  show ?thesis
  proof (cases "TerminalStatuses (c_status r)")
    case True
    then show ?thesis using Some by (simp add: CancelTask_def withTx_def rows_live_refl split: option.splits)
  next
    case False
    have "c_status x \<in> {StatusPending, StatusReady, StatusRunning}" if "x \<in> set (tasks s)" "c_id x = tid" for x
    proof -
      have "x = r" using unique_row [OF assms that(1)] r that(2) by metis
      then show ?thesis using False assms r
        by (cases "c_status r") (auto simp: TerminalStatuses_def db_inv_def row_ok_def)
    qed
    then show ?thesis unfolding CancelTask_def
      by (intro withTx_live [where P = "\<lambda>r. c_id r = tid" and f = "cancelRow (k_dbnow c)"])
        (auto simp: Some False cancelRow_def lifecycle_iff)
  qed
qed

lemma LinkDAGNode_live: "rows_live s (snd (LinkDAGNode c tid d n s))"
  unfolding LinkDAGNode_def
  by (rule withTx_live [where P = "\<lambda>r. c_id r = tid" and f = "\<lambda>r. r\<lparr>c_dag_id := d, c_dag_node_id := n\<rparr>"])
    (auto simp: lifecycle.stay)

lemmas op_lives = CreateTask_live BeginAttempt_live RenewLease_live CompleteAttempt_live Preempt_live
  ReclaimExpired_live PromotePending_live MarkReadyByIDs_live RequeueReady_live RecoverInflight_live
  RetryDead_live DiscardDead_live CancelTask_live LinkDAGNode_live

lemma applyOp_live: "db_inv s \<Longrightarrow> rows_live s (applyOp op s)"
  by (cases op) (simp_all add: op_lives)

section \<open>Errors\<close>

text \<open>The error an operation reports, if any.\<close>

fun resErr :: "'a res \<Rightarrow> err option" where
  "resErr (Inl e) = Some e"
| "resErr (Inr x) = None"

fun opErr :: "StoreOp \<Rightarrow> db \<Rightarrow> err option" where
  "opErr (OpCreate c t) s = resErr (fst (CreateTask c t s))"
| "opErr (OpBegin c i w l) s = resErr (fst (BeginAttempt c i w l s))"
| "opErr (OpRenew c i w l) s = resErr (fst (RenewLease c i w l s))"
| "opErr (OpComplete c r) s = resErr (fst (CompleteAttempt c r s))"
| "opErr (OpPreempt c i w) s = resErr (fst (Preempt c i w s))"
| "opErr (OpReclaim a c n) s = resErr (fst (ReclaimExpired a c n s))"
| "opErr (OpPromote c n l) s = resErr (fst (PromotePending c n l s))"
| "opErr (OpMarkReady c is n) s = resErr (fst (MarkReadyByIDs c is n s))"
| "opErr (OpRequeue c is) s = resErr (fst (RequeueReady c is s))"
| "opErr (OpRecover c l ca) s = resErr (fst (RecoverInflight c l ca s))"
| "opErr (OpRetryDead b c is) s = resErr (fst (RetryDead b c is s))"
| "opErr (OpDiscard c is) s = resErr (fst (DiscardDead c is s))"
| "opErr (OpCancel c i) s = resErr (fst (CancelTask c i s))"
| "opErr (OpLink c i d n) s = resErr (fst (LinkDAGNode c i d n s))"

lemma resErr_Some: "resErr x = Some e \<longleftrightarrow> x = Inl e"
  by (cases x) auto

lemma withTx_atomic: "resErr (fst (withTx c fn s)) = Some e \<Longrightarrow> snd (withTx c fn s) = s"
  using withTx_Inl [of c fn s e "snd (withTx c fn s)"] by (simp add: resErr_Some prod_eq_iff)

lemma poolExec_atomic: "resErr (fst (poolExec c fn s)) = Some e \<Longrightarrow> snd (poolExec c fn s) = s"
  using poolExec_Inl [of c fn s e "snd (poolExec c fn s)"] by (simp add: resErr_Some prod_eq_iff)

lemma tx_op_atomic:
  "resErr (fst (CreateTask c t s)) = Some e \<Longrightarrow> snd (CreateTask c t s) = s"
  "resErr (fst (BeginAttempt c i w l s)) = Some e \<Longrightarrow> snd (BeginAttempt c i w l s) = s"
  "resErr (fst (CompleteAttempt c r s)) = Some e \<Longrightarrow> snd (CompleteAttempt c r s) = s"
  "resErr (fst (Preempt c i w s)) = Some e \<Longrightarrow> snd (Preempt c i w s) = s"
  "resErr (fst (ReclaimExpired a c n s)) = Some e \<Longrightarrow> snd (ReclaimExpired a c n s) = s"
  "resErr (fst (PromotePending c n k s)) = Some e \<Longrightarrow> snd (PromotePending c n k s) = s"
  "resErr (fst (MarkReadyByIDs c ids n s)) = Some e \<Longrightarrow> snd (MarkReadyByIDs c ids n s) = s"
  "resErr (fst (RequeueReady c ids s)) = Some e \<Longrightarrow> snd (RequeueReady c ids s) = s"
  "resErr (fst (RetryDead b c ids s)) = Some e \<Longrightarrow> snd (RetryDead b c ids s) = s"
  "resErr (fst (DiscardDead c ids s)) = Some e \<Longrightarrow> snd (DiscardDead c ids s) = s"
  "resErr (fst (CancelTask c i s)) = Some e \<Longrightarrow> snd (CancelTask c i s) = s"
  "resErr (fst (LinkDAGNode c i d m s)) = Some e \<Longrightarrow> snd (LinkDAGNode c i d m s) = s"
  unfolding CreateTask_def BeginAttempt_def CompleteAttempt_def Preempt_def ReclaimExpired_def PromotePending_def MarkReadyByIDs_def RequeueReady_def RetryDead_def DiscardDead_def CancelTask_def LinkDAGNode_def Let_def
  by (erule withTx_atomic | (simp split: if_split_asm, erule withTx_atomic))+

lemma applyOp_atomic:
  assumes "opErr op s = Some e"
  shows "tasks (applyOp op s) = tasks s \<and> task_attempts (applyOp op s) = task_attempts s \<and>
    (\<not> (\<exists>c l ca. op = OpRecover c l ca) \<longrightarrow> applyOp op s = s)"
proof (cases op)
  case (OpRecover c l ca)
  then show ?thesis using assms
    by (auto simp: RecoverInflight_tables RecoverInflight_def Let_def split: option.splits if_splits)
next
  case (OpRenew c i w l)
  then show ?thesis using assms poolExec_atomic by (fastforce simp: RenewLease_def)
qed (use assms tx_op_atomic in auto)

section \<open>Sequences of operations\<close>

definition runOps :: "StoreOp list \<Rightarrow> db \<Rightarrow> db" where
  "runOps ops s = fold applyOp ops s"

lemma runOps_simps [simp]: "runOps [] s = s" "runOps (op # ops) s = runOps ops (applyOp op s)"
  by (simp_all add: runOps_def)

lemma runOps_inv: "db_inv s \<Longrightarrow> list_all op_ok ops \<Longrightarrow> db_inv (runOps ops s)"
  by (induction ops arbitrary: s) (auto simp: applyOp_inv)

text \<open>The lease an operation grants: the task, the attempt number, the worker.\<close>

definition leaseOf :: "StoreOp \<Rightarrow> db \<Rightarrow> (string \<times> int \<times> string) list" where
  "leaseOf op s =
     (case op of OpBegin c i w l \<Rightarrow>
        (case fst (BeginAttempt c i w l s) of Inr t \<Rightarrow> [(t_ID t, t_Attempts t, w)] | Inl e \<Rightarrow> [])
      | _ \<Rightarrow> [])"

lemma leaseOf_attempt:
  assumes "db_inv s" "(i, n, w) \<in> set (leaseOf op s)"
  shows "\<exists>r r'. lookupRow c_id i (tasks s) = Some r \<and> c_status r = StatusReady \<and> n = c_attempts r + 1 \<and>
    lookupRow c_id i (tasks (applyOp op s)) = Some r' \<and> c_attempts r' = n \<and>
    c_status r' = StatusRunning \<and> c_worker_id r' = w"
proof -
  from assms(2) obtain c l j t where op: "op = OpBegin c j w l" "fst (BeginAttempt c j w l s) = Inr t"
    and t: "i = t_ID t" "n = t_Attempts t"
    by (cases op) (auto simp: leaseOf_def split: sum.split_asm dest: sym)
  then have b: "BeginAttempt c j w l s = (Inr t, snd (BeginAttempt c j w l s))" by (simp add: prod_eq_iff)
  have d: "distinct (map c_id (tasks s))" using assms(1) by (simp add: db_inv_def)
  show ?thesis
  proof (rule BeginAttempt_ok [OF assms(1) b], goal_cases)
    case (1 r)
    have "lookupRow c_id j (tasks s) = Some r" using lookupRow_unique [OF d 1(1)] 1(2) by simp
    then show ?case using 1 op t by (simp add: lookupRow_updateWhere)
  qed
qed

lemma lookup_attempts_mono:
  assumes "db_inv s" "list_all op_ok ops" "lookupRow c_id i (tasks s) = Some r"
  shows "\<exists>r'. lookupRow c_id i (tasks (runOps ops s)) = Some r' \<and> c_attempts r \<le> c_attempts r' \<and>
    (c_status r \<in> {StatusSucceeded, StatusCanceled} \<longrightarrow> c_status r' = c_status r)"
  using assms
proof (induction ops arbitrary: s r)
  case Nil
  then show ?case by simp
next
  case (Cons op ops)
  obtain r1 where r1: "lookupRow c_id i (tasks (applyOp op s)) = Some r1" "lifecycle r r1"
    using rows_live_lookup [OF applyOp_live [OF Cons.prems(1)] Cons.prems(3)] by blast
  have "db_inv (applyOp op s)" using Cons.prems by (simp add: applyOp_inv)
  then obtain r' where "lookupRow c_id i (tasks (runOps ops (applyOp op s))) = Some r'" "c_attempts r1 \<le> c_attempts r'"
    "c_status r1 \<in> {StatusSucceeded, StatusCanceled} \<longrightarrow> c_status r' = c_status r1"
    using Cons.IH [OF _ _ r1(1)] Cons.prems(2) by auto
  then show ?case using lifecycle_attempts [OF r1(2)] lifecycle_final [OF r1(2)]
    by (intro exI [of _ r']) auto
qed

text \<open>As long as a task runs with the attempt number of a grant, it runs under the worker of that grant.\<close>

definition underLease :: "int \<Rightarrow> string \<Rightarrow> TaskRow \<Rightarrow> bool" where
  "underLease n w r \<longleftrightarrow> n \<le> c_attempts r \<and> (c_status r = StatusRunning \<and> c_attempts r = n \<longrightarrow> c_worker_id r = w)"

lemma underLease_step: "lifecycle r r' \<Longrightarrow> underLease n w r \<Longrightarrow> underLease n w r'"
  by (auto simp: underLease_def lifecycle_iff)

lemma underLease_kept:
  assumes "db_inv s" "list_all op_ok ops" "lookupRow c_id i (tasks s) = Some r" "underLease n w r"
  shows "\<exists>r'. lookupRow c_id i (tasks (runOps ops s)) = Some r' \<and> underLease n w r'"
  using assms
proof (induction ops arbitrary: s r)
  case (Cons op ops)
  obtain r1 where r1: "lookupRow c_id i (tasks (applyOp op s)) = Some r1" "lifecycle r r1"
    using rows_live_lookup [OF applyOp_live [OF Cons.prems(1)] Cons.prems(3)] by blast
  show ?case using Cons.IH [OF _ _ r1(1) underLease_step [OF r1(2) Cons.prems(4)]] Cons.prems by (simp add: applyOp_inv)
qed simp

text \<open>While a task runs, nobody is granted it, and nobody but its worker can end the attempt.\<close>

lemma running_refuses:
  assumes "db_inv s" "lookupRow c_id i (tasks s) = Some r" "c_status r = StatusRunning"
  shows "\<exists>e. BeginAttempt c i w l s = (Inl e, s)"
    "cr_TaskID inp = i \<Longrightarrow> cr_WorkerID inp \<noteq> c_worker_id r \<Longrightarrow> \<exists>e. CompleteAttempt c inp s = (Inl e, s)"
proof -
  have "distinct (map c_id (tasks s))" using assms(1) by (simp add: db_inv_def)
  then have "selectWhere (\<lambda>r. c_id r = i \<and> c_status r = StatusReady) (tasks s) = []"
    using assms(2,3) by (simp add: selectWhere_key)
  then show "\<exists>e. BeginAttempt c i w l s = (Inl e, s)" by (auto simp: BeginAttempt_def withTx_def split: option.splits)
  show "\<exists>e. CompleteAttempt c inp s = (Inl e, s)" if "cr_TaskID inp = i" "cr_WorkerID inp \<noteq> c_worker_id r"
    using assms(2,3) that by (auto simp: CompleteAttempt_def withTx_def split: option.splits)
qed

section \<open>Sample data\<close>

definition sampleTask :: "string \<Rightarrow> Task" where
  "sampleTask i = \<lparr>t_ID = i, t_IDempotencyKey = '''', t_Type = ''email'', t_Payload = ''{}'',
     t_Priority = ''normal'', t_Status = StatusReady, t_MaxRetries = 2, t_Attempts = 0, t_TimeoutSeconds = 60,
     t_RetryPolicy = \<lparr>rp_Kind = ''fixed'', rp_BaseInterval = 5, rp_MaxRetries = 2, rp_CronExpression = ''''\<rparr>,
     t_CallbackURL = '''', t_ExecuteAfter = None, t_WorkerID = '''', t_LeaseExpiresAt = None, t_DAGID = '''',
     t_DAGNodeID = '''', t_LastError = '''', t_ErrCategory = '''', t_CreatedAt = 1, t_UpdatedAt = 1,
     t_StartedAt = None, t_FinishedAt = None\<rparr>"

definition sampleCall :: call where
  "sampleCall = \<lparr>k_fault = None, k_dbnow = 10, k_gonow = 11\<rparr>"

definition sampleDb :: db where
  "sampleDb = emptyDb\<lparr>tasks := [taskArgs (sampleTask ''a'')]\<rparr>"

lemma sampleDb_inv: "db_inv sampleDb"
  by (simp add: db_inv_def sampleDb_def emptyDb_def sampleTask_def idem_unique_def row_ok_def
      attempts_numbered_def running_open_def)

definition sampleResult :: CompleteResult where
  "sampleResult = \<lparr>cr_TaskID = ''a'', cr_WorkerID = ''w'', cr_Success = True, cr_Result = ''ok'', cr_Error = '''',
     cr_Category = '''', cr_RetryAfter = zeroTime\<rparr>"

definition sampleOps :: "StoreOp list" where
  "sampleOps = [OpBegin sampleCall ''a'' ''w'' 90, OpBegin sampleCall ''a'' ''v'' 90,
     OpComplete sampleCall sampleResult, OpCancel sampleCall ''a'']"

lemma sampleOps_ok: "list_all op_ok sampleOps"
  by (simp add: sampleOps_def op_ok_def)

section \<open>Properties\<close>

text \<open>
  C3: every sequence of store operations keeps the store well formed: task ids and
  idempotency keys unique, a lease and a worker exactly as the status allows, attempts
  numbered without gaps, a running task with an open attempt of its worker, and no attempt
  without its task. The one obligation is on the tasks handed to \<open>CreateTask\<close>.
\<close>

theorem store_invariant: "db_inv s \<Longrightarrow> list_all op_ok ops \<Longrightarrow> db_inv (runOps ops s)"
  by (rule runOps_inv)

theorem store_invariant_witness:
  "db_inv (runOps sampleOps sampleDb) \<and> map c_status (tasks (runOps sampleOps sampleDb)) = [StatusSucceeded]"
proof
  show "db_inv (runOps sampleOps sampleDb)" by (rule store_invariant [OF sampleDb_inv sampleOps_ok])
  show "map c_status (tasks (runOps sampleOps sampleDb)) = [StatusSucceeded]" by code_simp
qed

text \<open>
  A task row is never lost, and in one operation it takes one step of the lifecycle:
  waiting to ready, ready to running with one more attempt, running to succeeded, dead,
  waiting or back to ready, dead to ready or canceled, unfinished to canceled, or none.
\<close>

lemma store_lifecycle:
  assumes "db_inv s" "lookupRow c_id tid (tasks s) = Some r"
  shows "\<exists>r'. lookupRow c_id tid (tasks (applyOp op s)) = Some r' \<and> lifecycle r r'"
  using rows_live_lookup [OF applyOp_live [OF assms(1)] assms(2)] .

lemma store_lifecycle_witness:
  "\<exists>r'. lookupRow c_id ''a'' (tasks (applyOp (OpBegin sampleCall ''a'' ''w'' 90) sampleDb)) = Some r' \<and>
     lifecycle (taskArgs (sampleTask ''a'')) r'"
proof -
  have "lookupRow c_id ''a'' (tasks sampleDb) = Some (taskArgs (sampleTask ''a''))"
    by (simp add: sampleDb_def sampleTask_def)
  then show ?thesis using store_lifecycle [OF sampleDb_inv] by blast
qed

text \<open>
  Succeeded and canceled are final: whatever operations follow, the row keeps that
  status.
\<close>

lemma finished_is_final:
  assumes "db_inv s" "list_all op_ok ops" "lookupRow c_id tid (tasks s) = Some r"
    "c_status r \<in> {StatusSucceeded, StatusCanceled}"
  shows "\<exists>r'. lookupRow c_id tid (tasks (runOps ops s)) = Some r' \<and> c_status r' = c_status r"
  using lookup_attempts_mono [OF assms(1-3)] assms(4) by blast

lemma finished_is_final_witness:
  "\<exists>r'. lookupRow c_id ''a'' (tasks (runOps sampleOps (runOps [OpCancel sampleCall ''a''] sampleDb))) = Some r' \<and>
     c_status r' = StatusCanceled"
proof -
  have "db_inv (runOps [OpCancel sampleCall ''a''] sampleDb)"
    by (rule runOps_inv [OF sampleDb_inv]) (simp add: op_ok_def)
  moreover have "lookupRow c_id ''a'' (tasks (runOps [OpCancel sampleCall ''a''] sampleDb)) =
      Some (cancelRow 10 (taskArgs (sampleTask ''a'')))"
    by (simp add: CancelTask_def withTx_def sampleDb_def sampleTask_def sampleCall_def TerminalStatuses_def cancelRow_def)
  moreover have "c_status (cancelRow 10 (taskArgs (sampleTask ''a''))) = StatusCanceled"
    by (simp add: cancelRow_def)
  ultimately show ?thesis using finished_is_final [OF _ sampleOps_ok] by fastforce
qed

text \<open>
  C4: leases are exclusive. A task is granted only when it is ready, so when nobody holds it.
  Whatever operations follow the grant: as long as the task still runs with the attempt
  number granted, it runs under the worker it was granted to, every other attempt to lease it is
  refused, and no other worker can complete it, with nothing changed; and when the task is
  granted again, the lease before has ended (the task is ready) and the attempt number is higher.
\<close>

theorem leases_exclusive:
  assumes "db_inv s" "op_ok op" "list_all op_ok ops" "(i, n, w) \<in> set (leaseOf op s)"
  defines "s' \<equiv> runOps ops (applyOp op s)"
  shows "\<exists>r0 r. lookupRow c_id i (tasks s) = Some r0 \<and> c_status r0 = StatusReady \<and> lookupRow c_id i (tasks s') = Some r \<and>
    (c_status r = StatusRunning \<and> c_attempts r = n \<longrightarrow>
       c_worker_id r = w \<and>
       (\<forall>c w' l. \<exists>e. BeginAttempt c i w' l s' = (Inl e, s')) \<and>
       (\<forall>c inp. cr_TaskID inp = i \<and> cr_WorkerID inp \<noteq> w \<longrightarrow> (\<exists>e. CompleteAttempt c inp s' = (Inl e, s')))) \<and>
    (\<forall>op' n' w'. (i, n', w') \<in> set (leaseOf op' s') \<longrightarrow> n < n' \<and> c_status r = StatusReady)"
proof -
  obtain r0 r1 where r0: "lookupRow c_id i (tasks s) = Some r0" "c_status r0 = StatusReady"
    and r1: "lookupRow c_id i (tasks (applyOp op s)) = Some r1" "c_attempts r1 = n" "c_worker_id r1 = w"
    using leaseOf_attempt [OF assms(1,4)] by blast
  have inv1: "db_inv (applyOp op s)" using applyOp_inv assms(1,2) by blast
  then have inv: "db_inv s'" unfolding s'_def by (rule runOps_inv [OF _ assms(3)])
  obtain r where r: "lookupRow c_id i (tasks s') = Some r" "underLease n w r"
    using underLease_kept [OF inv1 assms(3) r1(1), of n w] r1(2,3) unfolding s'_def underLease_def by blast
  have again: "n < n' \<and> c_status r = StatusReady" if "(i, n', w') \<in> set (leaseOf op' s')" for op' n' w'
    using leaseOf_attempt [OF inv that] r by (auto simp: underLease_def)
  show ?thesis
    using r0 r(1) again running_refuses [OF inv r(1)] r(2) unfolding underLease_def
    by (intro exI [of _ r0] exI [of _ r] conjI impI allI) auto
qed

theorem leases_exclusive_witness:
  "(''a'', 1, ''w'') \<in> set (leaseOf (OpBegin sampleCall ''a'' ''w'' 90) sampleDb) \<and>
   (\<exists>e. BeginAttempt sampleCall ''a'' ''v'' 99 (applyOp (OpBegin sampleCall ''a'' ''w'' 90) sampleDb) =
      (Inl e, applyOp (OpBegin sampleCall ''a'' ''w'' 90) sampleDb))"
proof -
  let ?op = "OpBegin sampleCall ''a'' ''w'' 90"
  have g: "(''a'', 1, ''w'') \<in> set (leaseOf ?op sampleDb)" by code_simp
  have "tasks (applyOp ?op sampleDb) = [beginRow ''w'' 90 10 (taskArgs (sampleTask ''a''))]" by code_simp
  then have "lookupRow c_id ''a'' (tasks (runOps [] (applyOp ?op sampleDb))) = Some (beginRow ''w'' 90 10 (taskArgs (sampleTask ''a'')))"
    by (simp add: sampleTask_def beginRow_def)
  then show ?thesis using leases_exclusive [OF sampleDb_inv _ _ g, of "[]"] g
    by (auto simp: op_ok_def beginRow_def sampleTask_def)
qed

text \<open>
  An operation that reports an error has changed neither tasks nor attempts, and, but for
  the startup recovery, which writes its audit entry on a connection of its own, nothing at
  all.
\<close>

lemma failed_op_is_atomic:
  assumes "opErr op s = Some e"
  shows "tasks (applyOp op s) = tasks s \<and> task_attempts (applyOp op s) = task_attempts s \<and>
    (\<not> (\<exists>c l ca. op = OpRecover c l ca) \<longrightarrow> applyOp op s = s)"
  using assms by (rule applyOp_atomic)

lemma failed_op_is_atomic_witness:
  "opErr (OpBegin sampleCall ''b'' ''w'' 90) sampleDb = Some ErrConflict \<and>
   tasks (applyOp (OpBegin sampleCall ''b'' ''w'' 90) sampleDb) = tasks sampleDb"
proof -
  have "opErr (OpBegin sampleCall ''b'' ''w'' 90) sampleDb = Some ErrConflict" by code_simp
  then show ?thesis using failed_op_is_atomic by blast
qed

text \<open>
  C6: leasing is a compare-and-swap. \<open>BeginAttempt\<close> succeeds exactly when no fault strikes
  and the task is ready; then the row runs under the worker with the given lease and one more
  attempt, and a new open attempt carries that number; otherwise nothing changes.
\<close>

theorem BeginAttempt_correct:
  assumes "db_inv s" "lookupRow c_id tid (tasks s) = Some r"
  shows "if k_fault c = None \<and> c_status r = StatusReady
    then \<exists>s'. BeginAttempt c tid w l s = (Inr (scanTask (beginRow w l (k_dbnow c) r)), s') \<and>
      lookupRow c_id tid (tasks s') = Some (beginRow w l (k_dbnow c) r) \<and>
      task_attempts s' = task_attempts s @ [newAttempt tid (c_attempts r + 1) w (k_dbnow c)]
    else \<exists>e. BeginAttempt c tid w l s = (Inl e, s) \<and> (k_fault c = None \<longrightarrow> e = ErrConflict)"
proof -
  have d: "distinct (map c_id (tasks s))" using assms(1) by (simp add: db_inv_def)
  have "selectWhere (\<lambda>r. c_id r = tid \<and> c_status r = StatusReady) (tasks s) =
      (if c_status r = StatusReady then [r] else [])"
    using selectWhere_key [OF d, of tid "\<lambda>r. c_status r = StatusReady"] assms(2) by simp
  then show ?thesis using assms(2) lookupRow_Some [OF assms(2)]
    by (auto simp: BeginAttempt_def withTx_def Let_def lookupRow_updateWhere split: option.splits)
qed

theorem BeginAttempt_correct_witness:
  "\<exists>s'. BeginAttempt sampleCall ''a'' ''w'' 90 sampleDb = (Inr (scanTask (beginRow ''w'' 90 10 (taskArgs (sampleTask ''a'')))), s')"
proof -
  have "lookupRow c_id ''a'' (tasks sampleDb) = Some (taskArgs (sampleTask ''a''))"
    by (simp add: sampleDb_def sampleTask_def)
  moreover have "k_fault sampleCall = None \<and> c_status (taskArgs (sampleTask ''a'')) = StatusReady" "k_dbnow sampleCall = 10"
    by (simp_all add: sampleCall_def sampleTask_def)
  ultimately show ?thesis using BeginAttempt_correct [OF sampleDb_inv, of "''a''" "taskArgs (sampleTask ''a'')" sampleCall "''w''" 90]
    by auto
qed

text \<open>
  C5: a completion report is accepted only from the worker that runs the task, and then moves
  it to succeeded, to dead (no retry time) or back to waiting until the retry time, gives up
  the lease, and closes the current attempt.
\<close>

theorem CompleteAttempt_correct:
  assumes "lookupRow c_id (cr_TaskID inp) (tasks s) = Some r" "k_fault c = None"
  shows "if c_status r = StatusRunning \<and> c_worker_id r = cr_WorkerID inp
    then \<exists>t out s' r'. CompleteAttempt c inp s = (Inr (t, out), s') \<and> t = scanTask r' \<and>
      lookupRow c_id (cr_TaskID inp) (tasks s') = Some r' \<and> c_worker_id r' = '''' \<and> c_lease_expires_at r' = None \<and>
      c_attempts r' = c_attempts r \<and>
      (if cr_Success inp then out = OutcomeSucceeded \<and> c_status r' = StatusSucceeded
       else c_last_error r' = cr_Error inp \<and> c_error_category r' = cr_Category inp \<and>
         (if IsZero (cr_RetryAfter inp) then out = OutcomeDead \<and> c_status r' = StatusDead
          else out = OutcomeRetrying \<and> c_status r' = StatusPending \<and> c_execute_after r' = Some (cr_RetryAfter inp))) \<and>
      (\<forall>a \<in> set (task_attempts s'). a_TaskID a = cr_TaskID inp \<and> a_AttemptNo a = c_attempts r \<longrightarrow>
         a_EndedAt a = Some (k_dbnow c) \<and> a_Status a = (if cr_Success inp then AttSucceeded else AttFailed))
    else CompleteAttempt c inp s = (Inl ErrConflict, s)"
proof (cases "c_status r = StatusRunning \<and> c_worker_id r = cr_WorkerID inp")
  case False
  then show ?thesis using assms by (auto simp: CompleteAttempt_def withTx_def)
next
  case True
  obtain out u where u: "completionUpdate c inp = (out, u)" by fastforce
  have tid: "c_id r = cr_TaskID inp" using lookupRow_Some [OF assms(1)] by simp
  have "\<exists>t s'. CompleteAttempt c inp s = (Inr (t, out), s')"
    using assms True tid by (simp add: CompleteAttempt_def withTx_def Let_def u lookupRow_updateWhere)
  then obtain t s' where ok: "CompleteAttempt c inp s = (Inr (t, out), s')" by blast
  have s': "t = scanTask (updateRow u (k_dbnow c) r)"
      "lookupRow c_id (cr_TaskID inp) (tasks s') = Some (updateRow u (k_dbnow c) r)"
      "task_attempts s' = updateWhere (\<lambda>a. a_TaskID a = cr_TaskID inp \<and> a_AttemptNo a = c_attempts r)
         (endAttempt (if cr_Success inp then AttSucceeded else AttFailed) (cr_Error inp)
           (cr_Category inp) (nullableBytes (cr_Result inp)) (k_dbnow c)) (task_attempts s)"
    by (rule CompleteAttempt_ok [OF ok]; use assms(1) u tid in \<open>simp add: lookupRow_updateWhere\<close>)+
  have att: "\<forall>a \<in> set (task_attempts s'). a_TaskID a = cr_TaskID inp \<and> a_AttemptNo a = c_attempts r \<longrightarrow>
      a_EndedAt a = Some (k_dbnow c) \<and> a_Status a = (if cr_Success inp then AttSucceeded else AttFailed)"
    unfolding s'(3) by (auto simp: set_updateWhere endAttempt_def)
  have "if cr_Success inp then out = OutcomeSucceeded \<and> c_status (updateRow u n r) = StatusSucceeded
       else c_last_error (updateRow u n r) = cr_Error inp \<and> c_error_category (updateRow u n r) = cr_Category inp \<and>
         (if IsZero (cr_RetryAfter inp) then out = OutcomeDead \<and> c_status (updateRow u n r) = StatusDead
          else out = OutcomeRetrying \<and> c_status (updateRow u n r) = StatusPending \<and>
            c_execute_after (updateRow u n r) = Some (cr_RetryAfter inp))"
    and "c_worker_id (updateRow u n r) = '''' \<and> c_lease_expires_at (updateRow u n r) = None" for n
    by (rule completionUpdate_cases [OF u]; simp add: noUpdate_def)+
  then show ?thesis using True ok s'(1,2) att updateRow_simps(2) by (simp only: simp_thms if_True) blast
qed

theorem CompleteAttempt_correct_witness:
  "\<exists>t s'. CompleteAttempt sampleCall sampleResult (runOps [OpBegin sampleCall ''a'' ''w'' 90] sampleDb) =
     (Inr (t, OutcomeSucceeded), s')"
proof -
  let ?s = "runOps [OpBegin sampleCall ''a'' ''w'' 90] sampleDb"
  have "lookupRow c_id (cr_TaskID sampleResult) (tasks ?s) = Some (beginRow ''w'' 90 10 (taskArgs (sampleTask ''a'')))"
    by code_simp
  moreover have "k_fault sampleCall = None" and r: "cr_Success sampleResult" "cr_WorkerID sampleResult = ''w''"
    by (simp_all add: sampleCall_def sampleResult_def)
  ultimately show ?thesis
    using CompleteAttempt_correct [of sampleResult ?s "beginRow ''w'' 90 10 (taskArgs (sampleTask ''a''))" sampleCall]
    by (simp only: beginRow_simps r simp_thms if_True) blast
qed

end
