(* ===== verification/Store_Workers.thy ===== *)
theory Store_Workers
  imports Store_Life
begin

text \<open>
  The worker and DAG side of the store, \<open>workers.go\<close> and \<open>dags.go\<close>. The two queries on
  workers send a text built from \<open>workerColumns\<close>; whether the server parses a text is a
  parameter, \<open>accepts\<close>.
\<close>

section \<open>Registering workers and heartbeats\<close>

definition upsertDefaults :: "time \<Rightarrow> Worker \<Rightarrow> Worker" where
  "upsertDefaults now w =
     (let w1 = (if IsZero (w_CreatedAt w) then w\<lparr>w_CreatedAt := now\<rparr> else w)
      in if IsZero (w_LastHeartbeat w1) then w1\<lparr>w_LastHeartbeat := now\<rparr> else w1)"

text \<open>The \<open>DO UPDATE\<close> of the insert: the old row, then the row that was to be inserted.\<close>

definition conflictUpdate :: "Worker \<Rightarrow> Worker \<Rightarrow> Worker" where
  "conflictUpdate w old =
     old\<lparr>w_Name := w_Name w, w_Capabilities := w_Capabilities w, w_TotalSlots := w_TotalSlots w,
         w_Status := (if w_Status old = Offline then Online else w_Status w),
         w_LastHeartbeat := max (w_LastHeartbeat old) (w_LastHeartbeat w)\<rparr>"

definition UpsertWorker :: "call \<Rightarrow> Worker \<Rightarrow> db \<Rightarrow> unit res \<times> db" where
  "UpsertWorker c w =
     (let w' = upsertDefaults (k_gonow c) w in
      withTx c (\<lambda>s.
        Inr ((), if lookupRow w_ID (w_ID w') (workers s) = None
                 then s\<lparr>workers := workers s @ [w']\<rparr>
                 else s\<lparr>workers := updateWhere (\<lambda>x. w_ID x = w_ID w') (conflictUpdate w') (workers s)\<rparr>)))"

text \<open>The first call is the update, the second the upsert that follows when no row matched.\<close>

definition Heartbeat :: "call \<Rightarrow> call \<Rightarrow> Worker \<Rightarrow> db \<Rightarrow> unit res \<times> db" where
  "Heartbeat c c' w s =
     (let w' = w\<lparr>w_LastHeartbeat := k_gonow c\<rparr>;
          P = (\<lambda>x. w_ID x = w_ID w')
      in case poolExec c (\<lambda>s. (length (selectWhere P (workers s)),
                 s\<lparr>workers := updateWhere P (\<lambda>x. x\<lparr>w_LastHeartbeat := w_LastHeartbeat w', w_UsedSlots := w_UsedSlots w',
                      w_CurrentTaskIDs := w_CurrentTaskIDs w', w_Status := Online\<rparr>) (workers s)\<rparr>)) s of
           (Inl e, s1) \<Rightarrow> (Inl e, s1)
         | (Inr n, s1) \<Rightarrow> if n = 0 then UpsertWorker c' w' s1 else (Inr (), s1))"

definition MarkWorkerDraining :: "call \<Rightarrow> string \<Rightarrow> db \<Rightarrow> unit res \<times> db" where
  "MarkWorkerDraining c wid =
     poolExec c (\<lambda>s. ((), s\<lparr>workers := updateWhere (\<lambda>w. w_ID w = wid) (\<lambda>w. w\<lparr>w_Status := Draining\<rparr>) (workers s)\<rparr>))"

definition MarkWorkersOffline :: "call \<Rightarrow> time \<Rightarrow> db \<Rightarrow> string list res \<times> db" where
  "MarkWorkersOffline c cutoff =
     (let P = (\<lambda>w. w_Status w \<noteq> Offline \<and> w_LastHeartbeat w < cutoff) in
      poolExec c (\<lambda>s. (map w_ID (selectWhere P (workers s)),
        s\<lparr>workers := updateWhere P (\<lambda>w. w\<lparr>w_Status := Offline\<rparr>) (workers s)\<rparr>)))"

definition DeleteWorker :: "call \<Rightarrow> string \<Rightarrow> db \<Rightarrow> unit res \<times> db" where
  "DeleteWorker c wid =
     poolExec c (\<lambda>s. ((), s\<lparr>workers := selectWhere (\<lambda>w. w_ID w \<noteq> wid) (workers s)\<rparr>))"

definition IncWorkerStats :: "call \<Rightarrow> string \<Rightarrow> bool \<Rightarrow> bool \<Rightarrow> db \<Rightarrow> unit res \<times> db" where
  "IncWorkerStats c wid completed failed =
     poolExec c (\<lambda>s. ((), s\<lparr>workers := updateWhere (\<lambda>w. w_ID w = wid)
       (\<lambda>w. w\<lparr>w_Completed := w_Completed w + (if completed then 1 else 0),
              w_Failed := w_Failed w + (if failed then 1 else 0)\<rparr>) (workers s)\<rparr>))"

section \<open>Querying workers\<close>

definition workerColumns :: string where
  "workerColumns = ''id, name, capabilities, total_slots, used_slots,'' @ newlineTab @
     ''status, last_heartbeat, current_tasks, completed_count, failed_count, created_at''"

definition getWorkerSQL :: string where
  "getWorkerSQL = workerColumns @ '' FROM workers WHERE id=$1''"

definition listWorkersSQL :: string where
  "listWorkersSQL = workerColumns @ '' FROM workers ORDER BY status, last_heartbeat DESC''"

definition GetWorker :: "(string \<Rightarrow> bool) \<Rightarrow> call \<Rightarrow> string \<Rightarrow> db \<Rightarrow> Worker res" where
  "GetWorker accepts c wid s =
     (case k_fault c of
        Some e \<Rightarrow> Inl e
      | None \<Rightarrow>
          if \<not> accepts getWorkerSQL then Inl (DriverErr ''syntax error'')
          else (case lookupRow w_ID wid (workers s) of None \<Rightarrow> Inl ErrNoRows | Some w \<Rightarrow> Inr w))"

definition ListWorkers :: "(string \<Rightarrow> bool) \<Rightarrow> call \<Rightarrow> db \<Rightarrow> Worker list res" where
  "ListWorkers accepts c s =
     (case k_fault c of
        Some e \<Rightarrow> Inl e
      | None \<Rightarrow>
          if \<not> accepts listWorkersSQL then Inl (DriverErr ''syntax error'')
          else Inr (sort_key w_Status (sort_key (\<lambda>w. - w_LastHeartbeat w) (workers s))))"

section \<open>DAGs\<close>

fun dagStatusStr :: "DAGStatus \<Rightarrow> string" where
  "dagStatusStr DAGPending = ''pending''"
| "dagStatusStr DAGRunning = ''running''"
| "dagStatusStr DAGSucceeded = ''succeeded''"
| "dagStatusStr DAGFailed = ''failed''"

fun nodeStateStr :: "DAGNodeState \<Rightarrow> string" where
  "nodeStateStr NodeWaiting = ''waiting''"
| "nodeStateStr NodeReady = ''ready''"
| "nodeStateStr NodeRunning = ''running''"
| "nodeStateStr NodeSucceeded = ''succeeded''"
| "nodeStateStr NodeFailed = ''failed''"
| "nodeStateStr NodeSkipped = ''skipped''"

definition newNode :: "string \<Rightarrow> time \<Rightarrow> DAGNodeDef \<Rightarrow> DAGNode" where
  "newNode dagID now n =
     \<lparr>n_DAGID = dagID, n_NodeID = nd_ID n, n_TaskID = '''', n_State = NodeWaiting,
      n_Dependencies = nd_Dependencies n, n_Attempts = 0, n_UpdatedAt = now\<rparr>"

text \<open>The primary keys: the DAG id, and the pair of DAG id and node id.\<close>

definition CreateDAG :: "call \<Rightarrow> DAG \<Rightarrow> db \<Rightarrow> unit res \<times> db" where
  "CreateDAG c d =
     withTx c (\<lambda>s.
       let new = map (newNode (d_ID d) (k_dbnow c)) (dd_Nodes (d_Def d)) in
       if d_ID d \<in> d_ID ` set (dags s) then Inl (DriverErr ''duplicate key'')
       else if \<not> distinct (map n_NodeID new) \<or> (\<exists>n \<in> set (dag_nodes s). n_DAGID n = d_ID d \<and> n_NodeID n \<in> n_NodeID ` set new)
       then Inl (DriverErr ''duplicate key'')
       else Inr ((), writeAudit ''dag'' (d_ID d) ''created'' '''' (dagStatusStr (d_Status d)) ''api''
              (''nodes='' @ showNat (length (dd_Nodes (d_Def d))) @ '' policy='' @ d_FailurePolicy d)
              (s\<lparr>dags := dags s @ [d\<lparr>d_FinishedAt := None\<rparr>], dag_nodes := dag_nodes s @ new\<rparr>)))"

definition GetDAG :: "call \<Rightarrow> string \<Rightarrow> db \<Rightarrow> DAG option res" where
  "GetDAG c did = poolQuery c (\<lambda>s. lookupRow d_ID did (dags s))"

definition ListDAGs :: "call \<Rightarrow> int \<Rightarrow> db \<Rightarrow> DAG list res" where
  "ListDAGs c limit = poolQuery c (\<lambda>s.
     take (nat (if limit \<le> 0 \<or> limit > 200 then 50 else limit)) (sort_key (\<lambda>d. - d_CreatedAt d) (dags s)))"

definition ListDAGNodes :: "call \<Rightarrow> string \<Rightarrow> db \<Rightarrow> DAGNode list res" where
  "ListDAGNodes c dagID = poolQuery c (\<lambda>s.
     sort_key n_NodeID (selectWhere (\<lambda>n. n_DAGID n = dagID) (dag_nodes s)))"

record DAGNodeUpdate =
  du_NodeID :: string
  du_State :: DAGNodeState
  du_TaskID :: string
  du_Bump :: bool

definition updateNode :: "time \<Rightarrow> DAGNodeUpdate \<Rightarrow> DAGNode \<Rightarrow> DAGNode" where
  "updateNode now u n =
     (if du_Bump u \<and> du_TaskID u \<noteq> '''' then
        n\<lparr>n_State := du_State u, n_TaskID := du_TaskID u, n_Attempts := n_Attempts n + 1, n_UpdatedAt := now\<rparr>
      else if du_Bump u then n\<lparr>n_State := du_State u, n_Attempts := n_Attempts n + 1, n_UpdatedAt := now\<rparr>
      else if du_TaskID u \<noteq> '''' then n\<lparr>n_State := du_State u, n_TaskID := du_TaskID u, n_UpdatedAt := now\<rparr>
      else n\<lparr>n_State := du_State u, n_UpdatedAt := now\<rparr>)"

definition applyNodeUpdate :: "time \<Rightarrow> string \<Rightarrow> DAGNodeUpdate \<Rightarrow> db \<Rightarrow> db" where
  "applyNodeUpdate now dagID u s =
     writeAudit ''dag_node'' (dagID @ '':'' @ du_NodeID u) ''node_state'' '''' (nodeStateStr (du_State u)) ''engine'' ''''
       (s\<lparr>dag_nodes := updateWhere (\<lambda>n. n_DAGID n = dagID \<and> n_NodeID n = du_NodeID u) (updateNode now u) (dag_nodes s)\<rparr>)"

text \<open>The aggregate status: \<open>None\<close> is the empty string, which leaves the DAG alone.\<close>

definition applyAggregate :: "time \<Rightarrow> string \<Rightarrow> DAGStatus option \<Rightarrow> db \<Rightarrow> db" where
  "applyAggregate now dagID agg s =
     (case agg of
        None \<Rightarrow> s
      | Some st \<Rightarrow>
          writeAudit ''dag'' dagID ''dag_state'' '''' (dagStatusStr st) ''engine'' ''''
            (s\<lparr>dags := updateWhere (\<lambda>d. d_ID d = dagID)
               (\<lambda>d. if st = DAGSucceeded \<or> st = DAGFailed
                    then d\<lparr>d_Status := st, d_FinishedAt := Some now\<rparr> else d\<lparr>d_Status := st\<rparr>) (dags s)\<rparr>))"

definition UpdateDAGNodes :: "call \<Rightarrow> string \<Rightarrow> DAGStatus option \<Rightarrow> DAGNodeUpdate list \<Rightarrow> db \<Rightarrow> unit res \<times> db" where
  "UpdateDAGNodes c dagID agg updates =
     withTx c (\<lambda>s. Inr ((), applyAggregate (k_dbnow c) dagID agg
       (fold (applyNodeUpdate (k_dbnow c) dagID) updates s)))"

section \<open>Frame facts\<close>

text \<open>None of these operations touches tasks or attempts, so they keep the invariant.\<close>

lemma UpsertWorker_frame [simp]:
  "tasks (snd (UpsertWorker c w s)) = tasks s" "task_attempts (snd (UpsertWorker c w s)) = task_attempts s"
  "dags (snd (UpsertWorker c w s)) = dags s" "dag_nodes (snd (UpsertWorker c w s)) = dag_nodes s"
  by (simp_all add: UpsertWorker_def Let_def withTx_def split: option.splits)

lemma Heartbeat_frame [simp]:
  "tasks (snd (Heartbeat c c' w s)) = tasks s" "task_attempts (snd (Heartbeat c c' w s)) = task_attempts s"
  "dags (snd (Heartbeat c c' w s)) = dags s" "dag_nodes (snd (Heartbeat c c' w s)) = dag_nodes s"
  by (cases "k_fault c"; simp add: Heartbeat_def Let_def poolExec_def)+

lemma worker_ops_frame [simp]:
  "tasks (snd (MarkWorkerDraining c i s)) = tasks s" "task_attempts (snd (MarkWorkerDraining c i s)) = task_attempts s"
  "tasks (snd (MarkWorkersOffline c t s)) = tasks s" "task_attempts (snd (MarkWorkersOffline c t s)) = task_attempts s"
  "tasks (snd (DeleteWorker c i s)) = tasks s" "task_attempts (snd (DeleteWorker c i s)) = task_attempts s"
  "tasks (snd (IncWorkerStats c i a b s)) = tasks s" "task_attempts (snd (IncWorkerStats c i a b s)) = task_attempts s"
  "dags (snd (IncWorkerStats c i a b s)) = dags s" "dag_nodes (snd (IncWorkerStats c i a b s)) = dag_nodes s"
  by (simp_all add: MarkWorkerDraining_def MarkWorkersOffline_def DeleteWorker_def IncWorkerStats_def Let_def
      poolExec_def split: option.splits)

lemma applyAggregate_frame [simp]:
  "tasks (applyAggregate n i a s) = tasks s" "task_attempts (applyAggregate n i a s) = task_attempts s"
  "workers (applyAggregate n i a s) = workers s" "dag_nodes (applyAggregate n i a s) = dag_nodes s"
  by (simp_all add: applyAggregate_def split: option.splits)

lemma applyNodeUpdate_frame [simp]:
  "tasks (applyNodeUpdate n i u s) = tasks s" "task_attempts (applyNodeUpdate n i u s) = task_attempts s"
  "workers (applyNodeUpdate n i u s) = workers s" "dags (applyNodeUpdate n i u s) = dags s"
  by (simp_all add: applyNodeUpdate_def)

lemma fold_applyNodeUpdate_frame [simp]:
  "tasks (fold (applyNodeUpdate n i) us s) = tasks s"
  "task_attempts (fold (applyNodeUpdate n i) us s) = task_attempts s"
  "workers (fold (applyNodeUpdate n i) us s) = workers s" "dags (fold (applyNodeUpdate n i) us s) = dags s"
  by (induction us arbitrary: s) auto

lemma UpdateDAGNodes_frame [simp]:
  "tasks (snd (UpdateDAGNodes c i a us s)) = tasks s" "task_attempts (snd (UpdateDAGNodes c i a us s)) = task_attempts s"
  "workers (snd (UpdateDAGNodes c i a us s)) = workers s"
  by (simp_all add: UpdateDAGNodes_def withTx_def split: option.splits)

lemma CreateDAG_frame [simp]:
  "tasks (snd (CreateDAG c d s)) = tasks s" "task_attempts (snd (CreateDAG c d s)) = task_attempts s"
  "workers (snd (CreateDAG c d s)) = workers s"
  by (auto simp: CreateDAG_def withTx_def Let_def split: option.splits)

section \<open>Registration\<close>

lemma UpsertWorker_row:
  assumes "k_fault c = None"
  shows "lookupRow w_ID (w_ID w) (workers (snd (UpsertWorker c w s))) =
    Some (case lookupRow w_ID (w_ID w) (workers s) of
            None \<Rightarrow> upsertDefaults (k_gonow c) w
          | Some old \<Rightarrow> conflictUpdate (upsertDefaults (k_gonow c) w) old)"
proof -
  have i: "w_ID (upsertDefaults (k_gonow c) w) = w_ID w" by (simp add: upsertDefaults_def Let_def)
  have k: "w_ID (conflictUpdate w' x) = w_ID x" for w' x by (simp add: conflictUpdate_def)
  show ?thesis using assms
    by (auto simp: UpsertWorker_def Let_def withTx_def i k lookupRow_append lookupRow_updateWhere
        split: option.splits dest: lookupRow_Some)
qed

section \<open>Properties\<close>

definition sampleWorker :: "string \<Rightarrow> WorkerStatus \<Rightarrow> time \<Rightarrow> Worker" where
  "sampleWorker i st hb = \<lparr>w_ID = i, w_Name = i, w_Capabilities = [''email''], w_TotalSlots = 2, w_UsedSlots = 0,
     w_Status = st, w_LastHeartbeat = hb, w_CurrentTaskIDs = [], w_Completed = 0, w_Failed = 0, w_CreatedAt = 1\<rparr>"

text \<open>
  C31: liveness of workers. A heartbeat brings its worker online with the current time, known
  or not; the sweep marks offline exactly the workers whose last heartbeat is older than the
  cutoff and reports exactly those it changed, so a worker with a fresh heartbeat survives it.
\<close>

theorem heartbeat_survives_sweep:
  assumes "k_fault c = None" "k_fault c' = None" "k_fault d = None" "cutoff \<le> k_gonow c" "w_Status w = Online"
    and mono: "k_gonow c \<le> k_gonow c'"
  shows "\<exists>x. lookupRow w_ID (w_ID w) (workers (snd (MarkWorkersOffline d cutoff (snd (Heartbeat c c' w s))))) = Some x \<and>
    w_Status x = Online \<and>
    (\<forall>ids s'. MarkWorkersOffline d cutoff s = (Inr ids, s') \<longrightarrow>
       (\<forall>y \<in> set (workers s'). w_LastHeartbeat y < cutoff \<longrightarrow> w_Status y = Offline) \<and>
       set ids = w_ID ` {y \<in> set (workers s). w_Status y \<noteq> Offline \<and> w_LastHeartbeat y < cutoff})"
proof -
  let ?s1 = "snd (Heartbeat c c' w s)"
  let ?w = "w\<lparr>w_LastHeartbeat := k_gonow c\<rparr>"
  have "\<exists>x. lookupRow w_ID (w_ID w) (workers ?s1) = Some x \<and> w_Status x = Online \<and> k_gonow c \<le> w_LastHeartbeat x"
  proof (cases "lookupRow w_ID (w_ID w) (workers s)")
    case None
    then have no: "selectWhere (\<lambda>x. w_ID x = w_ID w) (workers s) = []"
      "updateWhere (\<lambda>x. w_ID x = w_ID w) f (workers s) = workers s" for f
      by (auto simp: lookupRow_None selectWhere_def filter_empty_conv image_iff intro!: updateWhere_none)
    have "workers ?s1 = workers (snd (UpsertWorker c' ?w s))"
      using assms(1) by (simp add: Heartbeat_def Let_def poolExec_def no)
    moreover have "k_gonow c \<le> w_LastHeartbeat (upsertDefaults (k_gonow c') ?w)"
      "w_Status (upsertDefaults (k_gonow c') ?w) = Online"
      using mono assms(5) by (simp_all add: upsertDefaults_def Let_def IsZero_def)
    ultimately show ?thesis using UpsertWorker_row [OF assms(2), of ?w s] None by simp
  next
    case (Some old)
    then have "selectWhere (\<lambda>x. w_ID x = w_ID w) (workers s) \<noteq> []"
      by (auto simp: selectWhere_def filter_empty_conv dest: lookupRow_Some)
    then show ?thesis using assms(1) Some
      by (auto simp: Heartbeat_def Let_def poolExec_def lookupRow_updateWhere dest: lookupRow_Some)
  qed
  then obtain x where x: "lookupRow w_ID (w_ID w) (workers ?s1) = Some x" "w_Status x = Online" "k_gonow c \<le> w_LastHeartbeat x"
    by blast
  have "lookupRow w_ID (w_ID w) (workers (snd (MarkWorkersOffline d cutoff ?s1))) = Some x"
    using x assms(3,4) by (simp add: MarkWorkersOffline_def Let_def poolExec_def lookupRow_updateWhere)
  moreover have "(\<forall>y \<in> set (workers s'). w_LastHeartbeat y < cutoff \<longrightarrow> w_Status y = Offline) \<and>
       set ids = w_ID ` {y \<in> set (workers s). w_Status y \<noteq> Offline \<and> w_LastHeartbeat y < cutoff}"
    if "MarkWorkersOffline d cutoff s = (Inr ids, s')" for ids s'
    using that assms(3) by (auto simp: MarkWorkersOffline_def Let_def poolExec_def set_updateWhere set_selectWhere split: if_splits)
  ultimately show ?thesis using x(2) by blast
qed

theorem heartbeat_survives_sweep_witness:
  "\<exists>x. lookupRow w_ID ''w'' (workers (snd (MarkWorkersOffline sampleCall 5
      (snd (Heartbeat sampleCall sampleCall (sampleWorker ''w'' Online 0) emptyDb))))) = Some x \<and> w_Status x = Online"
  using heartbeat_survives_sweep [of sampleCall sampleCall sampleCall 5 "sampleWorker ''w'' Online 0" emptyDb]
  by (auto simp: sampleCall_def sampleWorker_def)

text \<open>
  The words an SQL command can begin with, and the word a text begins with. Postgres parses no
  text that begins with another word.
\<close>

definition sqlCommands :: "string list" where
  "sqlCommands = [''abort'', ''alter'', ''analyze'', ''begin'', ''call'', ''checkpoint'', ''close'', ''cluster'',
     ''comment'', ''commit'', ''copy'', ''create'', ''deallocate'', ''declare'', ''delete'', ''discard'', ''do'',
     ''drop'', ''end'', ''execute'', ''explain'', ''fetch'', ''grant'', ''import'', ''insert'', ''listen'', ''load'',
     ''lock'', ''merge'', ''move'', ''notify'', ''prepare'', ''reassign'', ''refresh'', ''reindex'', ''release'',
     ''reset'', ''revoke'', ''rollback'', ''savepoint'', ''security'', ''select'', ''set'', ''show'', ''start'',
     ''table'', ''truncate'', ''unlisten'', ''update'', ''vacuum'', ''values'', ''with'']"

definition firstWord :: "string \<Rightarrow> string" where
  "firstWord q = takeWhile (\<lambda>c. c \<in> set ''abcdefghijklmnopqrstuvwxyz_'') (ToLower (dropWhile isSpace q))"

text \<open>
  The two worker queries cannot succeed. The server parses no text that begins with a word
  that is not a command, and both texts begin with a column name, because \<open>workerColumns\<close> is
  spliced in without a \<open>SELECT\<close> before it; so listing and fetching workers always report an
  error.
\<close>

lemma worker_queries_fail:
  assumes "\<And>q. accepts q \<Longrightarrow> firstWord q \<noteq> '''' \<Longrightarrow> firstWord q \<in> set sqlCommands"
  shows "(\<exists>e. ListWorkers accepts c s = Inl e) \<and> (\<exists>e. GetWorker accepts c wid s = Inl e)"
proof -
  have "firstWord listWorkersSQL = ''id''" "firstWord getWorkerSQL = ''id''" by code_simp+
  moreover have "''id'' \<notin> set sqlCommands" by (simp add: sqlCommands_def)
  ultimately have "\<not> accepts listWorkersSQL" "\<not> accepts getWorkerSQL" using assms by force+
  then show ?thesis by (simp add: ListWorkers_def GetWorker_def split: option.splits)
qed

text \<open>
  What \<open>ReclaimExpired\<close> is written to do, on a server that accepts its statement: every running task whose lease
  has run out or whose worker is offline or gone is ready again with no worker and no lease, and no such
  task is left. Postgres does not accept the statement as it stands (\<open>ReclaimExpired_rejected\<close> below).
\<close>

lemma ReclaimExpired_effect:
  assumes "db_inv s" "ReclaimExpired accepts c now s = (Inr vs, s')"
  shows "victims now s' = [] \<and> vs = victims now s \<and>
    tasks s' = updateWhere (\<lambda>r. c_status r = StatusRunning \<and> (leaseExpired now r \<or> workerLost (workers s) (c_worker_id r)))
      (freeRow (k_dbnow c)) (tasks s)"
proof -
  let ?P = "\<lambda>r. c_status r = StatusRunning \<and> (leaseExpired now r \<or> workerLost (workers s) (c_worker_id r))"
  from assms(2) have s': "vs = victims now s" "s' = fold (reclaimOne c) vs s" by (simp_all add: ReclaimExpired_ok)
  have "c_id r \<in> (t_ID \<circ> rc_Task) ` set (victims now s) \<longleftrightarrow> ?P r" if "r \<in> set (tasks s)" for r
    using that unique_row [OF assms(1) that] unfolding victims_ids by blast
  then have ts: "tasks s' = updateWhere ?P (freeRow (k_dbnow c)) (tasks s)"
    by (auto simp: s' fold_reclaimOne(1) updateWhere_def)
  have "workers s' = workers s" by (simp add: s' fold_reclaimOne(3))
  then have "victims now s' = []"
    by (auto simp: victims_def ts selectWhere_def updateWhere_def filter_empty_conv)
  then show ?thesis using s' ts by blast
qed

lemma reclaim_rejected:
  assumes "\<And>items i. accepts items \<Longrightarrow> i \<in> set items \<Longrightarrow>
    \<not> (i \<in> set (selectItems taskColumns) \<and> i \<in> set (selectItems workerColumns))"
  shows "\<exists>e. ReclaimExpired accepts c now s = (Inl e, s)"
proof -
  have "''created_at'' \<in> set (selectItems (prefixedColumns ''t''))" by code_simp
  moreover have "''created_at'' \<in> set (selectItems taskColumns)" "''created_at'' \<in> set (selectItems workerColumns)"
    by code_simp+
  ultimately have "\<not> accepts (selectItems (prefixedColumns ''t''))" using assms by blast
  then show ?thesis by (simp add: ReclaimExpired_def withTx_def split: option.splits)
qed

text \<open>
  C39: the reaper's statement is rejected as it stands. \<open>prefixedColumns\<close> leaves the columns
  that begin a line of \<open>taskColumns\<close> without their alias, \<open>created_at\<close> among them, which both
  joined tables have; a server that rejects an ambiguous column name therefore rejects the
  statement, and \<open>ReclaimExpired\<close> always fails and frees nothing.
\<close>

theorem ReclaimExpired_rejected:
  assumes "\<And>items i. accepts items \<Longrightarrow> i \<in> set items \<Longrightarrow>
    \<not> (i \<in> set (selectItems taskColumns) \<and> i \<in> set (selectItems workerColumns))"
  shows "\<exists>e. ReclaimExpired accepts c now s = (Inl e, s)"
  using assms by (rule reclaim_rejected)

theorem ReclaimExpired_rejected_witness:
  "\<exists>e. ReclaimExpired (\<lambda>items. \<forall>i \<in> set items. \<not> (i \<in> set (selectItems taskColumns) \<and> i \<in> set (selectItems workerColumns)))
     sampleCall 100 sampleDb = (Inl e, sampleDb)"
  using ReclaimExpired_rejected [of "\<lambda>items. \<forall>i \<in> set items. \<not> (i \<in> set (selectItems taskColumns) \<and> i \<in> set (selectItems workerColumns))"]
  by blast

end
