(* ===== verification/Queues.thy ===== *)
theory Queues
  imports Domain "HOL-Library.Multiset"
begin

text \<open>
  \<open>internal/queue\<close>: the ready queues (one FIFO list of task ids per priority, an id at most
  once) and the delay and retry waiting sets. \<open>MemoryQueue\<close> is the in-process
  implementation, \<open>RedisQueue\<close> the one the runtime wires, modelled at the level of its keys
  and of the Redis commands its scripts issue. A Redis call takes the fault the service answers
  it with (\<open>None\<close> when it executes); a faulted call has no effect. The locales
  \<open>ready_queue\<close> and \<open>task_queue\<close> state the interface \<open>queue.Queue\<close>, and both
  implementations interpret them.
\<close>

type_synonym WaitKind = string

abbreviation WaitDelay :: WaitKind where "WaitDelay \<equiv> ''delay''"
abbreviation WaitRetry :: WaitKind where "WaitRetry \<equiv> ''retry''"

type_synonym waitset = "(string, int) amap"

section \<open>The specification of the operations\<close>

definition addTail :: "string \<Rightarrow> string list \<Rightarrow> string list" where
  "addTail tid l = (if tid \<in> set l then l else l @ [tid])"

definition addHead :: "string \<Rightarrow> string list \<Rightarrow> string list" where
  "addHead tid l = (if tid \<in> set l then l else tid # l)"

lemma addTail_simps [simp]: "set (addTail tid l) = insert tid (set l)" "distinct (addTail tid l) = distinct l"
  by (auto simp: addTail_def)

lemma addHead_simps [simp]: "set (addHead tid l) = insert tid (set l)" "distinct (addHead tid l) = distinct l"
  by (auto simp: addHead_def)

locale ready_queue =
  fixes enq :: "'c \<Rightarrow> Priority \<Rightarrow> string \<Rightarrow> 'q \<Rightarrow> unit res \<times> 'q"
    and enqh :: "'c \<Rightarrow> Priority \<Rightarrow> string \<Rightarrow> 'q \<Rightarrow> unit res \<times> 'q"
    and deq :: "'c \<Rightarrow> Priority \<Rightarrow> 'q \<Rightarrow> string res \<times> 'q"
    and dep :: "'c \<Rightarrow> Priority \<Rightarrow> 'q \<Rightarrow> int res"
    and content :: "'q \<Rightarrow> Priority \<Rightarrow> string list"
    and invar :: "'q \<Rightarrow> bool"
  assumes enq_ok: "invar q \<Longrightarrow> enq c p tid q = (Inr (), q') \<Longrightarrow>
      content q' = (content q)(p := addTail tid (content q p)) \<and> invar q'"
    and enq_err: "enq c p tid q = (Inl e, q') \<Longrightarrow> q' = q"
    and enqh_ok: "invar q \<Longrightarrow> enqh c p tid q = (Inr (), q') \<Longrightarrow>
      content q' = (content q)(p := addHead tid (content q p)) \<and> invar q'"
    and enqh_err: "enqh c p tid q = (Inl e, q') \<Longrightarrow> q' = q"
    and deq_ok: "invar q \<Longrightarrow> deq c p q = (Inr x, q') \<Longrightarrow>
      content q' = (content q)(p := tl (content q p)) \<and> invar q' \<and>
      x = (if content q p = [] then '''' else hd (content q p))"
    and deq_err: "deq c p q = (Inl e, q') \<Longrightarrow> q' = q"
    and dep_ok: "invar q \<Longrightarrow> dep c p q = Inr n \<Longrightarrow> n = int (length (content q p))"
    and content_distinct: "invar q \<Longrightarrow> distinct (content q p)"
begin

lemma enq_member: "invar q \<Longrightarrow> enq c p tid q = (Inr (), q') \<Longrightarrow> tid \<in> set (content q' p)"
  by (simp add: enq_ok)

text \<open>An element put at the head is the next one taken, whatever is behind it.\<close>

lemma enqh_then_deq:
  assumes "invar q" "tid \<notin> set (content q p)" "enqh c p tid q = (Inr (), q')" "deq c' p q' = (Inr x, q'')"
  shows "x = tid \<and> content q'' = content q"
  using assms deq_ok [of q' c' p x q''] by (auto simp: enqh_ok addHead_def fun_eq_iff)

text \<open>Dequeuing removes exactly the returned id, and only from its own queue.\<close>

lemma deq_removes:
  assumes "invar q" "deq c p q = (Inr x, q')" "content q p \<noteq> []"
  shows "x \<in> set (content q p)" "x \<notin> set (content q' p)"
    "set (content q p) = insert x (set (content q' p))" "r \<noteq> p \<Longrightarrow> content q' r = content q r"
  using assms deq_ok [OF assms(1,2)] content_distinct [OF assms(1), of p]
  by (auto simp: neq_Nil_conv)

end

text \<open>The waiting sets: scores in Unix milliseconds, due members come out in score order.\<close>

locale task_queue = ready_queue enq enqh deq dep content invar
  for enq :: "'c \<Rightarrow> Priority \<Rightarrow> string \<Rightarrow> 'q \<Rightarrow> unit res \<times> 'q"
    and enqh deq dep content invar +
  fixes addw :: "'c \<Rightarrow> WaitKind \<Rightarrow> string \<Rightarrow> time \<Rightarrow> 'q \<Rightarrow> unit res \<times> 'q"
    and remw :: "'c \<Rightarrow> WaitKind \<Rightarrow> string \<Rightarrow> 'q \<Rightarrow> unit res \<times> 'q"
    and popd :: "'c \<Rightarrow> WaitKind \<Rightarrow> time \<Rightarrow> nat \<Rightarrow> 'q \<Rightarrow> string list res \<times> 'q"
    and score :: "'q \<Rightarrow> WaitKind \<Rightarrow> string \<Rightarrow> int option"
  assumes addw_ok: "invar q \<Longrightarrow> addw c k tid due q = (Inr (), q') \<Longrightarrow>
      score q' = (score q)(k := (score q k)(tid \<mapsto> UnixMilli due)) \<and> content q' = content q \<and> invar q'"
    and remw_ok: "invar q \<Longrightarrow> remw c k tid q = (Inr (), q') \<Longrightarrow>
      score q' = (score q)(k := (score q k)(tid := None)) \<and> content q' = content q \<and> invar q'"
    and popd_ok: "invar q \<Longrightarrow> popd c k now lim q = (Inr ids, q') \<Longrightarrow>
      score q' = (score q)(k := (\<lambda>tid. if tid \<in> set ids then None else score q k tid)) \<and>
      content q' = content q \<and> invar q' \<and> distinct ids \<and> length ids \<le> lim"
    and popd_due: "invar q \<Longrightarrow> popd c k now lim q = (Inr ids, q') \<Longrightarrow> tid \<in> set ids \<Longrightarrow>
      \<exists>s. score q k tid = Some s \<and> s \<le> UnixMilli now"
    and popd_complete: "invar q \<Longrightarrow> popd c k now lim q = (Inr ids, q') \<Longrightarrow> length ids < lim \<Longrightarrow>
      score q k tid = Some s \<Longrightarrow> s \<le> UnixMilli now \<Longrightarrow> tid \<in> set ids"
begin

text \<open>A waiting task is never handed out before the millisecond it is due in.\<close>

lemma popd_not_early:
  assumes "invar q" "addw c k tid due q = (Inr (), q1)" "popd c' k now lim q1 = (Inr ids, q2)"
    and "UnixMilli now < UnixMilli due"
  shows "tid \<notin> set ids"
proof
  assume "tid \<in> set ids"
  moreover have "invar q1" "score q1 k tid = Some (UnixMilli due)" using addw_ok [OF assms(1,2)] by simp_all
  ultimately show False using popd_due assms(3,4) by fastforce
qed

text \<open>Once due, it is handed out by the first scan whose batch is not full.\<close>

lemma popd_when_due:
  assumes "invar q" "addw c k tid due q = (Inr (), q1)" "popd c' k now lim q1 = (Inr ids, q2)"
    and "due \<le> now" "length ids < lim"
  shows "tid \<in> set ids \<and> score q2 k tid = None"
proof -
  have q1: "invar q1" "score q1 k tid = Some (UnixMilli due)" using addw_ok [OF assms(1,2)] by simp_all
  have "tid \<in> set ids"
    using popd_complete [OF q1(1) assms(3,5) q1(2)] UnixMilli_mono [OF assms(4)] .
  then show ?thesis using popd_ok [OF q1(1) assms(3)] by simp
qed

end

section \<open>The in-memory queue\<close>

record MemoryQueue =
  mq_lists :: "Priority \<Rightarrow> string list"
  mq_waiting :: "WaitKind \<Rightarrow> waitset"

definition NewMemoryQueue :: MemoryQueue where
  "NewMemoryQueue = \<lparr>mq_lists = (\<lambda>_. []), mq_waiting = (\<lambda>_. [])\<rparr>"

definition mem_add :: "Priority \<Rightarrow> string \<Rightarrow> bool \<Rightarrow> MemoryQueue \<Rightarrow> MemoryQueue" where
  "mem_add p tid head m =
     (if tid \<in> set (mq_lists m p) then m
      else if head then m\<lparr>mq_lists := (mq_lists m)(p := tid # mq_lists m p)\<rparr>
      else m\<lparr>mq_lists := (mq_lists m)(p := mq_lists m p @ [tid])\<rparr>)"

definition MemEnqueue :: "Priority \<Rightarrow> string \<Rightarrow> MemoryQueue \<Rightarrow> unit res \<times> MemoryQueue" where
  "MemEnqueue p tid m = (Inr (), mem_add p tid False m)"

definition MemEnqueueHead :: "Priority \<Rightarrow> string \<Rightarrow> MemoryQueue \<Rightarrow> unit res \<times> MemoryQueue" where
  "MemEnqueueHead p tid m = (Inr (), mem_add p tid True m)"

definition MemDequeue :: "Priority \<Rightarrow> MemoryQueue \<Rightarrow> string res \<times> MemoryQueue" where
  "MemDequeue p m =
     (case mq_lists m p of
        [] \<Rightarrow> (Inr '''', m)
      | tid # l \<Rightarrow> (Inr tid, m\<lparr>mq_lists := (mq_lists m)(p := l)\<rparr>))"

definition MemDepth :: "Priority \<Rightarrow> MemoryQueue \<Rightarrow> int res" where
  "MemDepth p m = Inr (int (length (mq_lists m p)))"

definition MemAllDepths :: "MemoryQueue \<Rightarrow> (Priority \<Rightarrow> int) res" where
  "MemAllDepths m =
     Inr (\<lambda>p. if p \<in> set PriorityOrder then int (length (mq_lists m p)) else 0)"

definition MemAddWaiting :: "WaitKind \<Rightarrow> string \<Rightarrow> time \<Rightarrow> MemoryQueue \<Rightarrow> unit res \<times> MemoryQueue" where
  "MemAddWaiting k tid due m =
     (Inr (), m\<lparr>mq_waiting := (mq_waiting m)(k := aput tid (UnixMilli due) (mq_waiting m k))\<rparr>)"

definition MemRemoveWaiting :: "WaitKind \<Rightarrow> string \<Rightarrow> MemoryQueue \<Rightarrow> unit res \<times> MemoryQueue" where
  "MemRemoveWaiting k tid m =
     (Inr (), m\<lparr>mq_waiting := (mq_waiting m)(k := adel tid (mq_waiting m k))\<rparr>)"

text \<open>
  The entries due by \<open>now\<close>, sorted by score; entries with equal scores keep the visiting
  order of the map. The first \<open>limit\<close> of them are returned and deleted.
\<close>

definition dueEntries :: "time \<Rightarrow> waitset \<Rightarrow> waitset" where
  "dueEntries now w = sort_key snd (filter (\<lambda>e. snd e \<le> UnixMilli now) w)"

definition MemPopDue :: "WaitKind \<Rightarrow> time \<Rightarrow> nat \<Rightarrow> MemoryQueue \<Rightarrow> string list res \<times> MemoryQueue" where
  "MemPopDue k now limit m =
     (let out = map fst (take limit (dueEntries now (mq_waiting m k)))
      in (Inr out, m\<lparr>mq_waiting := (mq_waiting m)(k := fold adel out (mq_waiting m k))\<rparr>))"

definition MemWaitingDepth :: "WaitKind \<Rightarrow> MemoryQueue \<Rightarrow> int res" where
  "MemWaitingDepth k m = Inr (int (length (mq_waiting m k)))"

definition MemSnapshot :: "Priority \<Rightarrow> MemoryQueue \<Rightarrow> string list" where
  "MemSnapshot p m = mq_lists m p"

definition mem_inv :: "MemoryQueue \<Rightarrow> bool" where
  "mem_inv m \<longleftrightarrow> (\<forall>p. distinct (mq_lists m p)) \<and> (\<forall>k. distinct (map fst (mq_waiting m k)))"

section \<open>Lemmas on popping due entries\<close>

lemma map_of_fold_adel: "map_of (fold adel ids w) x = (if x \<in> set ids then None else map_of w x)"
  by (induction ids arbitrary: w) auto

lemma distinct_fold_adel: "distinct (map fst w) \<Longrightarrow> distinct (map fst (fold adel ids w))"
  by (induction ids arbitrary: w) auto

text \<open>
  Both implementations take the first \<open>n\<close> of a sorted rearrangement \<open>d\<close> of the due
  entries; these three facts are all the interface needs of it.
\<close>

lemma take_due_distinct:
  "distinct (map fst w) \<Longrightarrow> mset d = mset (filter P w) \<Longrightarrow> distinct (map fst (take n d))"
proof -
  assume w: "distinct (map fst w)" and d: "mset d = mset (filter P w)"
  from d have "mset (map fst d) = mset (map fst (filter P w))" by (simp only: mset_map)
  then have "distinct (map fst d)" using w by (metis distinct_map_filter mset_eq_imp_distinct_iff)
  then show ?thesis by (metis distinct_take take_map)
qed

lemma take_due_member:
  assumes "distinct (map fst w)" "mset d = mset (filter P w)" "tid \<in> set (map fst (take n d))"
  shows "\<exists>s. map_of w tid = Some s \<and> P (tid, s)"
proof -
  obtain s where "(tid, s) \<in> set d" using assms(3) by (auto dest: in_set_takeD)
  then have "(tid, s) \<in> set (filter P w)" using assms(2) by (metis set_mset_mset)
  then show ?thesis using assms(1) by auto
qed

lemma take_due_complete:
  assumes "mset d = mset (filter P w)" "length (take n d) < n" "map_of w tid = Some s" "P (tid, s)"
  shows "tid \<in> set (map fst (take n d))"
proof -
  have "(tid, s) \<in> set (filter P w)" using assms(3,4) by (auto dest: map_of_SomeD)
  then have "(tid, s) \<in> set d" using assms(1) by (metis set_mset_mset)
  moreover have "take n d = d" using assms(2) by simp
  ultimately show ?thesis by force
qed

lemma mset_dueEntries: "mset (dueEntries now w) = mset (filter (\<lambda>e. snd e \<le> UnixMilli now) w)"
  by (simp add: dueEntries_def)

section \<open>The in-memory queue implements the interface\<close>

definition mem_content :: "MemoryQueue \<Rightarrow> Priority \<Rightarrow> string list" where
  "mem_content m = mq_lists m"

definition mem_score :: "MemoryQueue \<Rightarrow> WaitKind \<Rightarrow> string \<Rightarrow> int option" where
  "mem_score m k = map_of (mq_waiting m k)"

lemmas mem_defs = MemEnqueue_def MemEnqueueHead_def MemDequeue_def MemDepth_def MemAddWaiting_def
  MemRemoveWaiting_def MemPopDue_def mem_add_def mem_content_def mem_score_def mem_inv_def

lemma mem_ready_queue: "ready_queue (\<lambda>_::unit. MemEnqueue) (\<lambda>_. MemEnqueueHead) (\<lambda>_. MemDequeue)
  (\<lambda>_. MemDepth) mem_content mem_inv"
proof (unfold_locales, goal_cases)
  case (5 q c p x q')
  have d: "distinct (mq_lists q p)" using 5(1) by (simp add: mem_inv_def)
  show ?case using 5 d by (cases "mq_lists q p") (auto simp: mem_defs fun_eq_iff)
qed (auto simp: mem_defs addTail_def addHead_def fun_eq_iff split: list.splits if_splits)

lemma mem_popd:
  assumes "mem_inv q" "MemPopDue k now lim q = (Inr ids, q')"
  shows "mem_score q' = (mem_score q)(k := (\<lambda>tid. if tid \<in> set ids then None else mem_score q k tid)) \<and>
      mem_content q' = mem_content q \<and> mem_inv q' \<and> distinct ids \<and> length ids \<le> lim"
  using assms take_due_distinct [OF _ mset_dueEntries]
  by (auto simp: mem_defs Let_def map_of_fold_adel distinct_fold_adel fun_eq_iff)

interpretation mq: task_queue "\<lambda>_::unit. MemEnqueue" "\<lambda>_. MemEnqueueHead" "\<lambda>_. MemDequeue"
  "\<lambda>_. MemDepth" mem_content mem_inv "\<lambda>_. MemAddWaiting" "\<lambda>_. MemRemoveWaiting" "\<lambda>_. MemPopDue"
  mem_score
proof (intro task_queue.intro mem_ready_queue task_queue_axioms.intro, goal_cases)
  case (1 q c k tid due q')
  then show ?case by (auto simp: mem_defs fun_eq_iff)
next
  case (2 q c k tid q')
  then show ?case by (auto simp: mem_defs fun_eq_iff)
next
  case (3 q c k now lim ids q')
  then show ?case by (intro mem_popd)
next
  case (4 q c k now lim ids q' tid)
  then have "distinct (map fst (mq_waiting q k))" "tid \<in> set (map fst (take lim (dueEntries now (mq_waiting q k))))"
    by (auto simp: mem_inv_def MemPopDue_def Let_def)
  from take_due_member [OF this(1) mset_dueEntries this(2)] show ?case by (auto simp: mem_score_def)
next
  case (5 q c k now lim ids q' tid s)
  then have ids: "ids = map fst (take lim (dueEntries now (mq_waiting q k)))"
    by (auto simp: MemPopDue_def Let_def)
  from 5 show ?case unfolding ids
    by (intro take_due_complete [OF mset_dueEntries]) (auto simp: mem_score_def)
qed

section \<open>Redis\<close>

text \<open>
  The key space the program uses: lists, sets and sorted sets by key, with the commands of the
  scripts. A missing key is an empty value.
\<close>

record redis =
  r_list :: "string \<Rightarrow> string list"
  r_set :: "string \<Rightarrow> string list"
  r_zset :: "string \<Rightarrow> waitset"

type_synonym RedisQueue = redis

definition emptyRedis :: redis where
  "emptyRedis = \<lparr>r_list = (\<lambda>_. []), r_set = (\<lambda>_. []), r_zset = (\<lambda>_. [])\<rparr>"

definition SADD :: "string \<Rightarrow> string \<Rightarrow> redis \<Rightarrow> nat \<times> redis" where
  "SADD k x r = (if x \<in> set (r_set r k) then (0, r)
     else (1, r\<lparr>r_set := (r_set r)(k := x # r_set r k)\<rparr>))"

definition SREM :: "string \<Rightarrow> string \<Rightarrow> redis \<Rightarrow> redis" where
  "SREM k x r = r\<lparr>r_set := (r_set r)(k := removeAll x (r_set r k))\<rparr>"

definition LPUSH :: "string \<Rightarrow> string \<Rightarrow> redis \<Rightarrow> redis" where
  "LPUSH k x r = r\<lparr>r_list := (r_list r)(k := x # r_list r k)\<rparr>"

definition RPUSH :: "string \<Rightarrow> string \<Rightarrow> redis \<Rightarrow> redis" where
  "RPUSH k x r = r\<lparr>r_list := (r_list r)(k := r_list r k @ [x])\<rparr>"

definition LPOP :: "string \<Rightarrow> redis \<Rightarrow> string option \<times> redis" where
  "LPOP k r = (case r_list r k of [] \<Rightarrow> (None, r)
     | x # l \<Rightarrow> (Some x, r\<lparr>r_list := (r_list r)(k := l)\<rparr>))"

definition ZADD :: "string \<Rightarrow> int \<Rightarrow> string \<Rightarrow> redis \<Rightarrow> redis" where
  "ZADD k sc x r = r\<lparr>r_zset := (r_zset r)(k := aput x sc (r_zset r k))\<rparr>"

definition ZREM :: "string \<Rightarrow> string list \<Rightarrow> redis \<Rightarrow> redis" where
  "ZREM k xs r = r\<lparr>r_zset := (r_zset r)(k := fold adel xs (r_zset r k))\<rparr>"

text \<open>\<open>ZRANGEBYSCORE k -inf now LIMIT 0 n\<close>: by score, then by member.\<close>

definition zsorted :: "int \<Rightarrow> waitset \<Rightarrow> waitset" where
  "zsorted now z = sort_key snd (sort_key fst (filter (\<lambda>e. snd e \<le> now) z))"

definition ZRANGEBYSCORE :: "string \<Rightarrow> int \<Rightarrow> nat \<Rightarrow> redis \<Rightarrow> string list" where
  "ZRANGEBYSCORE k now n r = map fst (take n (zsorted now (r_zset r k)))"

section \<open>The Redis queue\<close>

definition keys :: "Priority \<Rightarrow> string \<times> string" where
  "keys p = (''ready:list:'' @ p, ''ready:members:'' @ p)"

definition waitKey :: "WaitKind \<Rightarrow> string" where
  "waitKey k = ''wait:'' @ k"

definition enqueueScript :: "string \<Rightarrow> string \<Rightarrow> string \<Rightarrow> string \<Rightarrow> redis \<Rightarrow> nat \<times> redis" where
  "enqueueScript list members tid flag r =
     (case SADD members tid r of
        (added, r1) \<Rightarrow>
          if added = 0 then (0, r1)
          else if flag = ''HEAD'' then (1, LPUSH list tid r1) else (1, RPUSH list tid r1))"

definition dequeueScript :: "string \<Rightarrow> string \<Rightarrow> redis \<Rightarrow> string option \<times> redis" where
  "dequeueScript list members r =
     (case LPOP list r of
        (None, r1) \<Rightarrow> (None, r1)
      | (Some tid, r1) \<Rightarrow> (Some tid, SREM members tid r1))"

definition popDueScript :: "string \<Rightarrow> int \<Rightarrow> nat \<Rightarrow> redis \<Rightarrow> string list \<times> redis" where
  "popDueScript zset now limit r =
     (let ids = ZRANGEBYSCORE zset now limit r
      in if ids \<noteq> [] then (ids, ZREM zset ids r) else (ids, r))"

definition runEnqueue :: "err option \<Rightarrow> string \<Rightarrow> string \<Rightarrow> string \<Rightarrow> bool \<Rightarrow> RedisQueue \<Rightarrow> unit res \<times> RedisQueue" where
  "runEnqueue flt list members tid head q =
     (case flt of
        Some e \<Rightarrow> (Inl e, q)
      | None \<Rightarrow> (Inr (), snd (enqueueScript list members tid (if head then ''HEAD'' else '''') q)))"

definition Enqueue :: "err option \<Rightarrow> Priority \<Rightarrow> string \<Rightarrow> RedisQueue \<Rightarrow> unit res \<times> RedisQueue" where
  "Enqueue flt p tid q = runEnqueue flt (fst (keys p)) (snd (keys p)) tid False q"

definition EnqueueHead :: "err option \<Rightarrow> Priority \<Rightarrow> string \<Rightarrow> RedisQueue \<Rightarrow> unit res \<times> RedisQueue" where
  "EnqueueHead flt p tid q = runEnqueue flt (fst (keys p)) (snd (keys p)) tid True q"

definition Dequeue :: "err option \<Rightarrow> Priority \<Rightarrow> RedisQueue \<Rightarrow> string res \<times> RedisQueue" where
  "Dequeue flt p q =
     (case flt of
        Some e \<Rightarrow> (Inl e, q)
      | None \<Rightarrow>
          (case dequeueScript (fst (keys p)) (snd (keys p)) q of
             (None, q1) \<Rightarrow> (Inr '''', q1)
           | (Some tid, q1) \<Rightarrow> (Inr tid, q1)))"

definition Depth :: "err option \<Rightarrow> Priority \<Rightarrow> RedisQueue \<Rightarrow> int res" where
  "Depth flt p q =
     (case flt of Some e \<Rightarrow> Inl e | None \<Rightarrow> Inr (int (length (r_list q (fst (keys p))))))"

definition AllDepths :: "err option \<Rightarrow> RedisQueue \<Rightarrow> (Priority \<Rightarrow> int) res" where
  "AllDepths flt q =
     (case flt of
        Some e \<Rightarrow> Inl e
      | None \<Rightarrow> Inr (\<lambda>p. if p \<in> set PriorityOrder then int (length (r_list q (fst (keys p)))) else 0))"

definition AddWaiting :: "err option \<Rightarrow> WaitKind \<Rightarrow> string \<Rightarrow> time \<Rightarrow> RedisQueue \<Rightarrow> unit res \<times> RedisQueue" where
  "AddWaiting flt k tid due q =
     (case flt of Some e \<Rightarrow> (Inl e, q) | None \<Rightarrow> (Inr (), ZADD (waitKey k) (UnixMilli due) tid q))"

definition RemoveWaiting :: "err option \<Rightarrow> WaitKind \<Rightarrow> string \<Rightarrow> RedisQueue \<Rightarrow> unit res \<times> RedisQueue" where
  "RemoveWaiting flt k tid q =
     (case flt of Some e \<Rightarrow> (Inl e, q) | None \<Rightarrow> (Inr (), ZREM (waitKey k) [tid] q))"

definition RemoveWaitingKind :: "err option \<Rightarrow> string \<Rightarrow> string \<Rightarrow> RedisQueue \<Rightarrow> unit res \<times> RedisQueue" where
  "RemoveWaitingKind flt kind tid q =
     (case flt of Some e \<Rightarrow> (Inl e, q) | None \<Rightarrow> (Inr (), ZREM (waitKey kind) [tid] q))"

definition PopDue :: "err option \<Rightarrow> WaitKind \<Rightarrow> time \<Rightarrow> nat \<Rightarrow> RedisQueue \<Rightarrow> string list res \<times> RedisQueue" where
  "PopDue flt k now limit q =
     (case flt of
        Some e \<Rightarrow> (Inl e, q)
      | None \<Rightarrow> (case popDueScript (waitKey k) (UnixMilli now) limit q of (ids, q1) \<Rightarrow> (Inr ids, q1)))"

definition WaitingDepth :: "err option \<Rightarrow> WaitKind \<Rightarrow> RedisQueue \<Rightarrow> int res" where
  "WaitingDepth flt k q =
     (case flt of Some e \<Rightarrow> Inl e | None \<Rightarrow> Inr (int (length (r_zset q (waitKey k)))))"

section \<open>The Redis queue implements the interface\<close>

text \<open>
  The membership set of a priority holds exactly the ids of its list, and the list has no
  duplicates; that is what makes the \<open>SADD\<close> test of the script a duplicate test.
\<close>

definition ready :: "RedisQueue \<Rightarrow> Priority \<Rightarrow> string list" where
  "ready q p = r_list q (fst (keys p))"

definition waiting :: "RedisQueue \<Rightarrow> WaitKind \<Rightarrow> string \<Rightarrow> int option" where
  "waiting q k = map_of (r_zset q (waitKey k))"

definition redis_inv :: "RedisQueue \<Rightarrow> bool" where
  "redis_inv q \<longleftrightarrow>
     (\<forall>p. distinct (ready q p) \<and> set (r_set q (snd (keys p))) = set (ready q p)) \<and>
     (\<forall>k. distinct (map fst (r_zset q (waitKey k))))"

lemma keys_inj [simp]: "fst (keys p) = fst (keys p') \<longleftrightarrow> p = p'" "snd (keys p) = snd (keys p') \<longleftrightarrow> p = p'"
  by (simp_all add: keys_def)

lemma waitKey_inj [simp]: "waitKey k = waitKey k' \<longleftrightarrow> k = k'"
  by (simp add: waitKey_def)

lemma redis_inv_empty: "redis_inv emptyRedis"
  by (simp add: redis_inv_def emptyRedis_def ready_def)

lemmas redis_cmd_defs = SADD_def SREM_def LPUSH_def RPUSH_def LPOP_def ZADD_def ZREM_def

lemmas redis_defs = Enqueue_def EnqueueHead_def runEnqueue_def Dequeue_def Depth_def AddWaiting_def
  RemoveWaiting_def PopDue_def enqueueScript_def dequeueScript_def ready_def waiting_def
  redis_inv_def redis_cmd_defs

lemma redis_ready_queue: "ready_queue Enqueue EnqueueHead Dequeue Depth ready redis_inv"
proof (unfold_locales, goal_cases)
  case (1 q c p tid q')
  then show ?case
    by (auto simp: redis_defs addTail_def fun_eq_iff split: option.splits if_splits)
next
  case (3 q c p tid q')
  then show ?case
    by (auto simp: redis_defs addHead_def fun_eq_iff split: option.splits if_splits)
next
  case (5 q c p x q')
  have d: "distinct (r_list q (fst (keys p)))" using 5(1) by (simp add: redis_inv_def ready_def)
  have c: "c = None" using 5(2) by (cases c) (auto simp: Dequeue_def)
  show ?case using 5 d c by (cases "r_list q (fst (keys p))") (auto simp: redis_defs fun_eq_iff)
next
  case (8 q p)
  then show ?case by (simp add: redis_inv_def)
qed (auto simp: redis_defs split: option.splits prod.splits)

lemma mset_zsorted: "mset (zsorted now z) = mset (filter (\<lambda>e. snd e \<le> now) z)"
  by (simp add: zsorted_def)

lemma PopDue_eq: "PopDue c k now lim q = (Inr ids, q') \<Longrightarrow>
  ids = map fst (take lim (zsorted (UnixMilli now) (r_zset q (waitKey k)))) \<and> q' = ZREM (waitKey k) ids q"
  by (auto simp: PopDue_def popDueScript_def ZRANGEBYSCORE_def ZREM_def Let_def split: option.splits if_splits)

lemma redis_popd:
  assumes "redis_inv q" "PopDue c k now lim q = (Inr ids, q')"
  shows "waiting q' = (waiting q)(k := (\<lambda>tid. if tid \<in> set ids then None else waiting q k tid)) \<and>
      ready q' = ready q \<and> redis_inv q' \<and> distinct ids \<and> length ids \<le> lim"
proof -
  have q': "ids = map fst (take lim (zsorted (UnixMilli now) (r_zset q (waitKey k))))" "q' = ZREM (waitKey k) ids q"
    using PopDue_eq [OF assms(2)] by auto
  have d: "distinct (map fst (r_zset q (waitKey k)))" using assms(1) by (simp add: redis_inv_def)
  have "distinct ids" unfolding q'(1) by (rule take_due_distinct [OF d mset_zsorted])
  moreover have "length ids \<le> lim" by (simp add: q'(1))
  moreover have "redis_inv q'" "ready q' = ready q"
    using assms(1) by (auto simp: q'(2) redis_inv_def ready_def ZREM_def distinct_fold_adel fun_eq_iff)
  moreover have "waiting q' = (waiting q)(k := (\<lambda>tid. if tid \<in> set ids then None else waiting q k tid))"
    by (auto simp: q'(2) waiting_def ZREM_def map_of_fold_adel fun_eq_iff)
  ultimately show ?thesis by blast
qed

interpretation rq: task_queue Enqueue EnqueueHead Dequeue Depth ready redis_inv AddWaiting
  RemoveWaiting PopDue waiting
proof (intro task_queue.intro redis_ready_queue task_queue_axioms.intro, goal_cases)
  case (1 q c k tid due q')
  then show ?case by (auto simp: redis_defs fun_eq_iff split: option.splits)
next
  case (2 q c k tid q')
  then show ?case by (auto simp: redis_defs fun_eq_iff split: option.splits)
next
  case (3 q c k now lim ids q')
  then show ?case by (intro redis_popd)
next
  case (4 q c k now lim ids q' tid)
  have "distinct (map fst (r_zset q (waitKey k)))" using 4(1) by (simp add: redis_inv_def)
  from take_due_member [OF this mset_zsorted] 4 PopDue_eq [OF 4(2)] show ?case
    by (fastforce simp: waiting_def)
next
  case (5 q c k now lim ids q' tid s)
  then show ?case using PopDue_eq [OF 5(2)] take_due_complete [OF mset_zsorted]
    by (fastforce simp: waiting_def)
qed

section \<open>Sequences of operations\<close>

text \<open>
  The observable behaviour of a ready queue over a sequence of calls, for any implementation
  and for the specification, a list per priority.
\<close>

datatype QOp = QEnqueue Priority string | QEnqueueHead Priority string | QDequeue Priority | QDepth Priority

datatype QOut = OutUnit | OutID string | OutDepth int | OutErr err

fun qspec :: "QOp \<Rightarrow> (Priority \<Rightarrow> string list) \<Rightarrow> QOut \<times> (Priority \<Rightarrow> string list)" where
  "qspec (QEnqueue p tid) f = (OutUnit, f(p := addTail tid (f p)))"
| "qspec (QEnqueueHead p tid) f = (OutUnit, f(p := addHead tid (f p)))"
| "qspec (QDequeue p) f = (OutID (if f p = [] then '''' else hd (f p)), f(p := tl (f p)))"
| "qspec (QDepth p) f = (OutDepth (int (length (f p))), f)"

definition outOf :: "('a \<Rightarrow> QOut) \<Rightarrow> 'a res \<times> 'q \<Rightarrow> QOut \<times> 'q" where
  "outOf g r = ((case fst r of Inl e \<Rightarrow> OutErr e | Inr x \<Rightarrow> g x), snd r)"

fun redisStep :: "QOp \<Rightarrow> RedisQueue \<Rightarrow> QOut \<times> RedisQueue" where
  "redisStep (QEnqueue p tid) q = outOf (\<lambda>_. OutUnit) (Enqueue None p tid q)"
| "redisStep (QEnqueueHead p tid) q = outOf (\<lambda>_. OutUnit) (EnqueueHead None p tid q)"
| "redisStep (QDequeue p) q = outOf OutID (Dequeue None p q)"
| "redisStep (QDepth p) q = outOf OutDepth (Depth None p q, q)"

fun memStep :: "QOp \<Rightarrow> MemoryQueue \<Rightarrow> QOut \<times> MemoryQueue" where
  "memStep (QEnqueue p tid) m = outOf (\<lambda>_. OutUnit) (MemEnqueue p tid m)"
| "memStep (QEnqueueHead p tid) m = outOf (\<lambda>_. OutUnit) (MemEnqueueHead p tid m)"
| "memStep (QDequeue p) m = outOf OutID (MemDequeue p m)"
| "memStep (QDepth p) m = outOf OutDepth (MemDepth p m, m)"

fun outputs :: "('o \<Rightarrow> 's \<Rightarrow> 'b \<times> 's) \<Rightarrow> 'o list \<Rightarrow> 's \<Rightarrow> 'b list" where
  "outputs step [] s = []"
| "outputs step (x # xs) s = (case step x s of (out, s') \<Rightarrow> out # outputs step xs s')"

text \<open>A functional refinement of one step carries over to the outputs of a sequence.\<close>

lemma outputs_refine:
  assumes "\<And>x s. I s \<Longrightarrow> fst (step x s) = fst (spec x (al s)) \<and>
      al (snd (step x s)) = snd (spec x (al s)) \<and> I (snd (step x s))"
  shows "I s \<Longrightarrow> outputs step xs s = outputs spec xs (al s)"
proof (induction xs arbitrary: s)
  case Nil
  then show ?case by simp
next
  case (Cons x xs)
  obtain r s' where "step x s = (r, s')" by fastforce
  then show ?case using assms [OF Cons.prems, of x] Cons.IH [of s'] by (cases "spec x (al s)") auto
qed

lemma redisStep_refines:
  assumes "redis_inv q"
  shows "fst (redisStep x q) = fst (qspec x (ready q)) \<and> ready (snd (redisStep x q)) = snd (qspec x (ready q)) \<and>
    redis_inv (snd (redisStep x q))"
proof (cases x)
  case (QEnqueue p tid)
  have "fst (Enqueue None p tid q) = Inr ()" by (simp add: Enqueue_def runEnqueue_def)
  then show ?thesis using rq.enq_ok [OF assms, of None p tid] QEnqueue by (auto simp: outOf_def prod_eq_iff)
next
  case (QEnqueueHead p tid)
  have "fst (EnqueueHead None p tid q) = Inr ()" by (simp add: EnqueueHead_def runEnqueue_def)
  then show ?thesis using rq.enqh_ok [OF assms, of None p tid] QEnqueueHead by (auto simp: outOf_def prod_eq_iff)
next
  case (QDequeue p)
  obtain y where "fst (Dequeue None p q) = Inr y"
    by (cases "dequeueScript (fst (keys p)) (snd (keys p)) q"; cases "fst (dequeueScript (fst (keys p)) (snd (keys p)) q)")
      (auto simp: Dequeue_def)
  then show ?thesis using rq.deq_ok [OF assms, of None p y] QDequeue by (auto simp: outOf_def prod_eq_iff)
next
  case (QDepth p)
  then show ?thesis using assms by (simp add: outOf_def Depth_def ready_def)
qed

lemma memStep_refines:
  assumes "mem_inv m"
  shows "fst (memStep x m) = fst (qspec x (mem_content m)) \<and>
    mem_content (snd (memStep x m)) = snd (qspec x (mem_content m)) \<and> mem_inv (snd (memStep x m))"
proof (cases x)
  case (QEnqueue p tid)
  then show ?thesis using mq.enq_ok [OF assms, of p tid] by (simp add: outOf_def MemEnqueue_def)
next
  case (QEnqueueHead p tid)
  then show ?thesis using mq.enqh_ok [OF assms, of p tid] by (simp add: outOf_def MemEnqueueHead_def)
next
  case (QDequeue p)
  obtain y where "fst (MemDequeue p m) = Inr y"
    by (cases "mq_lists m p") (auto simp: MemDequeue_def)
  then show ?thesis using mq.deq_ok [OF assms, of p y] QDequeue by (auto simp: outOf_def prod_eq_iff)
next
  case (QDepth p)
  then show ?thesis using assms by (simp add: outOf_def MemDepth_def mem_content_def)
qed

section \<open>Properties\<close>

text \<open>
  C14: the Redis queue and the in-memory queue are interchangeable: from states with the same
  ready lists, every sequence of enqueues, head enqueues, dequeues and depth reads gives the
  same answers, those of one duplicate-free list per priority.
\<close>

theorem queues_agree:
  assumes "redis_inv q" "mem_inv m" "ready q = mem_content m"
  shows "outputs redisStep ops q = outputs memStep ops m \<and> outputs redisStep ops q = outputs qspec ops (ready q)"
  using outputs_refine [of redis_inv redisStep qspec ready, OF redisStep_refines assms(1)]
    outputs_refine [of mem_inv memStep qspec mem_content, OF memStep_refines assms(2)] assms(3) by simp

theorem queues_agree_witness:
  "outputs redisStep [QEnqueue ''low'' ''a'', QEnqueueHead ''low'' ''b'', QDequeue ''low''] emptyRedis =
     outputs memStep [QEnqueue ''low'' ''a'', QEnqueueHead ''low'' ''b'', QDequeue ''low''] NewMemoryQueue \<and>
   outputs memStep [QEnqueue ''low'' ''a'', QEnqueueHead ''low'' ''b'', QDequeue ''low''] NewMemoryQueue =
     [OutUnit, OutUnit, OutID ''b'']"
proof -
  have "ready emptyRedis = mem_content NewMemoryQueue" "mem_inv NewMemoryQueue"
    by (simp_all add: fun_eq_iff ready_def emptyRedis_def mem_content_def NewMemoryQueue_def mem_inv_def)
  moreover have "outputs memStep [QEnqueue ''low'' ''a'', QEnqueueHead ''low'' ''b'', QDequeue ''low''] NewMemoryQueue =
     [OutUnit, OutUnit, OutID ''b'']"
    by (simp add: outOf_def MemEnqueue_def MemEnqueueHead_def MemDequeue_def mem_add_def NewMemoryQueue_def)
  ultimately show ?thesis using queues_agree [OF redis_inv_empty] by blast
qed

text \<open>
  A task put back at the head of its queue, as a preempted or reclaimed one is, is the very
  next one taken from that queue, and taking it leaves every queue as it was.
\<close>

lemma requeued_head_is_next:
  assumes "redis_inv q" "tid \<notin> set (ready q p)" "EnqueueHead flt p tid q = (Inr (), q1)"
    "Dequeue flt' p q1 = (Inr x, q2)"
  shows "x = tid \<and> ready q2 = ready q"
  using rq.enqh_then_deq [OF assms] .

lemma requeued_head_is_next_witness:
  "ready (snd (Dequeue None ''high'' (snd (EnqueueHead None ''high'' ''t'' emptyRedis)))) = ready emptyRedis"
proof -
  have "''t'' \<notin> set (ready emptyRedis ''high'')" by (simp add: ready_def emptyRedis_def)
  moreover have "EnqueueHead None ''high'' ''t'' emptyRedis = (Inr (), snd (EnqueueHead None ''high'' ''t'' emptyRedis))"
    by (simp add: EnqueueHead_def runEnqueue_def)
  moreover have "Dequeue None ''high'' (snd (EnqueueHead None ''high'' ''t'' emptyRedis)) =
      (Inr ''t'', snd (Dequeue None ''high'' (snd (EnqueueHead None ''high'' ''t'' emptyRedis))))"
    by (simp add: redis_defs emptyRedis_def keys_def)
  ultimately show ?thesis using requeued_head_is_next [OF redis_inv_empty] by blast
qed

text \<open>
  C15: popping due tasks. The ids are distinct, at most \<open>limit\<close>, each was waiting with a due
  millisecond not after now; they and only they leave the set; and when fewer than \<open>limit\<close>
  come back no due task is left behind.
\<close>

theorem PopDue_correct:
  assumes "redis_inv q" "PopDue flt k now limit q = (Inr ids, q')"
  shows "distinct ids \<and> length ids \<le> limit \<and> redis_inv q' \<and> ready q' = ready q \<and>
    (\<forall>tid \<in> set ids. \<exists>s. waiting q k tid = Some s \<and> s \<le> UnixMilli now) \<and>
    waiting q' = (waiting q)(k := (\<lambda>tid. if tid \<in> set ids then None else waiting q k tid)) \<and>
    (length ids < limit \<longrightarrow> (\<forall>tid s. waiting q' k tid = Some s \<longrightarrow> UnixMilli now < s))"
  using rq.popd_ok [OF assms] rq.popd_due [OF assms] rq.popd_complete [OF assms]
  by (auto simp: not_le [symmetric] split: if_splits)

theorem PopDue_correct_witness:
  "\<exists>q'. PopDue None ''delay'' 5000 10 (snd (AddWaiting None ''delay'' ''a'' 4000 emptyRedis)) = (Inr [''a''], q') \<and>
     ready q' = ready emptyRedis"
proof -
  have "AddWaiting None ''delay'' ''a'' 4000 emptyRedis = (Inr (), snd (AddWaiting None ''delay'' ''a'' 4000 emptyRedis))"
    by (simp add: AddWaiting_def)
  then have w: "redis_inv (snd (AddWaiting None ''delay'' ''a'' 4000 emptyRedis))" "ready (snd (AddWaiting None ''delay'' ''a'' 4000 emptyRedis)) = ready emptyRedis"
    using rq.addw_ok [OF redis_inv_empty] by blast+
  have "\<exists>q'. PopDue None ''delay'' 5000 10 (snd (AddWaiting None ''delay'' ''a'' 4000 emptyRedis)) = (Inr [''a''], q')"
    by (simp add: PopDue_def popDueScript_def ZRANGEBYSCORE_def AddWaiting_def ZADD_def zsorted_def emptyRedis_def UnixMilli_def Let_def)
  then obtain q' where q': "PopDue None ''delay'' 5000 10 (snd (AddWaiting None ''delay'' ''a'' 4000 emptyRedis)) = (Inr [''a''], q')" ..
  show ?thesis using PopDue_correct [OF w(1) q'] w(2) q' by auto
qed

end
