(* ===== verification/Engine.thy ===== *)
theory Engine
  imports Store_Workers Queues
begin

text \<open>
  \<open>internal/engine\<close>: submission, result reporting with the retry decision, lease renewal and
  the completion callback. The state is the store and the Redis queue together. What the
  outside world answers during one call of the engine (the fault of each store and queue call,
  the clocks, the fresh id) is one record of answers; the DAG hook is a function argument, its
  result \<open>None\<close> when it panics.
\<close>

record core =
  co_db :: db
  co_q :: RedisQueue

section \<open>Submission\<close>

record SubmitInput =
  si_Type :: string
  si_Payload :: string
  si_Priority :: Priority
  si_IDempotencyKey :: string
  si_MaxRetries :: int
  si_TimeoutSeconds :: int
  si_RetryPolicy :: RetryPolicy
  si_CallbackURL :: string
  si_ExecuteAfter :: "time option"

text \<open>The defaults, in the order the code fills them in.\<close>

definition submitDefaults :: "SubmitInput \<Rightarrow> SubmitInput" where
  "submitDefaults i =
     (let i1 = (if si_TimeoutSeconds i \<le> 0 then i\<lparr>si_TimeoutSeconds := 60\<rparr> else i);
          i2 = (if rp_Kind (si_RetryPolicy i1) = ''''
                then i1\<lparr>si_RetryPolicy := (si_RetryPolicy i1)\<lparr>rp_Kind := RetryExponential\<rparr>\<rparr> else i1);
          i3 = (if si_MaxRetries i2 = 0 then i2\<lparr>si_MaxRetries := rp_MaxRetries (si_RetryPolicy i2)\<rparr> else i2);
          i4 = (if rp_MaxRetries (si_RetryPolicy i3) = 0
                then i3\<lparr>si_RetryPolicy := (si_RetryPolicy i3)\<lparr>rp_MaxRetries := si_MaxRetries i3\<rparr>\<rparr> else i3)
      in if rp_BaseInterval (si_RetryPolicy i4) = 0
         then i4\<lparr>si_RetryPolicy := (si_RetryPolicy i4)\<lparr>rp_BaseInterval := 5\<rparr>\<rparr> else i4)"

record submitEnv =
  se_idem :: call
  se_id :: string
  se_now :: time
  se_create :: call
  se_queue :: "err option"

definition isDelayed :: "time option \<Rightarrow> time \<Rightarrow> bool" where
  "isDelayed after now = (case after of None \<Rightarrow> False | Some t \<Rightarrow> t > now)"

definition newTask :: "string \<Rightarrow> time \<Rightarrow> SubmitInput \<Rightarrow> Task" where
  "newTask tid now i =
     \<lparr>t_ID = tid, t_IDempotencyKey = si_IDempotencyKey i, t_Type = si_Type i, t_Payload = si_Payload i,
      t_Priority = si_Priority i,
      t_Status = (if isDelayed (si_ExecuteAfter i) now then StatusPending else StatusReady),
      t_MaxRetries = si_MaxRetries i, t_Attempts = 0, t_TimeoutSeconds = si_TimeoutSeconds i,
      t_RetryPolicy = si_RetryPolicy i, t_CallbackURL = si_CallbackURL i,
      t_ExecuteAfter = (if isDelayed (si_ExecuteAfter i) now then si_ExecuteAfter i else None),
      t_WorkerID = '''', t_LeaseExpiresAt = None, t_DAGID = '''', t_DAGNodeID = '''', t_LastError = '''',
      t_ErrCategory = '''', t_CreatedAt = zeroTime, t_UpdatedAt = zeroTime, t_StartedAt = None, t_FinishedAt = None\<rparr>"

text \<open>The second half of \<open>Submit\<close>: persist, then enqueue or put into the delay set.\<close>

definition submitNew :: "submitEnv \<Rightarrow> SubmitInput \<Rightarrow> core \<Rightarrow> (Task \<times> bool) res \<times> core" where
  "submitNew e i st =
     (case CreateTask (se_create e) (newTask (se_id e) (se_now e) i) (co_db st) of
        (Inl er, s1) \<Rightarrow> (Inl er, st\<lparr>co_db := s1\<rparr>)
      | (Inr t, s1) \<Rightarrow>
          (case (case (if isDelayed (si_ExecuteAfter i) (se_now e) then si_ExecuteAfter i else None) of
                   Some after \<Rightarrow> AddWaiting (se_queue e) WaitDelay (t_ID t) after (co_q st)
                 | None \<Rightarrow> Enqueue (se_queue e) (t_Priority t) (t_ID t) (co_q st)) of
             (Inl er, q1) \<Rightarrow> (Inl er, st\<lparr>co_db := s1, co_q := q1\<rparr>)
           | (Inr _, q1) \<Rightarrow> (Inr (t, False), st\<lparr>co_db := s1, co_q := q1\<rparr>)))"

definition Submit :: "submitEnv \<Rightarrow> SubmitInput \<Rightarrow> core \<Rightarrow> (Task \<times> bool) res \<times> core" where
  "Submit e inp st =
     (let i0 = (if si_Priority inp = '''' then inp\<lparr>si_Priority := PriorityNormal\<rparr> else inp) in
      if \<not> Valid (si_Priority i0) then (Inl ErrInvalidPriority, st)
      else if si_Type i0 = '''' then (Inl ErrInvalidType, st)
      else
        (let i = submitDefaults i0 in
         if si_IDempotencyKey i \<noteq> '''' then
           (case GetTaskByIdem (se_idem e) (si_IDempotencyKey i) (co_db st) of
              Inl er \<Rightarrow> (Inl er, st)
            | Inr (Some existing) \<Rightarrow> (Inr (existing, True), st)
            | Inr None \<Rightarrow> submitNew e i st)
         else submitNew e i st))"

section \<open>Callbacks\<close>

record callbackPayload =
  cp_TaskID :: string
  cp_Type :: string
  cp_Status :: string
  cp_Attempts :: int
  cp_Error :: string

text \<open>The request that leaves the process, if any; its outcome is ignored by the code.\<close>

definition Post :: "string \<Rightarrow> Task \<Rightarrow> bool \<Rightarrow> string \<Rightarrow> (string \<times> callbackPayload) list" where
  "Post url t success errMsg =
     (if url = '''' then []
      else [(url, \<lparr>cp_TaskID = t_ID t, cp_Type = t_Type t,
               cp_Status = (if success then ''succeeded'' else ''failed''),
               cp_Attempts = t_Attempts t, cp_Error = errMsg\<rparr>)])"

section \<open>Reporting a result\<close>

record reportEnv =
  re_now :: time
  re_now2 :: time
  re_complete :: call
  re_queue :: "err option"

definition reportInput ::
  "reportEnv \<Rightarrow> Task \<Rightarrow> bool \<Rightarrow> string \<Rightarrow> string \<Rightarrow> string \<Rightarrow> CompleteResult" where
  "reportInput e t success result errMsg category =
     \<lparr>cr_TaskID = t_ID t, cr_WorkerID = t_WorkerID t, cr_Success = success, cr_Result = result,
      cr_Error = errMsg,
      cr_Category = (if \<not> success \<and> category = '''' then Classify errMsg else category),
      cr_RetryAfter =
        (if \<not> success \<and> t_Attempts t \<le> t_MaxRetries t then
           (case NextDelay (t_RetryPolicy t) (t_Attempts t) (re_now e) of
              Inl er \<Rightarrow> zeroTime
            | Inr due \<Rightarrow> re_now2 e + due * Second)
         else zeroTime)\<rparr>"

type_synonym hook = "Task \<Rightarrow> CompletionOutcome \<Rightarrow> string \<Rightarrow> core \<Rightarrow> core option"

definition ReportResult ::
  "hook \<Rightarrow> reportEnv \<Rightarrow> Task \<Rightarrow> bool \<Rightarrow> string \<Rightarrow> string \<Rightarrow> string \<Rightarrow> core \<Rightarrow>
     ((string \<times> callbackPayload) list \<times> core) option" where
  "ReportResult hook e t success result errMsg category st =
     (case CompleteAttempt (re_complete e) (reportInput e t success result errMsg category) (co_db st) of
        (Inl er, s1) \<Rightarrow> Some ([], st\<lparr>co_db := s1\<rparr>)
      | (Inr (updated, outcome), s1) \<Rightarrow>
          let st1 = st\<lparr>co_db := s1\<rparr>;
              posts = (case outcome of
                         OutcomeSucceeded \<Rightarrow> Post (t_CallbackURL updated) updated True ''''
                       | OutcomeDead \<Rightarrow> Post (t_CallbackURL updated) updated False errMsg
                       | OutcomeRetrying \<Rightarrow> []);
              st2 = (case outcome of
                       OutcomeRetrying \<Rightarrow>
                         (case t_ExecuteAfter updated of
                            None \<Rightarrow> st1
                          | Some due \<Rightarrow> st1\<lparr>co_q := snd (AddWaiting (re_queue e) WaitRetry (t_ID updated) due (co_q st1))\<rparr>)
                     | _ \<Rightarrow> st1)
          in if outcome = OutcomeSucceeded \<or> outcome = OutcomeDead
             then map_option (\<lambda>st3. (posts, st3)) (hook updated outcome errMsg st2)
             else Some (posts, st2))"

definition engineRenewLease :: "call \<Rightarrow> string \<Rightarrow> string \<Rightarrow> duration \<Rightarrow> db \<Rightarrow> bool \<times> db" where
  "engineRenewLease c taskID workerID lease s =
     (case RenewLease c taskID workerID (k_gonow c + lease) s of
        (Inl e, s1) \<Rightarrow> (False, s1)
      | (Inr ok, s1) \<Rightarrow> (ok, s1))"

section \<open>Lemmas\<close>

lemma submitDefaults_simps [simp]:
  "si_Type (submitDefaults i) = si_Type i" "si_Priority (submitDefaults i) = si_Priority i"
  "si_IDempotencyKey (submitDefaults i) = si_IDempotencyKey i" "si_ExecuteAfter (submitDefaults i) = si_ExecuteAfter i"
  "si_CallbackURL (submitDefaults i) = si_CallbackURL i" "si_Payload (submitDefaults i) = si_Payload i"
  by (simp_all add: submitDefaults_def Let_def)

lemma new_task_ok_newTask: "new_task_ok (newTask tid now i)"
  by (auto simp: new_task_ok_def newTask_def isDelayed_def split: option.splits)

lemma newTask_sel [simp]:
  "t_ID (newTask tid now i) = tid" "t_Priority (newTask tid now i) = si_Priority i"
  "t_IDempotencyKey (newTask tid now i) = si_IDempotencyKey i"
  by (simp_all add: newTask_def)

text \<open>Creating: the outcome in terms of the row it adds.\<close>

lemma CreateTask_cases:
  obtains (err) e where "CreateTask c t s = (Inl e, s)"
  | (ok) s' where "CreateTask c t s = (Inr (createDefaults (k_gonow c) t), s')" "k_fault c = None"
      "\<not> duplicateKey (taskArgs (createDefaults (k_gonow c) t)) (tasks s)"
      "tasks s' = tasks s @ [taskArgs (createDefaults (k_gonow c) t)]" "task_attempts s' = task_attempts s"
      "workers s' = workers s" "dags s' = dags s" "dag_nodes s' = dag_nodes s"
proof (cases "CreateTask c t s")
  case (Pair r s')
  show thesis
  proof (cases r)
    case (Inl e)
    then have "s' = s" using Pair by (auto simp: CreateTask_def Let_def dest!: withTx_Inl)
    then show thesis using err Pair Inl by blast
  next
    case (Inr t')
    have "t' = createDefaults (k_gonow c) t" "k_fault c = None"
      "\<not> duplicateKey (taskArgs (createDefaults (k_gonow c) t)) (tasks s)"
      "tasks s' = tasks s @ [taskArgs (createDefaults (k_gonow c) t)]" "task_attempts s' = task_attempts s"
      "workers s' = workers s" "dags s' = dags s" "dag_nodes s' = dag_nodes s"
      using Pair Inr by (auto simp: CreateTask_def Let_def withTx_Inr split: if_splits)
    then show thesis using ok Pair Inr by blast
  qed
qed

lemma submitNew_inv:
  assumes "db_inv (co_db st)"
  shows "db_inv (co_db (snd (submitNew e i st)))"
  using CreateTask_inv [OF assms new_task_ok_newTask, of "se_create e" "se_id e" "se_now e" i]
  by (auto simp: submitNew_def split: prod.splits sum.splits option.splits)

lemma Submit_inv: "db_inv (co_db st) \<Longrightarrow> db_inv (co_db (snd (Submit e inp st)))"
  by (auto simp: Submit_def Let_def submitNew_inv split: sum.splits option.splits)

lemma AddWaiting_None: "AddWaiting None k tid due q = (Inr (), snd (AddWaiting None k tid due q))"
  by (simp add: AddWaiting_def)

lemma Enqueue_None: "Enqueue None p tid q = (Inr (), snd (Enqueue None p tid q))"
  by (simp add: Enqueue_def runEnqueue_def)

lemma redis_inv_steps:
  assumes "redis_inv q"
  shows "redis_inv (snd (AddWaiting f k tid due q))" "redis_inv (snd (Enqueue f p tid q))"
    "redis_inv (snd (EnqueueHead f p tid q))" "redis_inv (snd (Dequeue f p q))"
    "redis_inv (snd (PopDue f k now lim q))"
proof -
  show "redis_inv (snd (AddWaiting f k tid due q))"
    using assms rq.addw_ok [of q f k tid due "snd (AddWaiting f k tid due q)"]
    by (cases f) (auto simp: AddWaiting_def)
  show "redis_inv (snd (Enqueue f p tid q))"
    using assms rq.enq_ok [of q f p tid "snd (Enqueue f p tid q)"]
    by (cases f) (auto simp: Enqueue_def runEnqueue_def)
  show "redis_inv (snd (EnqueueHead f p tid q))"
    using assms rq.enqh_ok [of q f p tid "snd (EnqueueHead f p tid q)"]
    by (cases f) (auto simp: EnqueueHead_def runEnqueue_def)
  show "redis_inv (snd (Dequeue f p q))"
    using assms rq.deq_ok [of q f p _ "snd (Dequeue f p q)"] rq.deq_err [of f p q _ "snd (Dequeue f p q)"]
    by (cases "Dequeue f p q"; cases "fst (Dequeue f p q)") auto
  show "redis_inv (snd (PopDue f k now lim q))"
    using assms rq.popd_ok [of q f k now lim _ "snd (PopDue f k now lim q)"]
    by (cases "PopDue f k now lim q"; cases "fst (PopDue f k now lim q)")
      (auto simp: PopDue_def split: option.splits prod.splits)
qed

section \<open>Properties\<close>

definition sampleInput :: "string \<Rightarrow> string \<Rightarrow> SubmitInput" where
  "sampleInput ty key = \<lparr>si_Type = ty, si_Payload = ''{}'', si_Priority = '''', si_IDempotencyKey = key,
     si_MaxRetries = 0, si_TimeoutSeconds = 0,
     si_RetryPolicy = \<lparr>rp_Kind = '''', rp_BaseInterval = 0, rp_MaxRetries = 3, rp_CronExpression = ''''\<rparr>,
     si_CallbackURL = '''', si_ExecuteAfter = None\<rparr>"

definition sampleSubmit :: "string \<Rightarrow> submitEnv" where
  "sampleSubmit i = \<lparr>se_idem = sampleCall, se_id = i, se_now = 10, se_create = sampleCall, se_queue = None\<rparr>"

definition sampleCore :: core where
  "sampleCore = \<lparr>co_db = sampleDb, co_q = emptyRedis\<rparr>"

text \<open>Where an accepted submission ends up.\<close>

lemma Submit_placed:
  assumes "redis_inv (co_q st)" "Submit e inp st = (Inr (t, False), st')"
  shows "tasks (co_db st') = tasks (co_db st) @ [taskArgs t] \<and> t_ID t = se_id e \<and> Valid (t_Priority t) \<and>
    t_Attempts t = 0 \<and> t_Type t = si_Type inp \<and> t_Payload t = si_Payload inp \<and>
    t_Priority t = (if si_Priority inp = '''' then PriorityNormal else si_Priority inp) \<and> se_id e \<notin> c_id ` set (tasks (co_db st)) \<and>
    (case t_Status t of
       StatusPending \<Rightarrow> (\<exists>due > se_now e. si_ExecuteAfter inp = Some due \<and> t_ExecuteAfter t = Some due \<and>
          waiting (co_q st') WaitDelay (t_ID t) = Some (UnixMilli due) \<and> ready (co_q st') = ready (co_q st))
     | StatusReady \<Rightarrow> t_ExecuteAfter t = None \<and>
          ready (co_q st') = (ready (co_q st))(t_Priority t := addTail (t_ID t) (ready (co_q st) (t_Priority t)))
     | _ \<Rightarrow> False)"
proof -
  define i where "i = submitDefaults (if si_Priority inp = '''' then inp\<lparr>si_Priority := PriorityNormal\<rparr> else inp)"
  have ok: "submitNew e i st = (Inr (t, False), st')" and v: "Valid (si_Priority i)"
    using assms(2) by (auto simp: Submit_def Let_def i_def split: if_splits sum.splits option.splits)
  have after: "si_ExecuteAfter i = si_ExecuteAfter inp" "si_Type i = si_Type inp" "si_Payload i = si_Payload inp"
    "si_Priority i = (if si_Priority inp = '''' then PriorityNormal else si_Priority inp)" by (simp_all add: i_def)
  let ?t = "createDefaults (k_gonow (se_create e)) (newTask (se_id e) (se_now e) i)"
  show ?thesis
  proof (cases rule: CreateTask_cases [of "se_create e" "newTask (se_id e) (se_now e) i" "co_db st"])
    case (err er)
    then show ?thesis using ok by (simp add: submitNew_def)
  next
    case (ok s1)
    note c = this
    have new: "se_id e \<notin> c_id ` set (tasks (co_db st))" using c(3) by (auto simp: duplicateKey_def)
    have flt: "se_queue e = None" and t: "t = ?t" and db: "co_db st' = s1"
      using \<open>submitNew e i st = _\<close> c(1)
      by (auto simp: submitNew_def AddWaiting_def Enqueue_def runEnqueue_def split: option.splits if_splits)
    show ?thesis
    proof (cases "isDelayed (si_ExecuteAfter i) (se_now e)")
      case True
      then obtain due where due: "si_ExecuteAfter i = Some due" "due > se_now e" by (auto simp: isDelayed_def split: option.splits)
      have q: "co_q st' = snd (AddWaiting None WaitDelay (t_ID ?t) due (co_q st))"
        using \<open>submitNew e i st = _\<close> c(1) True due flt AddWaiting_None [of WaitDelay "t_ID ?t" due "co_q st"]
        by (auto simp: submitNew_def split: prod.splits sum.splits)
      then show ?thesis using rq.addw_ok [OF assms(1) AddWaiting_None] c True due new v after t db
        by (auto simp: newTask_def)
    next
      case False
      have q: "co_q st' = snd (Enqueue None (t_Priority ?t) (t_ID ?t) (co_q st))"
        using \<open>submitNew e i st = _\<close> c(1) False flt Enqueue_None [of "t_Priority ?t" "t_ID ?t" "co_q st"]
        by (auto simp: submitNew_def split: prod.splits sum.splits)
      then show ?thesis using rq.enq_ok [OF assms(1) Enqueue_None] c False new v after t db
        by (auto simp: newTask_def)
    qed
  qed
qed

text \<open>
  C11: an accepted submission is persisted once and queued once. The new task is the row stored
  under the fresh id, with a valid priority and no attempt; a task due in the future waits in
  the delay set under its due time, any other is ready and in the ready queue of its priority;
  every older row is untouched.
\<close>

theorem Submit_places_task:
  assumes "redis_inv (co_q st)" "Submit e inp st = (Inr (t, False), st')"
  shows "tasks (co_db st') = tasks (co_db st) @ [taskArgs t] \<and> t_ID t = se_id e \<and> Valid (t_Priority t) \<and>
    t_Attempts t = 0 \<and> se_id e \<notin> c_id ` set (tasks (co_db st)) \<and>
    (case t_Status t of
       StatusPending \<Rightarrow> (\<exists>due > se_now e. si_ExecuteAfter inp = Some due \<and> t_ExecuteAfter t = Some due \<and>
          waiting (co_q st') WaitDelay (t_ID t) = Some (UnixMilli due) \<and> ready (co_q st') = ready (co_q st))
     | StatusReady \<Rightarrow> t_ExecuteAfter t = None \<and>
          ready (co_q st') = (ready (co_q st))(t_Priority t := addTail (t_ID t) (ready (co_q st) (t_Priority t)))
     | _ \<Rightarrow> False)"
  using Submit_placed [OF assms] by blast

theorem Submit_places_task_witness:
  "\<exists>t st'. Submit (sampleSubmit ''b'') (sampleInput ''email'' ''k'') sampleCore = (Inr (t, False), st') \<and>
     tasks (co_db st') = tasks (co_db sampleCore) @ [taskArgs t] \<and> t_ID t = ''b''"
proof -
  obtain t st' where s: "Submit (sampleSubmit ''b'') (sampleInput ''email'' ''k'') sampleCore = (Inr (t, False), st')"
    by (simp add: Submit_def Let_def sampleInput_def submitDefaults_def Valid_def PriorityOrder_def GetTaskByIdem_def poolQuery_def
        sampleSubmit_def sampleCall_def sampleCore_def sampleDb_def sampleTask_def submitNew_def CreateTask_def withTx_def
        duplicateKey_def newTask_def isDelayed_def Enqueue_def runEnqueue_def)
  have "redis_inv (co_q sampleCore)" by (simp add: sampleCore_def redis_inv_empty)
  from Submit_places_task [OF this s] s show ?thesis by (auto simp: sampleSubmit_def)
qed

text \<open>
  C13: idempotency. Once a task was submitted under a non-empty key, every later valid
  submission under that key, whatever else it asks for, returns that very task as a duplicate
  and changes nothing.
\<close>

theorem Submit_idempotent:
  assumes "db_inv (co_db st)" "Submit e inp st = (Inr (t, False), st')" "si_IDempotencyKey inp \<noteq> ''''"
    and "si_IDempotencyKey inp' = si_IDempotencyKey inp" "si_Type inp' \<noteq> ''''"
      "si_Priority inp' = '''' \<or> Valid (si_Priority inp')" "k_fault (se_idem e') = None"
  shows "\<exists>t'. Submit e' inp' st' = (Inr (t', True), st') \<and> taskArgs t' = taskArgs t"
proof -
  define i where "i = submitDefaults (if si_Priority inp = '''' then inp\<lparr>si_Priority := PriorityNormal\<rparr> else inp)"
  have key: "si_IDempotencyKey i = si_IDempotencyKey inp" by (simp add: i_def)
  have ok: "submitNew e i st = (Inr (t, False), st')"
    using assms(2) by (auto simp: Submit_def Let_def i_def split: if_splits sum.splits option.splits)
  let ?t = "createDefaults (k_gonow (se_create e)) (newTask (se_id e) (se_now e) i)"
  show ?thesis
  proof (cases rule: CreateTask_cases [of "se_create e" "newTask (se_id e) (se_now e) i" "co_db st"])
    case (err er)
    then show ?thesis using ok by (simp add: submitNew_def)
  next
    case (ok s1)
    note c = this
    have t: "t = ?t" and db: "co_db st' = s1"
      using \<open>submitNew e i st = _\<close> c(1)
      by (auto simp: submitNew_def split: prod.splits sum.splits if_splits)
    have "lookupRow c_idempotency_key (si_IDempotencyKey inp) (tasks (co_db st)) = None"
      using c(3) assms(3) key by (auto simp: duplicateKey_def lookupRow_None)
    then have "lookupRow c_idempotency_key (si_IDempotencyKey inp) (tasks s1) = Some (taskArgs ?t)"
      using key by (simp add: c(4) lookupRow_append)
    then have "Submit e' inp' st' = (Inr (scanTask (taskArgs ?t), True), st')"
      using assms(3-7) by (auto simp: Submit_def Let_def GetTaskByIdem_def poolQuery_def db Valid_def PriorityOrder_def)
    then show ?thesis using t by auto
  qed
qed

theorem Submit_idempotent_witness:
  "\<exists>t t' st'. Submit (sampleSubmit ''b'') (sampleInput ''email'' ''k'') sampleCore = (Inr (t, False), st') \<and>
     Submit (sampleSubmit ''c'') (sampleInput ''other'' ''k'') st' = (Inr (t', True), st') \<and> taskArgs t' = taskArgs t"
proof -
  obtain t st' where s: "Submit (sampleSubmit ''b'') (sampleInput ''email'' ''k'') sampleCore = (Inr (t, False), st')"
    by (simp add: Submit_def Let_def sampleInput_def submitDefaults_def Valid_def PriorityOrder_def GetTaskByIdem_def poolQuery_def
        sampleSubmit_def sampleCall_def sampleCore_def sampleDb_def sampleTask_def submitNew_def CreateTask_def withTx_def
        duplicateKey_def newTask_def isDelayed_def Enqueue_def runEnqueue_def)
  have "db_inv (co_db sampleCore)" by (simp add: sampleCore_def sampleDb_inv)
  from Submit_idempotent [OF this s, of "sampleInput ''other'' ''k''" "sampleSubmit ''c''"] s show ?thesis
    by (auto simp: sampleInput_def sampleSubmit_def sampleCall_def)
qed

text \<open>
  C12: the retry decision. A failed attempt whose number is within the retry budget, and whose
  policy gives a delay, sends the task back to waiting, due that delay after the report, in the
  retry set and with no callback; any other failed attempt makes the task dead, posts the
  failure and tells the DAG hook. Either way the lease is gone.
\<close>

theorem failed_attempt_outcome:
  assumes "redis_inv (co_q st)" "lookupRow c_id (t_ID t) (tasks (co_db st)) = Some r" "c_status r = StatusRunning"
    "c_worker_id r = t_WorkerID t" "k_fault (re_complete e) = None" "re_queue e = None"
    and d: "\<And>d. NextDelay (t_RetryPolicy t) (t_Attempts t) (re_now e) = Inr d \<Longrightarrow> re_now2 e + d * Second \<noteq> zeroTime"
  shows "\<exists>st1 r'. lookupRow c_id (t_ID t) (tasks (co_db st1)) = Some r' \<and> c_worker_id r' = '''' \<and> c_lease_expires_at r' = None \<and>
    (case (if t_Attempts t \<le> t_MaxRetries t then NextDelay (t_RetryPolicy t) (t_Attempts t) (re_now e) else Inl ErrConflict) of
       Inr d \<Rightarrow> ReportResult hook e t False res msg cat st = Some ([], st1) \<and> c_status r' = StatusPending \<and>
         c_execute_after r' = Some (re_now2 e + d * Second) \<and>
         waiting (co_q st1) WaitRetry (t_ID t) = Some (UnixMilli (re_now2 e + d * Second))
     | Inl er \<Rightarrow> ReportResult hook e t False res msg cat st =
           map_option (\<lambda>st3. (Post (c_callback_url r') (scanTask r') False msg, st3)) (hook (scanTask r') OutcomeDead msg st1) \<and>
         c_status r' = StatusDead \<and> co_q st1 = co_q st)"
proof -
  let ?inp = "reportInput e t False res msg cat"
  have inp: "cr_TaskID ?inp = t_ID t" "\<not> cr_Success ?inp" "cr_WorkerID ?inp = t_WorkerID t" by (simp_all add: reportInput_def)
  obtain out u where u: "completionUpdate (re_complete e) ?inp = (out, u)" by fastforce
  let ?r' = "updateRow u (k_dbnow (re_complete e)) r"
  have tid: "c_id r = t_ID t" using lookupRow_Some [OF assms(2)] by simp
  obtain s1 where ca: "CompleteAttempt (re_complete e) ?inp (co_db st) = (Inr (scanTask ?r', out), s1)"
    and lk: "lookupRow c_id (t_ID t) (tasks s1) = Some ?r'"
    using assms(2-5) tid by (simp add: CompleteAttempt_def withTx_def Let_def inp u lookupRow_updateWhere)
  show ?thesis
  proof (cases "if t_Attempts t \<le> t_MaxRetries t then NextDelay (t_RetryPolicy t) (t_Attempts t) (re_now e) else Inl ErrConflict")
    case (Inl er)
    then have "cr_RetryAfter ?inp = zeroTime" by (auto simp: reportInput_def split: if_splits)
    then have "out = OutcomeDead" "c_status ?r' = StatusDead" "c_worker_id ?r' = ''''" "c_lease_expires_at ?r' = None"
      using u inp by (auto simp: completionUpdate_def IsZero_def noUpdate_def)
    then show ?thesis using lk by (intro exI [of _ "st\<lparr>co_db := s1\<rparr>"] exI [of _ ?r']) (simp add: Inl ReportResult_def ca)
  next
    case (Inr dl)
    then have "cr_RetryAfter ?inp = re_now2 e + dl * Second" "re_now2 e + dl * Second \<noteq> zeroTime"
      using d by (auto simp: reportInput_def split: if_splits)
    then have o: "out = OutcomeRetrying" "c_status ?r' = StatusPending" "c_worker_id ?r' = ''''" "c_lease_expires_at ?r' = None"
      "c_execute_after ?r' = Some (re_now2 e + dl * Second)"
      using u inp by (auto simp: completionUpdate_def IsZero_def noUpdate_def)
    let ?q = "snd (AddWaiting None WaitRetry (t_ID t) (re_now2 e + dl * Second) (co_q st))"
    have "waiting ?q WaitRetry (t_ID t) = Some (UnixMilli (re_now2 e + dl * Second))"
      using rq.addw_ok [OF assms(1) AddWaiting_None] by simp
    then show ?thesis using lk o
      by (intro exI [of _ "st\<lparr>co_db := s1, co_q := ?q\<rparr>"] exI [of _ ?r'])
        (simp add: Inr ReportResult_def ca assms(6) tid del: updateRow_simps(4-10))
  qed
qed

definition sampleReport :: reportEnv where
  "sampleReport = \<lparr>re_now = 20, re_now2 = 20, re_complete = sampleCall, re_queue = None\<rparr>"

theorem failed_attempt_outcome_witness:
  "\<exists>st1. ReportResult (\<lambda>_ _ _. Some) sampleReport (scanTask (beginRow ''w'' 90 10 (taskArgs (sampleTask ''a'')))) False '''' ''boom'' ''''
     \<lparr>co_db = runOps [OpBegin sampleCall ''a'' ''w'' 90] sampleDb, co_q = emptyRedis\<rparr> = Some ([], st1) \<and>
     waiting (co_q st1) WaitRetry ''a'' = Some (UnixMilli (20 + 5 * Second))"
proof -
  let ?t = "scanTask (beginRow ''w'' 90 10 (taskArgs (sampleTask ''a'')))"
  let ?st = "\<lparr>co_db = runOps [OpBegin sampleCall ''a'' ''w'' 90] sampleDb, co_q = emptyRedis\<rparr>"
  have n: "NextDelay (t_RetryPolicy ?t) (t_Attempts ?t) (re_now sampleReport) = Inr 5" by code_simp
  have l: "lookupRow c_id (t_ID ?t) (tasks (co_db ?st)) = Some (beginRow ''w'' 90 10 (taskArgs (sampleTask ''a'')))" by code_simp
  have m: "t_Attempts ?t \<le> t_MaxRetries ?t" "t_ID ?t = ''a''" by (simp_all add: sampleTask_def)
  have z: "re_now2 sampleReport = 20" "k_fault (re_complete sampleReport) = None" "re_queue sampleReport = None"
    by (simp_all add: sampleReport_def sampleCall_def)
  show ?thesis
    using failed_attempt_outcome [of ?st ?t "beginRow ''w'' 90 10 (taskArgs (sampleTask ''a''))" sampleReport "\<lambda>_ _ _. Some" "''''" "''boom''" "''''"]
      redis_inv_empty n l m z by (auto simp: zeroTime_def)
qed

end
