(* ===== verification/Dag_Validate.thy ===== *)
theory Dag_Validate
  imports Domain "HOL-Library.Multiset"
begin

text \<open>
  \<open>internal/orchestration/validate.go\<close>: the checks on a DAG definition and Kahn's algorithm,
  layer by layer. \<open>indeg\<close> is a Go map that the code ranges over, so it is an association list;
  \<open>children\<close> is only looked up, so it is a function. The theory shows that \<open>Validate\<close> returns
  layers exactly when the definition is well formed and its dependencies have no cycle, and
  that the layers are a topological order of the nodes.
\<close>

section \<open>The checks\<close>

fun collectIDs :: "DAGNodeDef list \<Rightarrow> string list \<Rightarrow> string list res" where
  "collectIDs [] seen = Inr seen"
| "collectIDs (n # ns) seen =
     (if nd_ID n = '''' then Inl (ValidationError ''node id is required'')
      else if nd_ID n \<in> set seen then Inl (ValidationError (''duplicate node id: '' @ nd_ID n))
      else collectIDs ns (seen @ [nd_ID n]))"

type_synonym children = "string \<Rightarrow> string list"
type_synonym indegs = "(string, int) amap"

fun linkDeps :: "string list \<Rightarrow> string \<Rightarrow> string list \<Rightarrow> children \<Rightarrow> children res" where
  "linkDeps ids nid [] ch = Inr ch"
| "linkDeps ids nid (d # ds) ch =
     (if d \<notin> set ids then Inl (ValidationError (''node '' @ nid @ '' depends on unknown node '' @ d))
      else linkDeps ids nid ds (ch(d := ch d @ [nid])))"

fun linkNodes :: "string list \<Rightarrow> DAGNodeDef list \<Rightarrow> indegs \<Rightarrow> children \<Rightarrow> (indegs \<times> children) res" where
  "linkNodes ids [] m ch = Inr (m, ch)"
| "linkNodes ids (n # ns) m ch =
     (case linkDeps ids (nd_ID n) (nd_Dependencies n) ch of
        Inl e \<Rightarrow> Inl e
      | Inr ch' \<Rightarrow> linkNodes ids ns (aput (nd_ID n) (int (length (nd_Dependencies n))) m) ch')"

section \<open>Kahn's algorithm\<close>

text \<open>The insertion sort of the ids: each one sinks into the sorted prefix, held reversed.\<close>

fun sinkRev :: "string \<Rightarrow> string list \<Rightarrow> string list" where
  "sinkRev x [] = [x]"
| "sinkRev x (y # ys) = (if y > x then y # sinkRev x ys else x # y # ys)"

definition sortedIDs :: "string list \<Rightarrow> string list" where
  "sortedIDs ids = rev (fold sinkRev ids [])"

definition indegOf :: "indegs \<Rightarrow> string \<Rightarrow> int" where
  "indegOf m x = (case map_of m x of None \<Rightarrow> 0 | Some d \<Rightarrow> d)"

text \<open>The loop over the children of one node: decrement, and collect those that reach zero.\<close>

fun relax :: "string list \<Rightarrow> indegs \<times> string list \<Rightarrow> indegs \<times> string list" where
  "relax [] st = st"
| "relax (c # cs) (m, nx) =
     (let m' = aput c (indegOf m c - 1) m
      in relax cs (m', if indegOf m' c = 0 then nx @ [c] else nx))"

fun doLayer :: "children \<Rightarrow> string list \<Rightarrow> int \<times> indegs \<times> string list \<Rightarrow> int \<times> indegs \<times> string list" where
  "doLayer ch [] st = st"
| "doLayer ch (i # is) (r, m, nx) =
     (case relax (ch i) (m, nx) of (m', nx') \<Rightarrow> doLayer ch is (r - 1, m', nx'))"

definition posCount :: "indegs \<Rightarrow> nat" where
  "posCount m = length (filter (\<lambda>e. snd e > 0) m)"

lemma indegOf_aput [simp]: "indegOf (aput c v m) x = (if x = c then v else indegOf m x)"
  by (simp add: indegOf_def)

lemma posCount_aput:
  "posCount (aput c (indegOf m c - 1) m) + (if indegOf m c - 1 = 0 then 1 else 0) \<le> posCount m"
proof (induction m)
  case Nil
  then show ?case by (simp add: posCount_def indegOf_def)
next
  case (Cons e m)
  then show ?case by (cases e) (auto simp: posCount_def indegOf_def split: option.splits)
qed

lemma relax_pos: "relax cs (m, nx) = (m', nx') \<Longrightarrow> length nx' + posCount m' \<le> length nx + posCount m"
proof (induction cs arbitrary: m nx)
  case Nil
  then show ?case by simp
next
  case (Cons c cs)
  let ?m = "aput c (indegOf m c - 1) m" and ?nx = "if indegOf m c - 1 = 0 then nx @ [c] else nx"
  from Cons.prems have "relax cs (?m, ?nx) = (m', nx')" by (simp add: Let_def)
  from Cons.IH [OF this] show ?case using posCount_aput [of c m] by (simp split: if_splits)
qed

lemma doLayer_pos: "doLayer ch is (r, m, nx) = (r', m', nx') \<Longrightarrow> length nx' + posCount m' \<le> length nx + posCount m"
proof (induction "is" arbitrary: r m nx)
  case Nil
  then show ?case by simp
next
  case (Cons i "is")
  obtain m1 nx1 where 1: "relax (ch i) (m, nx) = (m1, nx1)" by fastforce
  with Cons.prems have "doLayer ch is (r - 1, m1, nx1) = (r', m', nx')" by simp
  from Cons.IH [OF this] relax_pos [OF 1] show ?case by simp
qed

lemma sinkRev_mset [simp]: "mset (sinkRev x ys) = add_mset x (mset ys)"
  by (induction ys) auto

lemma fold_sinkRev_mset [simp]: "mset (fold sinkRev xs ys) = mset xs + mset ys"
  by (induction xs arbitrary: ys) auto

lemma mset_sortedIDs [simp]: "mset (sortedIDs ids) = mset ids"
  by (simp add: sortedIDs_def)

lemma length_sortedIDs [simp]: "length (sortedIDs ids) = length ids"
  using mset_sortedIDs [of ids] by (metis size_mset)

function kahn :: "children \<Rightarrow> string list \<Rightarrow> int \<Rightarrow> indegs \<Rightarrow> string list list \<Rightarrow> string list list \<times> int \<times> indegs" where
  "kahn ch frontier r m layers =
     (if frontier = [] then (layers, r, m)
      else (case doLayer ch frontier (r, m, []) of
              (r', m', nx) \<Rightarrow> kahn ch (sortedIDs nx) r' m' (layers @ [frontier])))"
  by pat_completeness auto
termination
  by (relation "measure (\<lambda>(ch, frontier, r, m, layers). posCount m + length frontier)")
    (auto dest!: doLayer_pos [OF sym] simp flip: length_greater_0_conv)

declare kahn.simps [simp del]

definition Validate :: "DAGDef \<Rightarrow> string list list res" where
  "Validate def =
     (if dd_Nodes def = [] then Inl (ValidationError ''DAG has no nodes'')
      else (case collectIDs (dd_Nodes def) [] of
              Inl e \<Rightarrow> Inl e
            | Inr ids \<Rightarrow>
                (case linkNodes ids (dd_Nodes def) [] (\<lambda>_. []) of
                   Inl e \<Rightarrow> Inl e
                 | Inr (indeg, ch) \<Rightarrow>
                     (case kahn ch (sortedIDs (map fst (filter (\<lambda>e. snd e = 0) indeg))) (int (length indeg)) indeg [] of
                        (layers, remaining, indeg') \<Rightarrow>
                          if remaining > 0 then Inl (CycleError (map fst (filter (\<lambda>e. snd e > 0) indeg')))
                          else Inr layers))))"

definition HasCycle :: "DAGDef \<Rightarrow> bool \<times> string list" where
  "HasCycle def = (case Validate def of Inl (CycleError c) \<Rightarrow> (True, c) | _ \<Rightarrow> (False, []))"

section \<open>What the checks compute\<close>

lemma set_sortedIDs [simp]: "set (sortedIDs ids) = set ids"
  by (metis mset_sortedIDs set_mset_mset)

lemma distinct_sortedIDs [simp]: "distinct (sortedIDs ids) = distinct ids"
  by (metis mset_sortedIDs mset_eq_imp_distinct_iff)

lemma sorted_sinkRev: "sorted (rev ys) \<Longrightarrow> sorted (rev (sinkRev x ys))"
proof (induction ys)
  case Nil
  then show ?case by simp
next
  case (Cons y ys)
  have "set (sinkRev x ys) = insert x (set ys)" by (metis set_mset_add_mset_insert set_mset_mset sinkRev_mset)
  then show ?case using Cons by (auto simp: sorted_append)
qed

lemma sortedIDs_sort: "sortedIDs ids = sort ids"
proof -
  have "sorted (rev ys) \<Longrightarrow> sorted (rev (fold sinkRev xs ys))" for xs ys
    by (induction xs arbitrary: ys) (auto simp: sorted_sinkRev)
  then have "sorted (sortedIDs ids)" by (simp add: sortedIDs_def)
  then show ?thesis by (metis mset_sortedIDs properties_for_sort)
qed

definition depsOf :: "DAGNodeDef list \<Rightarrow> string \<Rightarrow> string list" where
  "depsOf ns x = (case lookupRow nd_ID x ns of None \<Rightarrow> [] | Some n \<Rightarrow> nd_Dependencies n)"

definition childOf :: "DAGNodeDef list \<Rightarrow> children" where
  "childOf ns i = concat (map (\<lambda>n. replicate (count_list (nd_Dependencies n) i) (nd_ID n)) ns)"

text \<open>Well-formedness of the nodes: ids present and unique, dependencies known.\<close>

definition wf_nodes :: "DAGNodeDef list \<Rightarrow> bool" where
  "wf_nodes ns \<longleftrightarrow> ns \<noteq> [] \<and> '''' \<notin> nd_ID ` set ns \<and> distinct (map nd_ID ns) \<and>
     (\<forall>n \<in> set ns. set (nd_Dependencies n) \<subseteq> nd_ID ` set ns)"

definition isCycleError :: "err \<Rightarrow> bool" where
  "isCycleError e = (case e of CycleError c \<Rightarrow> True | _ \<Rightarrow> False)"

lemma depsOf_known:
  assumes "wf_nodes ns"
  shows "set (depsOf ns x) \<subseteq> nd_ID ` set ns"
proof (cases "lookupRow nd_ID x ns")
  case (Some n)
  then have "n \<in> set ns" using lookupRow_Some by fastforce
  then show ?thesis using assms Some by (simp add: depsOf_def wf_nodes_def)
qed (simp add: depsOf_def)

lemma collectIDs_ok: "collectIDs ns seen = Inr ids \<longleftrightarrow> ids = seen @ map nd_ID ns \<and> '''' \<notin> nd_ID ` set ns \<and>
  distinct (map nd_ID ns) \<and> set seen \<inter> nd_ID ` set ns = {}"
  by (induction ns arbitrary: seen) auto

lemma collectIDs_err: "collectIDs ns seen = Inl e \<Longrightarrow> \<not> isCycleError e"
  by (induction ns arbitrary: seen) (auto simp: isCycleError_def split: if_splits)

lemma linkDeps_ok: "linkDeps ids nid ds ch = Inr ch' \<longleftrightarrow> set ds \<subseteq> set ids \<and>
  ch' = (\<lambda>x. ch x @ replicate (count_list ds x) nid)"
proof (induction ds arbitrary: ch)
  case Nil
  then show ?case by auto
next
  case (Cons d ds)
  have "(\<lambda>x. (ch(d := ch d @ [nid])) x @ replicate (count_list ds x) nid) =
      (\<lambda>x. ch x @ replicate (count_list (d # ds) x) nid)"
    by (rule ext) (auto simp: replicate_append_same [symmetric])
  then show ?case by (simp add: Cons)
qed

lemma linkDeps_err: "linkDeps ids nid ds ch = Inl e \<Longrightarrow> \<not> isCycleError e"
  by (induction ds arbitrary: ch) (auto simp: isCycleError_def split: if_splits)

lemma linkNodes_err: "linkNodes ids ns m ch = Inl e \<Longrightarrow> \<not> isCycleError e"
  by (induction ns arbitrary: m ch) (auto split: sum.splits dest: linkDeps_err)

lemma linkNodes_ok:
  "linkNodes ids ns m ch = Inr (m', ch') \<longleftrightarrow> (\<forall>n \<in> set ns. set (nd_Dependencies n) \<subseteq> set ids) \<and>
    m' = fold (\<lambda>n. aput (nd_ID n) (int (length (nd_Dependencies n)))) ns m \<and> ch' = (\<lambda>x. ch x @ childOf ns x)"
proof (induction ns arbitrary: m ch)
  case Nil
  then show ?case by (auto simp: childOf_def)
next
  case (Cons n ns)
  show ?case
  proof (cases "linkDeps ids (nd_ID n) (nd_Dependencies n) ch")
    case (Inl e)
    then have "\<not> set (nd_Dependencies n) \<subseteq> set ids"
      using linkDeps_ok [of ids "nd_ID n" "nd_Dependencies n" ch] by auto
    then show ?thesis using Inl by simp
  next
    case (Inr ch1)
    then show ?thesis using linkDeps_ok [of ids "nd_ID n" "nd_Dependencies n" ch ch1]
      by (auto simp: Cons childOf_def)
  qed
qed

lemma fold_aput_new:
  "distinct (map k ns) \<Longrightarrow> fst ` set m \<inter> k ` set ns = {} \<Longrightarrow>
    fold (\<lambda>n. aput (k n) (g n)) ns m = m @ map (\<lambda>n. (k n, g n)) ns"
  by (induction ns arbitrary: m) (auto simp: aput_new)

lemma count_childOf: "distinct (map nd_ID ns) \<Longrightarrow> count_list (childOf ns i) x = count_list (depsOf ns x) i"
proof (induction ns)
  case Nil
  then show ?case by (simp add: childOf_def depsOf_def)
next
  case (Cons n ns)
  have c: "childOf (n # ns) i = replicate (count_list (nd_Dependencies n) i) (nd_ID n) @ childOf ns i"
    by (simp add: childOf_def)
  have rep: "count_list (replicate k y) z = (if y = z then k else 0)" for k and y z :: string
    by (induction k) auto
  have "lookupRow nd_ID (nd_ID n) ns = None" using Cons.prems by (auto simp: lookupRow_None)
  then have z: "depsOf ns (nd_ID n) = []" by (simp add: depsOf_def)
  have "depsOf (n # ns) x = (if x = nd_ID n then nd_Dependencies n else depsOf ns x)" by (simp add: depsOf_def)
  then show ?case using Cons z by (cases "x = nd_ID n") (simp_all add: c rep)
qed

section \<open>What a layer does\<close>

lemma relax_append: "relax (xs @ ys) st = relax ys (relax xs st)"
proof (induction xs arbitrary: st)
  case (Cons x xs)
  then show ?case by (cases st) (simp add: Let_def)
qed simp

lemma doLayer_eq: "doLayer ch is (r, m, nx) = (r - int (length is), relax (concat (map ch is)) (m, nx))"
proof (induction "is" arbitrary: r m nx)
  case (Cons i "is")
  obtain m1 nx1 where "relax (ch i) (m, nx) = (m1, nx1)" by fastforce
  then show ?case using Cons by (simp add: relax_append)
qed simp

lemma keys_aput_same: "c \<in> fst ` set m \<Longrightarrow> map fst (aput c v m) = map fst m"
  by (induction m) auto

lemma relax_spec:
  assumes "relax cs (m, nx) = (m', nx')" "set cs \<subseteq> fst ` set m" "distinct nx" "\<forall>x \<in> set nx. indegOf m x \<le> 0"
  shows "map fst m' = map fst m \<and> (\<forall>x. indegOf m' x = indegOf m x - int (count_list cs x)) \<and> distinct nx' \<and>
    set nx' = set nx \<union> {x. 1 \<le> indegOf m x \<and> indegOf m x \<le> int (count_list cs x)}"
  using assms
proof (induction cs arbitrary: m nx)
  case Nil
  then show ?case by auto
next
  case (Cons c cs)
  let ?m = "aput c (indegOf m c - 1) m" and ?nx = "if indegOf m c = 1 then nx @ [c] else nx"
  have k: "map fst ?m = map fst m" using Cons.prems(2) by (simp add: keys_aput_same)
  then have ks: "fst ` set ?m = fst ` set m" by (metis list.set_map)
  have r: "relax cs (?m, ?nx) = (m', nx')" using Cons.prems(1) by (simp add: Let_def)
  have "distinct ?nx" "\<forall>x \<in> set ?nx. indegOf ?m x \<le> 0" using Cons.prems(3,4) by auto
  from Cons.IH [OF r _ this] Cons.prems(2) ks k
  have ih: "map fst m' = map fst m" "\<forall>x. indegOf m' x = indegOf ?m x - int (count_list cs x)" "distinct nx'"
    "set nx' = set ?nx \<union> {x. 1 \<le> indegOf ?m x \<and> indegOf ?m x \<le> int (count_list cs x)}" by auto
  have "set ?nx \<union> {x. 1 \<le> indegOf ?m x \<and> indegOf ?m x \<le> int (count_list cs x)} =
      set nx \<union> {x. 1 \<le> indegOf m x \<and> indegOf m x \<le> int (count_list (c # cs) x)}"
    by (auto split: if_splits)
  then show ?case using ih by simp
qed

lemma count_concat_children:
  assumes "distinct (map nd_ID ns)" "distinct L"
  shows "count_list (concat (map (childOf ns) L)) x = length (filter (\<lambda>d. d \<in> set L) (depsOf ns x))"
  using assms(2)
proof (induction L)
  case Nil
  then show ?case by simp
next
  case (Cons i L)
  have "length (filter (\<lambda>d. d = i \<or> d \<in> set L) ds) = count_list ds i + length (filter (\<lambda>d. d \<in> set L) ds)"
    if "i \<notin> set L" for ds using that by (induction ds) auto
  then show ?case using Cons by (simp add: count_childOf [OF assms(1)])
qed

section \<open>The invariant of the search\<close>

lemma in_concat_nth: "x \<in> set (concat ls) \<Longrightarrow> \<exists>i < length ls. x \<in> set (ls ! i)"
  by (metis UN_E in_set_conv_nth set_concat)

lemma in_concat_take: "x \<in> set (concat (take i ls)) \<Longrightarrow> \<exists>j < length ls. j < i \<and> x \<in> set (ls ! j)"
  using in_concat_nth [of x "take i ls"] by auto

text \<open>Every dependency of a node of a layer lies in an earlier layer.\<close>

definition layered :: "DAGNodeDef list \<Rightarrow> string list list \<Rightarrow> bool" where
  "layered ns ls \<longleftrightarrow> (\<forall>i < length ls. \<forall>x \<in> set (ls ! i). set (depsOf ns x) \<subseteq> set (concat (take i ls)))"

definition kahn_inv :: "DAGNodeDef list \<Rightarrow> string list \<Rightarrow> int \<Rightarrow> indegs \<Rightarrow> string list list \<Rightarrow> bool" where
  "kahn_inv ns fr r m ls \<longleftrightarrow>
     map fst m = map nd_ID ns \<and>
     (\<forall>x \<in> nd_ID ` set ns. indegOf m x = int (length (filter (\<lambda>d. d \<notin> set (concat ls)) (depsOf ns x)))) \<and>
     distinct (concat ls @ fr) \<and> set (concat ls) \<subseteq> nd_ID ` set ns \<and>
     set fr = {x \<in> nd_ID ` set ns. x \<notin> set (concat ls) \<and> indegOf m x = 0} \<and>
     r = int (length ns) - int (length (concat ls)) \<and> layered ns ls"

lemma layered_dep:
  "layered ns ls \<Longrightarrow> i < length ls \<Longrightarrow> x \<in> set (ls ! i) \<Longrightarrow> d \<in> set (depsOf ns x) \<Longrightarrow> d \<in> set (concat (take i ls))"
  unfolding layered_def by blast

lemma layered_done:
  assumes "layered ns ls" "x \<in> set (concat ls)"
  shows "set (depsOf ns x) \<subseteq> set (concat ls)"
proof
  fix d
  assume d: "d \<in> set (depsOf ns x)"
  from in_concat_nth [OF assms(2)] obtain i where "i < length ls" "x \<in> set (ls ! i)" by blast
  then have "d \<in> set (concat (take i ls))" using layered_dep [OF assms(1)] d by blast
  then have "d \<in> set (concat (take i ls) @ concat (drop i ls))" by simp
  then show "d \<in> set (concat ls)" by (metis append_take_drop_id concat_append)
qed

lemma layered_snoc: "layered ns ls \<Longrightarrow> (\<And>x. x \<in> set fr \<Longrightarrow> set (depsOf ns x) \<subseteq> set (concat ls)) \<Longrightarrow> layered ns (ls @ [fr])"
  by (auto simp: layered_def nth_append less_Suc_eq)

lemma set_childOf: "wf_nodes ns \<Longrightarrow> set (childOf ns i) \<subseteq> nd_ID ` set ns"
  by (auto simp: childOf_def)

lemma length_filter_split:
  "length (filter (\<lambda>d. d \<notin> A) ds) = length (filter (\<lambda>d. d \<notin> A \<and> d \<in> B) ds) + length (filter (\<lambda>d. d \<notin> A \<union> B) ds)"
  by (induction ds) auto

lemma kahn_invD:
  assumes "kahn_inv ns fr r m ls"
  shows "map fst m = map nd_ID ns" "distinct (concat ls)" "set (concat ls) \<subseteq> nd_ID ` set ns" "layered ns ls"
    "r = int (length ns) - int (length (concat ls))"
    "x \<in> nd_ID ` set ns \<Longrightarrow> indegOf m x = int (length (filter (\<lambda>d. d \<notin> set (concat ls)) (depsOf ns x)))"
    "x \<in> set fr \<longleftrightarrow> x \<in> nd_ID ` set ns \<and> x \<notin> set (concat ls) \<and> indegOf m x = 0"
  using assms by (auto simp: kahn_inv_def)

lemma kahn_inv_distinct: "kahn_inv ns fr r m ls \<Longrightarrow> distinct (concat ls @ fr)"
  unfolding kahn_inv_def by blast

text \<open>The nodes with an in-degree left are those neither layered nor in the frontier.\<close>

lemma kahn_positive:
  assumes "kahn_inv ns fr r m ls"
  shows "0 < indegOf m x \<longleftrightarrow> x \<in> nd_ID ` set ns \<and> x \<notin> set (concat ls) \<and> x \<notin> set fr"
proof (cases "x \<in> nd_ID ` set ns")
  case True
  have "indegOf m x = 0" if "x \<in> set (concat ls)"
  proof -
    have "filter (\<lambda>d. d \<notin> set (concat ls)) (depsOf ns x) = []"
      using layered_done [OF kahn_invD(4) [OF assms] that] by (simp only: filter_empty_conv) blast
    then show ?thesis using kahn_invD(6) [OF assms True] by simp
  qed
  moreover have "0 \<le> indegOf m x" using kahn_invD(6) [OF assms True] by simp
  ultimately show ?thesis using True kahn_invD(7) [OF assms, of x] by (auto simp: order_less_le)
next
  case False
  then have "x \<notin> fst ` set m" using kahn_invD(1) [OF assms] by (metis list.set_map)
  then have "map_of m x = None" by (simp add: map_of_eq_None_iff)
  then show ?thesis using False by (simp add: indegOf_def)
qed

lemma frontier_deps_done:
  assumes "kahn_inv ns fr r m ls" "x \<in> set fr"
  shows "set (depsOf ns x) \<subseteq> set (concat ls)"
  using kahn_invD(6,7) [OF assms(1), of x] assms(2) by (auto simp: filter_empty_conv)

text \<open>A layer lowers the in-degrees by the dependencies it satisfies.\<close>

lemma layer_indegs:
  assumes wf: "wf_nodes ns" and inv: "kahn_inv ns fr r m ls"
    and rel: "relax (concat (map (childOf ns) fr)) (m, []) = (m', nx)"
  shows "map fst m' = map fst m" "distinct nx"
    "x \<in> nd_ID ` set ns \<Longrightarrow> indegOf m' x = int (length (filter (\<lambda>d. d \<notin> set (concat (ls @ [fr]))) (depsOf ns x)))"
    "x \<in> set nx \<longleftrightarrow> 0 < indegOf m x \<and> indegOf m' x \<le> 0"
proof -
  let ?cs = "concat (map (childOf ns) fr)"
  have "set ?cs \<subseteq> nd_ID ` set ns" using set_childOf [OF wf] by auto
  then have "set ?cs \<subseteq> fst ` set m" using kahn_invD(1) [OF inv] by (metis list.set_map)
  from relax_spec [OF rel this] have sp: "map fst m' = map fst m" "\<And>x. indegOf m' x = indegOf m x - int (count_list ?cs x)"
    "distinct nx" "set nx = {x. 1 \<le> indegOf m x \<and> indegOf m x \<le> int (count_list ?cs x)}" by simp_all
  show "map fst m' = map fst m" "distinct nx" by (rule sp)+
  show "x \<in> set nx \<longleftrightarrow> 0 < indegOf m x \<and> indegOf m' x \<le> 0" using sp(2,4) by auto
  note dist = kahn_inv_distinct [OF inv]
  have "filter (\<lambda>d. d \<notin> set (concat ls) \<and> d \<in> set fr) (depsOf ns x) = filter (\<lambda>d. d \<in> set fr) (depsOf ns x)"
    using dist by (intro filter_cong) auto
  then have "count_list ?cs x = length (filter (\<lambda>d. d \<notin> set (concat ls) \<and> d \<in> set fr) (depsOf ns x))"
    using count_concat_children [of ns fr x] wf dist by (simp add: wf_nodes_def)
  then show "indegOf m' x = int (length (filter (\<lambda>d. d \<notin> set (concat (ls @ [fr]))) (depsOf ns x)))" if "x \<in> nd_ID ` set ns"
    using kahn_invD(6) [OF inv that] sp(2) [of x] length_filter_split [of "set (concat ls)" "depsOf ns x" "set fr"] by simp
qed

lemma kahn_inv_step:
  assumes wf: "wf_nodes ns" and inv: "kahn_inv ns fr r m ls" and "fr \<noteq> []"
    and step: "doLayer (childOf ns) fr (r, m, []) = (r', m', nx)"
  shows "kahn_inv ns (sortedIDs nx) r' m' (ls @ [fr])"
proof -
  have rel: "relax (concat (map (childOf ns) fr)) (m, []) = (m', nx)" and r': "r' = r - int (length fr)"
    using step by (simp_all add: doLayer_eq)
  note l = layer_indegs [OF wf inv rel]
  have "0 \<le> indegOf m' x" if "x \<in> nd_ID ` set ns" for x using l(3) [OF that] by simp
  then have nx: "set nx = {x \<in> nd_ID ` set ns. x \<notin> set (concat (ls @ [fr])) \<and> indegOf m' x = 0}"
    using l(4) kahn_positive [OF inv] by fastforce
  have "distinct (concat (ls @ [fr]) @ sortedIDs nx)" using kahn_inv_distinct [OF inv] l(2) nx by auto
  moreover have "set (concat (ls @ [fr])) \<subseteq> nd_ID ` set ns" using kahn_invD(3,7) [OF inv] by auto
  moreover have "r' = int (length ns) - int (length (concat (ls @ [fr])))" using kahn_invD(5) [OF inv] r' by simp
  ultimately show ?thesis unfolding kahn_inv_def
    using kahn_invD(1) [OF inv] l(1,3) nx layered_snoc [OF kahn_invD(4) [OF inv] frontier_deps_done [OF inv]] by simp
qed

lemma kahn_final:
  assumes "wf_nodes ns" "kahn_inv ns fr r m ls" "kahn (childOf ns) fr r m ls = (ls', r', m')"
  shows "kahn_inv ns [] r' m' ls'"
  using assms(2,3)
proof (induction "childOf ns" fr r m ls rule: kahn.induct)
  case (1 fr r m ls)
  show ?case
  proof (cases "fr = []")
    case True
    then show ?thesis using 1(2,3) by (simp add: kahn.simps [of _ "[]"])
  next
    case False
    obtain r1 m1 nx where st: "doLayer (childOf ns) fr (r, m, []) = (r1, m1, nx)" by (cases "doLayer (childOf ns) fr (r, m, [])") auto
    then have "kahn (childOf ns) (sortedIDs nx) r1 m1 (ls @ [fr]) = (ls', r', m')"
      using 1(3) False by (simp add: kahn.simps [of _ fr])
    then show ?thesis using 1(1) [OF False st [symmetric] refl kahn_inv_step [OF assms(1) 1(2) False st]] by simp
  qed
qed

section \<open>Layers and cycles\<close>

definition depRel :: "DAGNodeDef list \<Rightarrow> (string \<times> string) set" where
  "depRel ns = {(d, x). x \<in> nd_ID ` set ns \<and> d \<in> set (depsOf ns x)}"

lemma finite_depRel: "finite (depRel ns)"
proof -
  have "depRel ns = (\<Union>x \<in> nd_ID ` set ns. set (depsOf ns x) \<times> {x})" by (auto simp: depRel_def)
  then show ?thesis by simp
qed

lemma layered_closed:
  assumes "layered ns ls" "x \<in> set (concat (take i ls))" "(d, x) \<in> depRel ns"
  shows "d \<in> set (concat (take i ls))"
proof -
  obtain j where j: "j < length ls" "j < i" "x \<in> set (ls ! j)"
    using in_concat_take [OF assms(2)] by blast
  then have "d \<in> set (concat (take j ls))"
    using layered_dep [OF assms(1) j(1,3)] assms(3) by (simp add: depRel_def)
  moreover have "take j ls = take j (take i ls)" using j(2) by (simp add: min_def)
  ultimately show ?thesis using set_take_subset [of j "take i ls"] by auto
qed

lemma layered_acyclic:
  assumes "layered ns ls" "distinct (concat ls)" "nd_ID ` set ns \<subseteq> set (concat ls)"
  shows "acyclic (depRel ns)"
proof (rule acyclicI, rule allI, rule notI)
  fix x
  assume "(x, x) \<in> (depRel ns)\<^sup>+"
  then obtain y where y: "(x, y) \<in> (depRel ns)\<^sup>*" "(y, x) \<in> depRel ns" by (metis tranclD2)
  then have "x \<in> set (concat ls)" using assms(3) by (auto simp: depRel_def)
  from in_concat_nth [OF this] obtain i where i: "i < length ls" "x \<in> set (ls ! i)" by blast
  have "y \<in> set (concat (take i ls))" using y(2) layered_dep [OF assms(1) i] by (simp add: depRel_def)
  with y(1) have "x \<in> set (concat (take i ls))"
  proof (induction rule: converse_rtrancl_induct)
    case (step a b)
    then show ?case using layered_closed [OF assms(1)] by blast
  qed
  moreover have "concat ls = concat (take i ls) @ ls ! i @ concat (drop (Suc i) ls)"
    using i(1) by (metis append_take_drop_id concat.simps(2) concat_append Cons_nth_drop_Suc)
  ultimately show False using assms(2) i(2) by auto
qed

lemma stuck_cyclic:
  assumes "R \<noteq> {}" "\<And>x. x \<in> R \<Longrightarrow> \<exists>d \<in> R. (d, x) \<in> depRel ns"
  shows "\<not> acyclic (depRel ns)"
proof
  assume "acyclic (depRel ns)"
  then have "wf (depRel ns)" by (rule finite_acyclic_wf [OF finite_depRel])
  then obtain z where "z \<in> R" "\<And>y. (y, z) \<in> depRel ns \<Longrightarrow> y \<notin> R"
    using assms(1) by (metis ex_in_conv wfE_min)
  then show False using assms(2) by blast
qed

section \<open>The outcome of validation\<close>

definition stuckIDs :: "DAGNodeDef list \<Rightarrow> string list list \<Rightarrow> string set" where
  "stuckIDs ns ls = nd_ID ` set ns - set (concat ls)"

lemma kahn_inv_init:
  assumes "wf_nodes ns"
  defines "m \<equiv> map (\<lambda>n. (nd_ID n, int (length (nd_Dependencies n)))) ns"
  shows "kahn_inv ns (sortedIDs (map fst (filter (\<lambda>e. snd e = 0) m))) (int (length m)) m []"
proof -
  have d: "distinct (map nd_ID ns)" using assms(1) by (simp add: wf_nodes_def)
  have ind: "indegOf m x = int (length (depsOf ns x))" if "x \<in> nd_ID ` set ns" for x
  proof -
    obtain n where n: "n \<in> set ns" "x = nd_ID n" using \<open>x \<in> nd_ID ` set ns\<close> by auto
    have "map_of m x = Some (int (length (nd_Dependencies n)))"
      using n d by (auto simp: m_def o_def intro!: map_of_is_SomeI)
    then show ?thesis using lookupRow_unique [OF d n(1)] n(2) by (simp add: indegOf_def depsOf_def)
  qed
  have "map fst m = map nd_ID ns" by (simp add: m_def)
  moreover have "distinct (map fst (filter (\<lambda>e. snd e = 0) m))" using d by (simp add: m_def distinct_map_filter o_def)
  moreover have "fst ` {e \<in> set m. snd e = 0} = {x \<in> nd_ID ` set ns. indegOf m x = 0}"
  proof -
    have "indegOf m (nd_ID n) = int (length (nd_Dependencies n))" if "n \<in> set ns" for n
      using ind [of "nd_ID n"] that lookupRow_unique [OF d that] by (simp add: depsOf_def)
    then show ?thesis by (force simp: m_def)
  qed
  ultimately show ?thesis by (simp add: kahn_inv_def ind layered_def) (simp add: m_def)
qed

lemma Validate_malformed:
  assumes "\<not> wf_nodes (dd_Nodes def)"
  shows "\<exists>e. Validate def = Inl e \<and> \<not> isCycleError e"
proof -
  let ?ns = "dd_Nodes def"
  consider "?ns = []" | e where "?ns \<noteq> []" "collectIDs ?ns [] = Inl e"
    | e where "?ns \<noteq> []" "collectIDs ?ns [] = Inr (map nd_ID ?ns)" "linkNodes (map nd_ID ?ns) ?ns [] (\<lambda>_. []) = Inl e"
    | m ch where "?ns \<noteq> []" "collectIDs ?ns [] = Inr (map nd_ID ?ns)" "linkNodes (map nd_ID ?ns) ?ns [] (\<lambda>_. []) = Inr (m, ch)"
    using collectIDs_ok [of ?ns "[]"] by (metis append_Nil old.sum.exhaust surj_pair)
  then show ?thesis
  proof cases
    case 1
    then show ?thesis by (simp add: Validate_def isCycleError_def)
  next
    case (2 e)
    then show ?thesis using collectIDs_err [OF 2(2)] by (simp add: Validate_def)
  next
    case (3 e)
    then show ?thesis using linkNodes_err [OF 3(3)] by (simp add: Validate_def)
  next
    case (4 m ch)
    then have "wf_nodes ?ns" by (auto simp: wf_nodes_def collectIDs_ok linkNodes_ok)
    then show ?thesis using assms by simp
  qed
qed

lemma Validate_search:
  assumes "wf_nodes (dd_Nodes def)"
  obtains ls r m where "kahn_inv (dd_Nodes def) [] r m ls"
    "Validate def = (if r > 0 then Inl (CycleError (map fst (filter (\<lambda>e. snd e > 0) m))) else Inr ls)"
proof -
  let ?ns = "dd_Nodes def"
  let ?m = "map (\<lambda>n. (nd_ID n, int (length (nd_Dependencies n)))) ?ns"
  have ids: "collectIDs ?ns [] = Inr (map nd_ID ?ns)" using assms by (simp add: collectIDs_ok wf_nodes_def)
  have link: "linkNodes (map nd_ID ?ns) ?ns [] (\<lambda>_. []) = Inr (?m, childOf ?ns)"
    using assms by (simp add: linkNodes_ok wf_nodes_def fold_aput_new)
  obtain ls r m where k: "kahn (childOf ?ns) (sortedIDs (map fst (filter (\<lambda>e. snd e = 0) ?m))) (int (length ?m)) ?m [] = (ls, r, m)"
    by (cases "kahn (childOf ?ns) (sortedIDs (map fst (filter (\<lambda>e. snd e = 0) ?m))) (int (length ?m)) ?m []") auto
  show thesis by (rule that [OF kahn_final [OF assms kahn_inv_init [OF assms] k]])
    (use assms k in \<open>simp add: Validate_def ids link wf_nodes_def\<close>)
qed

lemma search_stuck:
  assumes "wf_nodes ns" "kahn_inv ns [] r m ls"
  shows "set (map fst (filter (\<lambda>e. snd e > 0) m)) = stuckIDs ns ls" "r > 0 \<longleftrightarrow> stuckIDs ns ls \<noteq> {}"
    "x \<in> stuckIDs ns ls \<Longrightarrow> \<exists>d \<in> stuckIDs ns ls. (d, x) \<in> depRel ns"
proof -
  note i = kahn_invD [OF assms(2)]
  have d: "distinct (map nd_ID ns)" using assms(1) by (simp add: wf_nodes_def)
  then have dm: "distinct (map fst m)" using i(1) by simp
  have "indegOf m (fst e) = snd e" if "e \<in> set m" for e
    using map_of_is_SomeI [OF dm, of "fst e" "snd e"] that by (simp add: indegOf_def)
  then have "filter (\<lambda>e. snd e > 0) m = filter (\<lambda>e. indegOf m (fst e) > 0) m" by (intro filter_cong) auto
  then have "set (map fst (filter (\<lambda>e. snd e > 0) m)) = {x \<in> set (map fst m). indegOf m x > 0}" by auto
  then show "set (map fst (filter (\<lambda>e. snd e > 0) m)) = stuckIDs ns ls"
    unfolding i(1) by (auto simp: kahn_positive [OF assms(2)] stuckIDs_def)
  have card: "card (nd_ID ` set ns) = length ns" "card (set (concat ls)) = length (concat ls)"
    using distinct_card [OF d] distinct_card [OF i(2)] by simp_all
  have "length (concat ls) < length ns \<longleftrightarrow> set (concat ls) \<noteq> nd_ID ` set ns"
    using card psubset_card_mono [of "nd_ID ` set ns" "set (concat ls)"] i(3) by (metis finite_imageI finite_set less_irrefl psubsetI)
  then show "r > 0 \<longleftrightarrow> stuckIDs ns ls \<noteq> {}" using i(3,5) unfolding stuckIDs_def by auto
  show "\<exists>d \<in> stuckIDs ns ls. (d, x) \<in> depRel ns" if "x \<in> stuckIDs ns ls"
  proof -
    have x: "x \<in> nd_ID ` set ns" "0 < indegOf m x" using that kahn_positive [OF assms(2), of x] by (simp_all add: stuckIDs_def)
    then obtain d where "d \<in> set (depsOf ns x)" "d \<notin> set (concat ls)"
      using i(6) [OF x(1)] by (auto simp: filter_empty_conv)
    then show ?thesis using x(1) depsOf_known [OF assms(1), of x] by (auto simp: stuckIDs_def depRel_def)
  qed
qed

text \<open>Validation, in terms of the final state of the search.\<close>

lemma Validate_cases:
  obtains (malformed) e where "Validate def = Inl e" "\<not> isCycleError e" "\<not> wf_nodes (dd_Nodes def)"
  | (layers) ls where "wf_nodes (dd_Nodes def)" "Validate def = Inr ls" "layered (dd_Nodes def) ls"
      "distinct (concat ls)" "set (concat ls) = nd_ID ` set (dd_Nodes def)"
  | (cycle) ls c where "wf_nodes (dd_Nodes def)" "Validate def = Inl (CycleError c)" "layered (dd_Nodes def) ls"
      "set c = stuckIDs (dd_Nodes def) ls" "c \<noteq> []"
      "\<And>x. x \<in> set c \<Longrightarrow> \<exists>d \<in> set c. (d, x) \<in> depRel (dd_Nodes def)"
proof (cases "wf_nodes (dd_Nodes def)")
  case False
  then show thesis using Validate_malformed malformed by blast
next
  case True
  from Validate_search [OF this] obtain ls r m where inv: "kahn_inv (dd_Nodes def) [] r m ls"
    and v: "Validate def = (if r > 0 then Inl (CycleError (map fst (filter (\<lambda>e. snd e > 0) m))) else Inr ls)" .
  note st = search_stuck [OF True inv] and i = kahn_invD [OF inv]
  show thesis
  proof (cases "r > 0")
    case pos: True
    then have vc: "Validate def = Inl (CycleError (map fst (filter (\<lambda>e. snd e > 0) m)))" using v by simp
    have ne: "map fst (filter (\<lambda>e. snd e > 0) m) \<noteq> []" using st(1,2) pos by (metis empty_set)
    show thesis by (rule cycle [OF True vc i(4) st(1) ne]) (unfold st(1), rule st(3))
  next
    case False
    then have "set (concat ls) = nd_ID ` set (dd_Nodes def)" using st(2) i(3) unfolding stuckIDs_def by blast
    then show thesis using layers [OF True _ i(4,2)] v False by simp
  qed
qed

section \<open>Properties\<close>

definition dagNode :: "string \<Rightarrow> string list \<Rightarrow> DAGNodeDef" where
  "dagNode i deps = \<lparr>nd_ID = i, nd_Type = ''email'', nd_Payload = ''{}'', nd_Priority = ''normal'', nd_TimeoutSecs = 60,
     nd_MaxRetries = 0, nd_RetryPolicy = \<lparr>rp_Kind = '''', rp_BaseInterval = 0, rp_MaxRetries = 0, rp_CronExpression = ''''\<rparr>,
     nd_CallbackURL = '''', nd_Dependencies = deps\<rparr>"

definition diamond :: DAGDef where
  "diamond = \<lparr>dd_Name = ''diamond'', dd_FailurePolicy = ''terminate'',
     dd_Nodes = [dagNode ''a'' [], dagNode ''b'' [''a''], dagNode ''c'' [''a''], dagNode ''d'' [''b'', ''c'']]\<rparr>"

text \<open>
  C19: \<open>Validate\<close> accepts a definition exactly when it has nodes, their ids are present and
  unique, every dependency names a node, and the dependencies have no cycle; a well-formed
  definition with a cycle is the one rejected as such.
\<close>

theorem Validate_accepts_iff:
  "((\<exists>layers. Validate def = Inr layers) = (wf_nodes (dd_Nodes def) \<and> acyclic (depRel (dd_Nodes def)))) \<and>
   ((\<exists>c. Validate def = Inl (CycleError c)) = (wf_nodes (dd_Nodes def) \<and> \<not> acyclic (depRel (dd_Nodes def))))"
proof (cases rule: Validate_cases [of "def"])
  case (malformed e)
  then show ?thesis by (auto simp: isCycleError_def)
next
  case (layers ls)
  then show ?thesis using layered_acyclic [of "dd_Nodes def" ls] by auto
next
  case (cycle ls c)
  have "\<not> acyclic (depRel (dd_Nodes def))"
    by (rule stuck_cyclic [of "set c"]) (use cycle in auto)
  then show ?thesis using cycle by auto
qed

text \<open>
  C20: the layers \<open>Validate\<close> returns hold every node exactly once, and every dependency of a
  node lies in an earlier layer than the node.
\<close>

theorem Validate_topological:
  assumes "Validate def = Inr layers"
  shows "distinct (concat layers) \<and> set (concat layers) = nd_ID ` set (dd_Nodes def) \<and>
    (\<forall>i < length layers. \<forall>x \<in> set (layers ! i). set (depsOf (dd_Nodes def) x) \<subseteq> set (concat (take i layers)))"
  using assms by (cases rule: Validate_cases [of "def"]) (simp_all add: layered_def)

theorem Validate_topological_witness:
  "Validate diamond = Inr [[''a''], [''b'', ''c''], [''d'']] \<and> distinct (concat [[''a''], [''b'', ''c''], [''d'']])"
proof -
  have "Validate diamond = Inr [[''a''], [''b'', ''c''], [''d'']]" by code_simp
  then show ?thesis using Validate_topological by blast
qed

end
