(* ===== verification/Orchestration.thy ===== *)
theory Orchestration
  imports Engine Dag_Validate
begin

text \<open>
  \<open>internal/orchestration/engine.go\<close> with the adapters of \<open>internal/runtime\<close> that bind it to
  the task engine (\<open>dagSubmitter\<close>, \<open>linkSubmitter\<close>, \<open>dagHookAdapter\<close>): submitting a DAG,
  launching nodes, and what happens when a node's task ends. A nil dereference panics in Go;
  here it is the result \<open>None\<close>. The answers of the outside world are given per node, by node
  id.
\<close>

section \<open>Submitting the task of a node\<close>

record nodeEnv =
  ne_submit :: submitEnv
  ne_link :: call

definition dagTaskInput :: "DAGNodeDef \<Rightarrow> SubmitInput" where
  "dagTaskInput n =
     \<lparr>si_Type = nd_Type n, si_Payload = nd_Payload n,
      si_Priority = (if nd_Priority n = '''' then PriorityNormal else nd_Priority n), si_IDempotencyKey = '''',
      si_MaxRetries = nd_MaxRetries n, si_TimeoutSeconds = nd_TimeoutSecs n, si_RetryPolicy = nd_RetryPolicy n,
      si_CallbackURL = nd_CallbackURL n, si_ExecuteAfter = None\<rparr>"

definition SubmitDAGTask :: "nodeEnv \<Rightarrow> string \<Rightarrow> string \<Rightarrow> DAGNodeDef \<Rightarrow> core \<Rightarrow> string res \<times> core" where
  "SubmitDAGTask e dagID nodeID n st =
     (case Submit (ne_submit e) (dagTaskInput n) st of
        (Inl er, st1) \<Rightarrow> (Inl er, st1)
      | (Inr (t, _), st1) \<Rightarrow>
          (case LinkDAGNode (ne_link e) (t_ID t) dagID nodeID (co_db st1) of
             (Inl er, s2) \<Rightarrow> (Inl er, st1\<lparr>co_db := s2\<rparr>)
           | (Inr _, s2) \<Rightarrow> (Inr (t_ID t), st1\<lparr>co_db := s2\<rparr>)))"

section \<open>Launching nodes\<close>

definition nodeDef :: "DAGDef \<Rightarrow> string \<Rightarrow> DAGNodeDef option" where
  "nodeDef def nid = lookupRow nd_ID nid (dd_Nodes def)"

definition runningUpdate :: "string \<Rightarrow> string \<Rightarrow> DAGNodeUpdate" where
  "runningUpdate nid taskID = \<lparr>du_NodeID = nid, du_State = NodeRunning, du_TaskID = taskID, du_Bump = True\<rparr>"

definition stateUpdate :: "string \<Rightarrow> DAGNodeState \<Rightarrow> DAGNodeUpdate" where
  "stateUpdate nid s = \<lparr>du_NodeID = nid, du_State = s, du_TaskID = '''', du_Bump = False\<rparr>"

fun launchLoop :: "(string \<Rightarrow> nodeEnv) \<Rightarrow> DAG \<Rightarrow> string list \<Rightarrow> DAGNodeUpdate list \<Rightarrow> core \<Rightarrow> DAGNodeUpdate list res \<times> core" where
  "launchLoop ne d [] updates st = (Inr updates, st)"
| "launchLoop ne d (nid # nids) updates st =
     (case nodeDef (d_Def d) nid of
        None \<Rightarrow> launchLoop ne d nids updates st
      | Some ndef \<Rightarrow>
          (case SubmitDAGTask (ne nid) (d_ID d) nid ndef st of
             (Inl er, st1) \<Rightarrow> (Inl er, st1)
           | (Inr taskID, st1) \<Rightarrow> launchLoop ne d nids (updates @ [runningUpdate nid taskID]) st1))"

definition launchNodes ::
  "(string \<Rightarrow> nodeEnv) \<Rightarrow> call \<Rightarrow> DAG \<Rightarrow> string list \<Rightarrow> DAGNodeUpdate list \<Rightarrow> core \<Rightarrow> unit res \<times> core" where
  "launchNodes ne c d nids extra st =
     (case launchLoop ne d nids extra st of
        (Inl er, st1) \<Rightarrow> (Inl er, st1)
      | (Inr updates, st1) \<Rightarrow>
          if updates = [] then (Inr (), st1)
          else (case UpdateDAGNodes c (d_ID d) None updates (co_db st1) of
                  (r, s2) \<Rightarrow> (r, st1\<lparr>co_db := s2\<rparr>)))"

record dagEnv =
  de_id :: string
  de_now :: time
  de_create :: call
  de_node :: "string \<Rightarrow> nodeEnv"
  de_update :: call

definition SubmitDAG :: "dagEnv \<Rightarrow> DAGDef \<Rightarrow> core \<Rightarrow> DAG res \<times> core" where
  "SubmitDAG e def0 st =
     (let def = (if dd_FailurePolicy def0 = '''' then def0\<lparr>dd_FailurePolicy := DAGAbort\<rparr> else def0) in
      case Validate def of
        Inl er \<Rightarrow> (Inl er, st)
      | Inr _ \<Rightarrow>
          let d = \<lparr>d_ID = de_id e, d_Name = dd_Name def, d_FailurePolicy = dd_FailurePolicy def,
                   d_Status = DAGRunning, d_Def = def, d_CreatedAt = de_now e, d_FinishedAt = None\<rparr>
          in (case CreateDAG (de_create e) d (co_db st) of
                (Inl er, s1) \<Rightarrow> (Inl er, st\<lparr>co_db := s1\<rparr>)
              | (Inr _, s1) \<Rightarrow>
                  (case launchNodes (de_node e) (de_update e) d
                          (map nd_ID (filter (\<lambda>n. nd_Dependencies n = []) (dd_Nodes def))) [] (st\<lparr>co_db := s1\<rparr>) of
                     (Inl er, st2) \<Rightarrow> (Inl er, st2)
                   | (Inr _, st2) \<Rightarrow> (Inr d, st2))))"

section \<open>Progress\<close>

type_synonym nodeMap = "(string, DAGNode) amap"

definition depsDone :: "nodeMap \<Rightarrow> string list \<Rightarrow> bool" where
  "depsDone byID deps = list_all (\<lambda>dep. case map_of byID dep of
     None \<Rightarrow> False | Some m \<Rightarrow> n_State m = NodeSucceeded \<or> n_State m = NodeSkipped) deps"

fun progressScan :: "DAGNodeDef list \<Rightarrow> nodeMap \<Rightarrow> bool \<times> bool \<Rightarrow> (bool \<times> bool) option" where
  "progressScan [] byID (allDone, anyFailed) = Some (allDone, anyFailed)"
| "progressScan (n # ns) byID (allDone, anyFailed) =
     (case map_of byID (nd_ID n) of
        None \<Rightarrow> None
      | Some m \<Rightarrow> progressScan ns byID
          (allDone \<and> \<not> (n_State m = NodeWaiting \<or> n_State m = NodeReady \<or> n_State m = NodeRunning),
           anyFailed \<or> n_State m = NodeFailed))"

fun readyScan :: "DAGNodeDef list \<Rightarrow> nodeMap \<Rightarrow> string list \<Rightarrow> (string list \<times> nodeMap) option" where
  "readyScan [] byID acc = Some (acc, byID)"
| "readyScan (n # ns) byID acc =
     (case map_of byID (nd_ID n) of
        None \<Rightarrow> None
      | Some m \<Rightarrow>
          if n_State m \<noteq> NodeWaiting then readyScan ns byID acc
          else if depsDone byID (nd_Dependencies n)
          then readyScan ns (aput (nd_ID n) (m\<lparr>n_State := NodeReady\<rparr>) byID) (acc @ [nd_ID n])
          else readyScan ns byID acc)"

definition progress :: "DAG \<Rightarrow> nodeMap \<Rightarrow> (string list \<times> DAGStatus option) option" where
  "progress d byID =
     (case progressScan (dd_Nodes (d_Def d)) byID (True, False) of
        None \<Rightarrow> None
      | Some (allDone, anyFailed) \<Rightarrow>
          (case readyScan (dd_Nodes (d_Def d)) byID [] of
             None \<Rightarrow> None
           | Some (rdy, _) \<Rightarrow>
               Some (rdy, if allDone \<and> rdy = [] then Some (if anyFailed then DAGFailed else DAGSucceeded) else None)))"

section \<open>The end of a node's task\<close>

record termEnv =
  oe_get :: call
  oe_list :: call
  oe_retry :: nodeEnv
  oe_retryUpdate :: call
  oe_update :: call
  oe_launch :: "string \<Rightarrow> nodeEnv"
  oe_launchUpdate :: call

definition retryNode :: "nodeEnv \<Rightarrow> call \<Rightarrow> DAG \<Rightarrow> DAGNode \<Rightarrow> core \<Rightarrow> unit res \<times> core" where
  "retryNode ne c d node st =
     (case nodeDef (d_Def d) (n_NodeID node) of
        None \<Rightarrow> (Inl (ValidationError (''node def missing: '' @ n_NodeID node)), st)
      | Some ndef \<Rightarrow>
          (case SubmitDAGTask ne (d_ID d) (n_NodeID node) ndef st of
             (Inl er, st1) \<Rightarrow> (Inl er, st1)
           | (Inr taskID, st1) \<Rightarrow>
               (case UpdateDAGNodes c (d_ID d) None [runningUpdate (n_NodeID node) taskID] (co_db st1) of
                  (r, s2) \<Rightarrow> (r, st1\<lparr>co_db := s2\<rparr>))))"

text \<open>The default policy: fail the node, skip what has not started, fail the DAG.\<close>

definition abortUpdates :: "DAGNode list \<Rightarrow> string \<Rightarrow> DAGNodeUpdate list" where
  "abortUpdates nodes nid =
     stateUpdate nid NodeFailed #
     map (\<lambda>m. stateUpdate (n_NodeID m) NodeSkipped)
       (filter (\<lambda>m. n_NodeID m \<noteq> nid \<and> (n_State m = NodeWaiting \<or> n_State m = NodeReady)) nodes)"

text \<open>The common tail: record the node's state, conclude the DAG or release its dependents.\<close>

definition advance :: "termEnv \<Rightarrow> DAG \<Rightarrow> nodeMap \<Rightarrow> DAGNode \<Rightarrow> DAGNodeState \<Rightarrow> core \<Rightarrow> core option" where
  "advance e d byID node newState st =
     (case progress d (aput (n_NodeID node) (node\<lparr>n_State := newState\<rparr>) byID) of
        None \<Rightarrow> None
      | Some (rdy, agg) \<Rightarrow>
          (case UpdateDAGNodes (oe_update e) (d_ID d) agg [stateUpdate (n_NodeID node) newState] (co_db st) of
             (Inl er, s1) \<Rightarrow> Some (st\<lparr>co_db := s1\<rparr>)
           | (Inr _, s1) \<Rightarrow>
               if rdy \<noteq> [] \<and> agg = None
               then Some (snd (launchNodes (oe_launch e) (oe_launchUpdate e) d rdy [] (st\<lparr>co_db := s1\<rparr>)))
               else Some (st\<lparr>co_db := s1\<rparr>)))"

definition OnTaskTerminal :: "termEnv \<Rightarrow> Task \<Rightarrow> bool \<Rightarrow> string \<Rightarrow> core \<Rightarrow> core option" where
  "OnTaskTerminal e t succeeded errMsg st =
     (if t_DAGID t = '''' then Some st
      else (case GetDAG (oe_get e) (t_DAGID t) (co_db st) of
              Inl er \<Rightarrow> Some st
            | Inr None \<Rightarrow> Some st
            | Inr (Some d) \<Rightarrow>
                if d_Status d = DAGSucceeded \<or> d_Status d = DAGFailed then Some st
                else (case ListDAGNodes (oe_list e) (d_ID d) (co_db st) of
                        Inl er \<Rightarrow> Some st
                      | Inr nodes \<Rightarrow>
                          let byID = map (\<lambda>n. (n_NodeID n, n)) nodes in
                          (case map_of byID (t_DAGNodeID t) of
                             None \<Rightarrow> Some st
                           | Some node \<Rightarrow>
                               if succeeded then advance e d byID node NodeSucceeded st
                               else if d_FailurePolicy d = DAGSkip then advance e d byID node NodeSkipped st
                               else if d_FailurePolicy d = DAGRetry then
                                 (case retryNode (oe_retry e) (oe_retryUpdate e) d node st of
                                    (Inr _, st1) \<Rightarrow> Some st1
                                  | (Inl er, st1) \<Rightarrow> advance e d byID node NodeFailed st1)
                               else Some (st\<lparr>co_db := snd (UpdateDAGNodes (oe_update e) (d_ID d) (Some DAGFailed)
                                           (abortUpdates nodes (n_NodeID node)) (co_db st))\<rparr>)))))"

definition dagHook :: "termEnv \<Rightarrow> hook" where
  "dagHook e t outcome errMsg = OnTaskTerminal e t (outcome = OutcomeSucceeded) errMsg"

section \<open>The graph view\<close>

record GraphNode =
  gn_ID :: string
  gn_Type :: string
  gn_Priority :: string
  gn_State :: string
  gn_TaskID :: string
  gn_Dependencies :: "string list"
  gn_Successors :: "string list"
  gn_Attempts :: int

record GraphView =
  gv_DAG :: DAG
  gv_Layers :: "string list list"
  gv_Nodes :: "GraphNode list"

definition successors :: "DAGNodeDef list \<Rightarrow> string \<Rightarrow> string list" where
  "successors ns = fold (\<lambda>n succ. fold (\<lambda>dep sc. sc(dep := sc dep @ [nd_ID n])) (nd_Dependencies n) succ) ns (\<lambda>_. [])"

definition graphNode :: "(string, DAGNode) amap \<Rightarrow> (string \<Rightarrow> string list) \<Rightarrow> DAGNodeDef \<Rightarrow> GraphNode" where
  "graphNode stateByID succ n =
     (let g = \<lparr>gn_ID = nd_ID n, gn_Type = nd_Type n, gn_Priority = nd_Priority n, gn_State = '''', gn_TaskID = '''',
               gn_Dependencies = nd_Dependencies n, gn_Successors = succ (nd_ID n), gn_Attempts = 0\<rparr>
      in case map_of stateByID (nd_ID n) of
           None \<Rightarrow> g
         | Some s \<Rightarrow> g\<lparr>gn_State := nodeStateStr (n_State s), gn_TaskID := n_TaskID s, gn_Attempts := n_Attempts s\<rparr>)"

definition BuildGraph :: "DAG \<Rightarrow> DAGNode list \<Rightarrow> GraphView res" where
  "BuildGraph d states =
     (case Validate (d_Def d) of
        Inl e \<Rightarrow> Inl e
      | Inr layers \<Rightarrow>
          let stateByID = fold (\<lambda>s m. aput (n_NodeID s) s m) states []
          in Inr \<lparr>gv_DAG = d, gv_Layers = layers,
                  gv_Nodes = map (graphNode stateByID (successors (dd_Nodes (d_Def d)))) (dd_Nodes (d_Def d))\<rparr>)"

section \<open>The abstract view of a DAG run\<close>

text \<open>
  What matters of the \<open>dag_nodes\<close> rows of one DAG is the state of each node; \<open>nodeStates\<close> is
  that map, and every operation acts on it as a map update.
\<close>

definition nodeStates :: "db \<Rightarrow> string \<Rightarrow> string \<Rightarrow> DAGNodeState option" where
  "nodeStates s dagID nid =
     map_option n_State (lookupRow n_NodeID nid (selectWhere (\<lambda>n. n_DAGID n = dagID) (dag_nodes s)))"

definition absUpdate :: "DAGNodeUpdate \<Rightarrow> (string \<Rightarrow> DAGNodeState option) \<Rightarrow> string \<Rightarrow> DAGNodeState option" where
  "absUpdate u v = v(du_NodeID u := map_option (\<lambda>_. du_State u) (v (du_NodeID u)))"

lemma updateNode_sel [simp]:
  "n_DAGID (updateNode now u n) = n_DAGID n" "n_NodeID (updateNode now u n) = n_NodeID n"
  "n_State (updateNode now u n) = du_State u"
  by (simp_all add: updateNode_def)

lemma nodeStates_applyNodeUpdate:
  "nodeStates (applyNodeUpdate now dagID u s) dagID = absUpdate u (nodeStates s dagID)"
proof -
  have "map_option n_State (lookupRow n_NodeID x (selectWhere (\<lambda>n. n_DAGID n = dagID)
      (updateWhere (\<lambda>n. n_DAGID n = dagID \<and> n_NodeID n = du_NodeID u) (updateNode now u) rows))) =
    (if x = du_NodeID u then map_option (\<lambda>_. du_State u) (map_option n_State (lookupRow n_NodeID x (selectWhere (\<lambda>n. n_DAGID n = dagID) rows)))
     else map_option n_State (lookupRow n_NodeID x (selectWhere (\<lambda>n. n_DAGID n = dagID) rows)))" for x rows
    by (induction rows) auto
  then show ?thesis by (auto simp: nodeStates_def applyNodeUpdate_def absUpdate_def fun_eq_iff)
qed

lemma nodeStates_fold:
  "nodeStates (fold (applyNodeUpdate now dagID) us s) dagID = fold absUpdate us (nodeStates s dagID)"
  by (induction us arbitrary: s) (auto simp: nodeStates_applyNodeUpdate)

lemma nodeStates_cong: "dag_nodes s' = dag_nodes s \<Longrightarrow> nodeStates s' = nodeStates s"
  by (simp add: nodeStates_def fun_eq_iff)

text \<open>The refinement: what updating nodes does to the view and to the DAG's own row.\<close>

lemma UpdateDAGNodes_view:
  assumes "k_fault c = None"
  shows "nodeStates (snd (UpdateDAGNodes c dagID agg us s)) dagID = fold absUpdate us (nodeStates s dagID)"
    and "lookupRow d_ID dagID (dags (snd (UpdateDAGNodes c dagID agg us s))) =
      map_option (\<lambda>d. case agg of None \<Rightarrow> d
        | Some st \<Rightarrow> if st = DAGSucceeded \<or> st = DAGFailed then d\<lparr>d_Status := st, d_FinishedAt := Some (k_dbnow c)\<rparr>
                     else d\<lparr>d_Status := st\<rparr>) (lookupRow d_ID dagID (dags s))"
proof -
  let ?s = "fold (applyNodeUpdate (k_dbnow c) dagID) us s"
  have s': "snd (UpdateDAGNodes c dagID agg us s) = applyAggregate (k_dbnow c) dagID agg ?s"
    by (simp add: UpdateDAGNodes_def withTx_def assms)
  show "nodeStates (snd (UpdateDAGNodes c dagID agg us s)) dagID = fold absUpdate us (nodeStates s dagID)"
    unfolding s' using nodeStates_cong [of "applyAggregate (k_dbnow c) dagID agg ?s" ?s] by (simp add: nodeStates_fold)
  show "lookupRow d_ID dagID (dags (snd (UpdateDAGNodes c dagID agg us s))) =
      map_option (\<lambda>d. case agg of None \<Rightarrow> d
        | Some st \<Rightarrow> if st = DAGSucceeded \<or> st = DAGFailed then d\<lparr>d_Status := st, d_FinishedAt := Some (k_dbnow c)\<rparr>
                     else d\<lparr>d_Status := st\<rparr>) (lookupRow d_ID dagID (dags s))"
    unfolding s'
  proof (cases agg)
    case (Some st)
    have lk: "lookupRow d_ID dagID (updateWhere (\<lambda>d. d_ID d = dagID) f rows) = map_option f (lookupRow d_ID dagID rows)"
      if "\<And>d. d_ID (f d) = d_ID d" for f rows
      using that by (induction rows) auto
    show "lookupRow d_ID dagID (dags (applyAggregate (k_dbnow c) dagID agg ?s)) = map_option (\<lambda>d. case agg of None \<Rightarrow> d
        | Some st \<Rightarrow> if st = DAGSucceeded \<or> st = DAGFailed then d\<lparr>d_Status := st, d_FinishedAt := Some (k_dbnow c)\<rparr>
                     else d\<lparr>d_Status := st\<rparr>) (lookupRow d_ID dagID (dags s))"
      using Some by (simp add: applyAggregate_def lk)
  qed (simp add: applyAggregate_def option.map_ident)
qed

lemma UpdateDAGNodes_fault: "k_fault c = Some e \<Longrightarrow> UpdateDAGNodes c dagID agg us s = (Inl e, s)"
  by (simp add: UpdateDAGNodes_def withTx_def)

lemma UpdateDAGNodes_Inr: "k_fault c = None \<Longrightarrow> \<exists>s'. UpdateDAGNodes c dagID agg us s = (Inr (), s')"
  by (simp add: UpdateDAGNodes_def withTx_def)

text \<open>Submitting tasks leaves the DAG tables alone.\<close>

lemma Submit_frame [simp]:
  "dags (co_db (snd (Submit e i st))) = dags (co_db st)" "dag_nodes (co_db (snd (Submit e i st))) = dag_nodes (co_db st)"
proof -
  have "dags (co_db (snd (submitNew e j st))) = dags (co_db st) \<and> dag_nodes (co_db (snd (submitNew e j st))) = dag_nodes (co_db st)" for j
  proof (cases rule: CreateTask_cases [of "se_create e" "newTask (se_id e) (se_now e) j" "co_db st"])
    case (ok s')
    then show ?thesis by (auto simp: submitNew_def split: prod.splits sum.splits)
  qed (simp add: submitNew_def)
  then show "dags (co_db (snd (Submit e i st))) = dags (co_db st)" "dag_nodes (co_db (snd (Submit e i st))) = dag_nodes (co_db st)"
    by (auto simp: Submit_def Let_def split: sum.splits option.splits)
qed

lemma LinkDAGNode_frame [simp]:
  "dags (snd (LinkDAGNode c i d n s)) = dags s" "dag_nodes (snd (LinkDAGNode c i d n s)) = dag_nodes s"
  by (simp_all add: LinkDAGNode_def withTx_def split: option.splits)

lemma SubmitDAGTask_frame [simp]:
  "dags (co_db (snd (SubmitDAGTask e d n nd st))) = dags (co_db st)"
  "dag_nodes (co_db (snd (SubmitDAGTask e d n nd st))) = dag_nodes (co_db st)"
proof -
  obtain r st1 where s: "Submit (ne_submit e) (dagTaskInput nd) st = (r, st1)" by fastforce
  have st1: "dags (co_db st1) = dags (co_db st)" "dag_nodes (co_db st1) = dag_nodes (co_db st)"
    using Submit_frame [of "ne_submit e" "dagTaskInput nd" st] s by simp_all
  have l: "LinkDAGNode c i d n s' = (x, s2) \<Longrightarrow> dags s2 = dags s' \<and> dag_nodes s2 = dag_nodes s'" for c i s' x s2
    using LinkDAGNode_frame [of c i d n s'] by simp
  show "dags (co_db (snd (SubmitDAGTask e d n nd st))) = dags (co_db st)"
    "dag_nodes (co_db (snd (SubmitDAGTask e d n nd st))) = dag_nodes (co_db st)"
    using st1 by (auto simp: SubmitDAGTask_def s split: sum.splits prod.splits dest: l)
qed

lemma launchLoop_frame:
  "launchLoop ne d nids us st = (r, st') \<Longrightarrow> dags (co_db st') = dags (co_db st) \<and> dag_nodes (co_db st') = dag_nodes (co_db st)"
proof (induction nids arbitrary: us st)
  case Nil
  then show ?case by simp
next
  case (Cons nid nids)
  show ?case
  proof (cases "nodeDef (d_Def d) nid")
    case None
    then show ?thesis using Cons by simp
  next
    case (Some nd)
    obtain x st1 where s: "SubmitDAGTask (ne nid) (d_ID d) nid nd st = (x, st1)" by fastforce
    have "dags (co_db st1) = dags (co_db st)" "dag_nodes (co_db st1) = dag_nodes (co_db st)"
      using SubmitDAGTask_frame [of "ne nid" "d_ID d" nid nd st] s by simp_all
    then show ?thesis using Cons Some s by (cases x) auto
  qed
qed

text \<open>A launch that goes through marks exactly the nodes it was given.\<close>

lemma launchLoop_updates:
  assumes "launchLoop ne d nids us st = (Inr us', st')" "\<And>nid. nid \<in> set nids \<Longrightarrow> nodeDef (d_Def d) nid \<noteq> None"
  shows "\<exists>new. us' = us @ new \<and> map du_NodeID new = nids \<and> (\<forall>u \<in> set new. du_State u = NodeRunning)"
  using assms
proof (induction nids arbitrary: us st)
  case Nil
  then show ?case by simp
next
  case (Cons nid nids)
  obtain nd where nd: "nodeDef (d_Def d) nid = Some nd" using Cons.prems(2) by fastforce
  obtain x st1 where s: "SubmitDAGTask (ne nid) (d_ID d) nid nd st = (x, st1)" by fastforce
  show ?case
  proof (cases x)
    case (Inl e)
    then show ?thesis using Cons.prems(1) nd s by simp
  next
    case (Inr tid)
    then have "launchLoop ne d nids (us @ [runningUpdate nid tid]) st1 = (Inr us', st')" using Cons.prems(1) nd s by simp
    from Cons.IH [OF this] Cons.prems(2) obtain new where
      "us' = (us @ [runningUpdate nid tid]) @ new" "map du_NodeID new = nids" "\<forall>u \<in> set new. du_State u = NodeRunning" by auto
    then show ?thesis by (intro exI [of _ "runningUpdate nid tid # new"]) (simp add: runningUpdate_def)
  qed
qed

text \<open>The task of a launched node: a ready row under the fresh id, linked to the node.\<close>

definition nodeTask :: "(string \<Rightarrow> nodeEnv) \<Rightarrow> string \<Rightarrow> DAGNodeDef \<Rightarrow> TaskRow \<Rightarrow> bool" where
  "nodeTask ne did n r \<longleftrightarrow> c_id r = se_id (ne_submit (ne (nd_ID n))) \<and> c_status r = StatusReady \<and> c_attempts r = 0 \<and>
     c_type r = nd_Type n \<and> c_payload r = nd_Payload n \<and>
     c_priority r = (if nd_Priority n = '''' then PriorityNormal else nd_Priority n) \<and>
     c_dag_id r = did \<and> c_dag_node_id r = nd_ID n"

lemma Submit_redis:
  assumes "redis_inv (co_q st)"
  shows "redis_inv (co_q (snd (Submit e inp st)))"
  using redis_inv_steps(1,2) [OF assms] assms
  by (auto simp: Submit_def submitNew_def Let_def case_prod_beta split: sum.splits option.splits)

lemma SubmitDAGTask_ok:
  assumes q: "redis_inv (co_q st)" and ok: "SubmitDAGTask (ne (nd_ID n)) did (nd_ID n) n st = (Inr tid, st')"
  shows "\<exists>r. tasks (co_db st') = tasks (co_db st) @ [r] \<and> nodeTask ne did n r \<and> tid = c_id r \<and>
    ready (co_q st') = (ready (co_q st))(c_priority r := addTail (c_id r) (ready (co_q st) (c_priority r))) \<and> redis_inv (co_q st')"
proof -
  let ?e = "ne_submit (ne (nd_ID n))"
  obtain t b st1 where s: "Submit ?e (dagTaskInput n) st = (Inr (t, b), st1)"
    and l: "LinkDAGNode (ne_link (ne (nd_ID n))) (t_ID t) did (nd_ID n) (co_db st1) = (Inr (), co_db st')"
    and tid: "tid = t_ID t" and q': "co_q st' = co_q st1"
    using ok by (auto simp: SubmitDAGTask_def split: prod.splits sum.splits)
  have "b = False" using s by (auto simp: Submit_def dagTaskInput_def Let_def submitNew_def split: if_splits prod.splits sum.splits)
  note p = Submit_placed [OF q s [unfolded this]]
  have new: "c_id r \<noteq> t_ID t" if "r \<in> set (tasks (co_db st))" for r using p that by (metis imageI)
  have "tasks (co_db st') = updateWhere (\<lambda>r. c_id r = t_ID t) (\<lambda>r. r\<lparr>c_dag_id := did, c_dag_node_id := nd_ID n\<rparr>) (tasks (co_db st1))"
    using l by (auto simp: LinkDAGNode_def withTx_Inr dest!: sym [of _ "co_db st'"])
  also have "\<dots> = tasks (co_db st) @ [(taskArgs t)\<lparr>c_dag_id := did, c_dag_node_id := nd_ID n\<rparr>]"
    using p new by (simp add: updateWhere_def map_idI)
  finally have ts: "tasks (co_db st') = tasks (co_db st) @ [(taskArgs t)\<lparr>c_dag_id := did, c_dag_node_id := nd_ID n\<rparr>]" .
  have st: "t_Status t = StatusReady" using p by (auto simp: dagTaskInput_def split: TaskStatus.splits)
  have "nodeTask ne did n ((taskArgs t)\<lparr>c_dag_id := did, c_dag_node_id := nd_ID n\<rparr>)"
    using p st by (simp add: nodeTask_def dagTaskInput_def)
  moreover have "redis_inv (co_q st1)" using Submit_redis [OF q, of ?e "dagTaskInput n"] s by simp
  ultimately show ?thesis using ts tid q' p st by (intro exI [of _ "(taskArgs t)\<lparr>c_dag_id := did, c_dag_node_id := nd_ID n\<rparr>"]) simp
qed

lemma launchLoop_submits:
  assumes "launchLoop ne d (map nd_ID ns) us st = (Inr us', st')" "redis_inv (co_q st)"
    "\<And>n. n \<in> set ns \<Longrightarrow> nodeDef (d_Def d) (nd_ID n) = Some n"
  shows "\<exists>rs. tasks (co_db st') = tasks (co_db st) @ rs \<and> list_all2 (nodeTask ne (d_ID d)) ns rs \<and>
    (\<forall>r \<in> set rs. c_id r \<in> set (ready (co_q st') (c_priority r))) \<and> (\<forall>p. set (ready (co_q st) p) \<subseteq> set (ready (co_q st') p))"
  using assms
proof (induction ns arbitrary: us st)
  case (Cons n ns)
  obtain x st1 where s: "SubmitDAGTask (ne (nd_ID n)) (d_ID d) (nd_ID n) n st = (x, st1)" by fastforce
  then obtain tid where x: "x = Inr tid" and l: "launchLoop ne d (map nd_ID ns) (us @ [runningUpdate (nd_ID n) tid]) st1 = (Inr us', st')"
    using Cons.prems(1,3) by (cases x) auto
  obtain r where r: "tasks (co_db st1) = tasks (co_db st) @ [r]" "nodeTask ne (d_ID d) n r"
    "ready (co_q st1) = (ready (co_q st))(c_priority r := addTail (c_id r) (ready (co_q st) (c_priority r)))" "redis_inv (co_q st1)"
    using SubmitDAGTask_ok [where ne = ne, OF Cons.prems(2) s [unfolded x]] by blast
  obtain rs where rs: "tasks (co_db st') = tasks (co_db st1) @ rs" "list_all2 (nodeTask ne (d_ID d)) ns rs"
    "\<forall>r \<in> set rs. c_id r \<in> set (ready (co_q st') (c_priority r))" "\<forall>p. set (ready (co_q st1) p) \<subseteq> set (ready (co_q st') p)"
    using Cons.IH [OF l r(4)] Cons.prems(3) by auto
  have "c_id r \<in> set (ready (co_q st') (c_priority r))" using rs(4) unfolding r(3) by (auto dest!: spec [of _ "c_priority r"])
  moreover have "set (ready (co_q st) p) \<subseteq> set (ready (co_q st') p)" for p
    using rs(4) [rule_format, of p] unfolding r(3) by (auto split: if_splits)
  ultimately show ?case using r rs by (intro exI [of _ "r # rs"]) auto
qed simp

section \<open>Progress in terms of the view\<close>

definition stateIn :: "nodeMap \<Rightarrow> string \<Rightarrow> DAGNodeState option" where
  "stateIn byID x = map_option n_State (map_of byID x)"

definition isDone :: "DAGNodeState option \<Rightarrow> bool" where
  "isDone st \<longleftrightarrow> st = Some NodeSucceeded \<or> st = Some NodeSkipped"

text \<open>The nodes a view releases: waiting, with every dependency succeeded or skipped.\<close>

definition released :: "DAGNodeDef list \<Rightarrow> (string \<Rightarrow> DAGNodeState option) \<Rightarrow> string list" where
  "released ns v = map nd_ID (filter (\<lambda>n. v (nd_ID n) = Some NodeWaiting \<and> (\<forall>dep \<in> set (nd_Dependencies n). isDone (v dep))) ns)"

lemma depsDone_view: "depsDone byID deps \<longleftrightarrow> (\<forall>dep \<in> set deps. isDone (stateIn byID dep))"
  by (auto simp: depsDone_def list_all_iff isDone_def stateIn_def split: option.splits)

lemma stateIn_aput [simp]: "stateIn (aput x m byID) y = (if y = x then Some (n_State m) else stateIn byID y)"
  by (simp add: stateIn_def)

lemma progressScan_view:
  "(\<And>n. n \<in> set ns \<Longrightarrow> stateIn byID (nd_ID n) \<noteq> None) \<Longrightarrow> progressScan ns byID (a, b) =
     Some (a \<and> (\<forall>n \<in> set ns. stateIn byID (nd_ID n) \<notin> {Some NodeWaiting, Some NodeReady, Some NodeRunning}),
           b \<or> (\<exists>n \<in> set ns. stateIn byID (nd_ID n) = Some NodeFailed))"
proof (induction ns arbitrary: a b)
  case Nil
  then show ?case by simp
next
  case (Cons n ns)
  obtain m where "map_of byID (nd_ID n) = Some m" using Cons.prems [of n] by (auto simp: stateIn_def)
  then show ?case using Cons by (auto simp: stateIn_def)
qed

lemma readyScan_view:
  "(\<And>n. n \<in> set ns \<Longrightarrow> stateIn byID (nd_ID n) \<noteq> None) \<Longrightarrow> distinct (map nd_ID ns) \<Longrightarrow>
     \<exists>byID'. readyScan ns byID acc = Some (acc @ released ns (stateIn byID), byID')"
proof (induction ns arbitrary: byID acc)
  case Nil
  then show ?case by (simp add: released_def)
next
  case (Cons n ns)
  obtain m where m: "map_of byID (nd_ID n) = Some m" using Cons.prems(1) [of n] by (auto simp: stateIn_def)
  have s: "stateIn byID (nd_ID n) = Some (n_State m)" using m by (simp add: stateIn_def)
  show ?case
  proof (cases "n_State m = NodeWaiting \<and> depsDone byID (nd_Dependencies n)")
    case False
    then have "readyScan (n # ns) byID acc = readyScan ns byID acc" "released (n # ns) (stateIn byID) = released ns (stateIn byID)"
      using m s by (auto simp: released_def depsDone_view)
    then show ?thesis using Cons.IH [of byID acc] Cons.prems by simp
  next
    case True
    let ?b = "aput (nd_ID n) (m\<lparr>n_State := NodeReady\<rparr>) byID"
    have done': "isDone (stateIn ?b y) = isDone (stateIn byID y)" for y
      using s True by (simp add: isDone_def)
    have rel: "released ns (stateIn ?b) = released ns (stateIn byID)"
      unfolding released_def done' using Cons.prems(2)
      by (intro arg_cong [where f = "map nd_ID"] filter_cong) (auto simp: rev_image_eqI)
    have rel': "released (n # ns) (stateIn byID) = nd_ID n # released ns (stateIn byID)"
      using True s by (simp add: released_def depsDone_view)
    have scan: "readyScan (n # ns) byID acc = readyScan ns ?b (acc @ [nd_ID n])" using m True by simp
    have "stateIn ?b (nd_ID k) \<noteq> None" if "k \<in> set ns" for k using Cons.prems(1) that by simp
    then have "\<exists>byID'. readyScan ns ?b (acc @ [nd_ID n]) = Some ((acc @ [nd_ID n]) @ released ns (stateIn ?b), byID')"
      using Cons.prems(2) by (intro Cons.IH) simp_all
    then show ?thesis unfolding scan rel rel' by simp
  qed
qed

lemma progress_view:
  assumes "\<And>n. n \<in> set (dd_Nodes (d_Def d)) \<Longrightarrow> stateIn byID (nd_ID n) \<noteq> None" "distinct (map nd_ID (dd_Nodes (d_Def d)))"
  shows "progress d byID = Some (released (dd_Nodes (d_Def d)) (stateIn byID),
    if (\<forall>n \<in> set (dd_Nodes (d_Def d)). stateIn byID (nd_ID n) \<notin> {Some NodeWaiting, Some NodeReady, Some NodeRunning})
    then Some (if \<exists>n \<in> set (dd_Nodes (d_Def d)). stateIn byID (nd_ID n) = Some NodeFailed then DAGFailed else DAGSucceeded) else None)"
proof -
  have "released (dd_Nodes (d_Def d)) (stateIn byID) = []"
    if "\<forall>n \<in> set (dd_Nodes (d_Def d)). stateIn byID (nd_ID n) \<notin> {Some NodeWaiting, Some NodeReady, Some NodeRunning}"
    using that by (auto simp: released_def filter_empty_conv)
  then show ?thesis using progressScan_view [OF assms(1)] readyScan_view [OF assms, of "[]"]
    by (auto simp: progress_def)
qed

section \<open>Runs\<close>

text \<open>The keys of the two tables and the foreign key between them.\<close>

definition dag_inv :: "db \<Rightarrow> bool" where
  "dag_inv s \<longleftrightarrow> distinct (map (\<lambda>n. (n_DAGID n, n_NodeID n)) (dag_nodes s)) \<and> distinct (map d_ID (dags s)) \<and>
     n_DAGID ` set (dag_nodes s) \<subseteq> d_ID ` set (dags s)"

lemma dag_inv_select:
  assumes "dag_inv s"
  shows "distinct (map n_NodeID (selectWhere (\<lambda>n. n_DAGID n = dagID) (dag_nodes s)))"
proof -
  let ?xs = "selectWhere (\<lambda>n. n_DAGID n = dagID) (dag_nodes s)"
  have "map (\<lambda>n. (n_DAGID n, n_NodeID n)) ?xs = map (Pair dagID) (map n_NodeID ?xs)"
    by (auto simp: selectWhere_def)
  moreover have "distinct (map (\<lambda>n. (n_DAGID n, n_NodeID n)) ?xs)"
    using assms by (simp add: dag_inv_def selectWhere_def distinct_map_filter)
  ultimately have "distinct (map (Pair dagID) (map n_NodeID ?xs))" by metis
  then show ?thesis by (rule distinct_map [THEN iffD1, THEN conjunct1])
qed

lemma map_of_lookupRow: "map_of (map (\<lambda>n. (k n, n)) rows) x = lookupRow k x rows"
  by (induction rows) auto

lemma lookupRow_sort:
  assumes "distinct (map k rows)"
  shows "lookupRow k x (sort_key g rows) = lookupRow k x rows"
proof (cases "lookupRow k x rows")
  case None
  then have "lookupRow k x (sort_key g rows) = None" by (simp add: lookupRow_None)
  then show ?thesis using None by simp
next
  case (Some r)
  have "distinct (map k (sort_key g rows))"
    using assms by (metis mset_eq_imp_distinct_iff mset_map mset_sort)
  then show ?thesis using Some lookupRow_unique [of k "sort_key g rows" r] lookupRow_Some [OF Some] by simp
qed

text \<open>What the engine reads back at the start of \<open>OnTaskTerminal\<close> is the view.\<close>

lemma byID_view:
  assumes "dag_inv s"
  shows "stateIn (map (\<lambda>n. (n_NodeID n, n)) (sort_key n_NodeID (selectWhere (\<lambda>n. n_DAGID n = dagID) (dag_nodes s)))) = nodeStates s dagID"
  by (rule ext) (simp only: stateIn_def map_of_lookupRow nodeStates_def lookupRow_sort [OF dag_inv_select [OF assms]])

text \<open>A run in progress: the DAG is stored, its nodes are well formed, and each has a row.\<close>

definition dag_run :: "DAG \<Rightarrow> db \<Rightarrow> bool" where
  "dag_run d s \<longleftrightarrow> lookupRow d_ID (d_ID d) (dags s) = Some d \<and> wf_nodes (dd_Nodes (d_Def d)) \<and> dag_inv s \<and>
     (\<forall>n \<in> set (dd_Nodes (d_Def d)). nodeStates s (d_ID d) (nd_ID n) \<noteq> None)"

text \<open>Dependencies first: a node that runs, succeeded or failed has every dependency behind it.\<close>

definition order_ok :: "DAGNodeDef list \<Rightarrow> (string \<Rightarrow> DAGNodeState option) \<Rightarrow> bool" where
  "order_ok ns v \<longleftrightarrow> (\<forall>n \<in> set ns. v (nd_ID n) \<in> {Some NodeRunning, Some NodeSucceeded, Some NodeFailed} \<longrightarrow>
     (\<forall>dep \<in> set (nd_Dependencies n). isDone (v dep)))"

lemma order_ok_finish:
  assumes "order_ok ns v" "v x = Some NodeRunning"
  shows "order_ok ns (v(x \<mapsto> st))"
  unfolding order_ok_def
proof (intro ballI impI)
  fix n dep
  assume n: "n \<in> set ns" "(v(x \<mapsto> st)) (nd_ID n) \<in> {Some NodeRunning, Some NodeSucceeded, Some NodeFailed}"
    and dep: "dep \<in> set (nd_Dependencies n)"
  have "isDone (v dep)"
    using assms n dep unfolding order_ok_def by (cases "nd_ID n = x") auto
  moreover from this have "dep \<noteq> x" using assms(2) by (auto simp: isDone_def)
  ultimately show "isDone ((v(x \<mapsto> st)) dep)" by simp
qed

definition launched :: "string set \<Rightarrow> (string \<Rightarrow> DAGNodeState option) \<Rightarrow> string \<Rightarrow> DAGNodeState option" where
  "launched R v x = (if x \<in> R then map_option (\<lambda>_. NodeRunning) (v x) else v x)"

lemma order_ok_launch:
  assumes "order_ok ns v" "distinct (map nd_ID ns)"
  shows "order_ok ns (launched (set (released ns v)) v)"
  unfolding order_ok_def
proof (intro ballI impI)
  fix n dep
  let ?v = "launched (set (released ns v)) v"
  assume n: "n \<in> set ns" "?v (nd_ID n) \<in> {Some NodeRunning, Some NodeSucceeded, Some NodeFailed}"
    and dep: "dep \<in> set (nd_Dependencies n)"
  have "isDone (v dep)"
  proof (cases "nd_ID n \<in> set (released ns v)")
    case True
    then obtain k where k: "k \<in> set ns" "nd_ID k = nd_ID n" "\<forall>dep \<in> set (nd_Dependencies k). isDone (v dep)"
      by (auto simp: released_def)
    then have "k = n" using assms(2) n(1) by (auto simp: distinct_map dest: inj_onD)
    then show ?thesis using k(3) dep by simp
  next
    case False
    then show ?thesis using assms(1) n dep by (auto simp: order_ok_def launched_def)
  qed
  moreover from this have "dep \<notin> set (released ns v)" by (auto simp: released_def isDone_def)
  ultimately show "isDone (?v dep)" by (simp add: launched_def)
qed

lemma fold_absUpdate_same:
  "(\<And>u. u \<in> set us \<Longrightarrow> du_State u = st) \<Longrightarrow>
     fold absUpdate us v = (\<lambda>x. if x \<in> du_NodeID ` set us then map_option (\<lambda>_. st) (v x) else v x)"
proof (induction us arbitrary: v)
  case Nil
  then show ?case by simp
next
  case (Cons u us)
  then show ?case by (auto simp: absUpdate_def fun_eq_iff option.map_comp o_def)
qed

lemma fold_launched:
  "(\<And>u. u \<in> set us \<Longrightarrow> du_State u = NodeRunning) \<Longrightarrow> fold absUpdate us v = launched (du_NodeID ` set us) v"
  by (simp add: fold_absUpdate_same launched_def fun_eq_iff)

section \<open>Releasing dependents\<close>

lemma launchNodes_view:
  assumes "\<And>nid. nid \<in> set nids \<Longrightarrow> nodeDef (d_Def d) nid \<noteq> None"
  shows "nodeStates (co_db (snd (launchNodes ne c d nids [] st))) (d_ID d) \<in>
      {nodeStates (co_db st) (d_ID d), launched (set nids) (nodeStates (co_db st) (d_ID d))} \<and>
    lookupRow d_ID (d_ID d) (dags (co_db (snd (launchNodes ne c d nids [] st)))) = lookupRow d_ID (d_ID d) (dags (co_db st))"
proof -
  obtain r st1 where l: "launchLoop ne d nids [] st = (r, st1)" by fastforce
  have fr: "dags (co_db st1) = dags (co_db st)" "nodeStates (co_db st1) = nodeStates (co_db st)"
    using launchLoop_frame [OF l] nodeStates_cong [of "co_db st1" "co_db st"] by simp_all
  show ?thesis
  proof (cases r)
    case (Inl e)
    then show ?thesis using fr by (simp add: launchNodes_def l)
  next
    case (Inr us)
    obtain new where us: "us = new" "map du_NodeID new = nids" "\<forall>u \<in> set new. du_State u = NodeRunning"
      using launchLoop_updates [OF l [unfolded Inr] assms] by auto
    show ?thesis
    proof (cases "us = []")
      case True
      then show ?thesis using fr Inr by (simp add: launchNodes_def l)
    next
      case False
      obtain x s2 where u: "UpdateDAGNodes c (d_ID d) None us (co_db st1) = (x, s2)" by fastforce
      have "nodeStates s2 (d_ID d) \<in> {nodeStates (co_db st) (d_ID d), launched (set nids) (nodeStates (co_db st) (d_ID d))} \<and>
        lookupRow d_ID (d_ID d) (dags s2) = lookupRow d_ID (d_ID d) (dags (co_db st))"
      proof (cases "k_fault c")
        case None
        have "fold absUpdate us (nodeStates (co_db st1) (d_ID d)) = launched (du_NodeID ` set us) (nodeStates (co_db st1) (d_ID d))"
          using us by (intro fold_launched) auto
        moreover have "du_NodeID ` set us = set nids" using us by (metis list.set_map)
        ultimately show ?thesis
          using UpdateDAGNodes_view [OF None, of "d_ID d" None us "co_db st1"] u fr
          by (simp add: option.map_ident)
      next
        case (Some e)
        then show ?thesis using UpdateDAGNodes_fault [OF Some, of "d_ID d" None us "co_db st1"] u fr by simp
      qed
      then show ?thesis using False Inr by (simp add: launchNodes_def l u)
    qed
  qed
qed

lemma released_known: "nid \<in> set (released (dd_Nodes (d_Def d)) v) \<Longrightarrow> nodeDef (d_Def d) nid \<noteq> None"
  by (auto simp: released_def nodeDef_def lookupRow_None)

text \<open>
  The tail of \<open>OnTaskTerminal\<close> on the view: the finished node gets its state, and then either
  nothing more or the launch of the nodes this released.
\<close>

lemma advance_view:
  assumes run: "dag_run d (co_db st)" and x: "map_of byID x = Some node" "n_NodeID node = x"
    and b: "stateIn byID = nodeStates (co_db st) (d_ID d)"
  shows "\<exists>st'. advance e d byID node new st = Some st' \<and>
    (let v = nodeStates (co_db st) (d_ID d); v1 = v(x \<mapsto> new) in
     nodeStates (co_db st') (d_ID d) \<in> {v, v1, launched (set (released (dd_Nodes (d_Def d)) v1)) v1})"
proof -
  let ?v = "nodeStates (co_db st) (d_ID d)"
  let ?v1 = "?v(x \<mapsto> new)" and ?ns = "dd_Nodes (d_Def d)"
  have d: "distinct (map nd_ID ?ns)" using run by (simp add: dag_run_def wf_nodes_def)
  have vx: "?v x \<noteq> None" using b x by (metis option.simps(8,9) option.distinct(1) stateIn_def)
  have v1: "stateIn (aput x (node\<lparr>n_State := new\<rparr>) byID) = ?v1" using b by (simp add: fun_eq_iff)
  have abs: "absUpdate (stateUpdate x new) ?v = ?v1" using vx by (auto simp: absUpdate_def stateUpdate_def)
  have "stateIn (aput x (node\<lparr>n_State := new\<rparr>) byID) (nd_ID n) \<noteq> None" if "n \<in> set ?ns" for n
    using run that unfolding v1 by (auto simp: dag_run_def)
  from progress_view [OF this d] obtain agg where p: "progress d (aput x (node\<lparr>n_State := new\<rparr>) byID) = Some (released ?ns ?v1, agg)"
    unfolding v1 by blast
  have kn: "\<And>nid. nid \<in> set (released ?ns ?v1) \<Longrightarrow> nodeDef (d_Def d) nid \<noteq> None" by (rule released_known)
  show ?thesis
  proof (cases "k_fault (oe_update e)")
    case (Some er)
    then show ?thesis using x by (simp add: advance_def p UpdateDAGNodes_fault)
  next
    case None
    obtain s1 where u: "UpdateDAGNodes (oe_update e) (d_ID d) agg [stateUpdate x new] (co_db st) = (Inr (), s1)"
      using UpdateDAGNodes_Inr [OF None] by blast
    have s1: "nodeStates s1 (d_ID d) = ?v1"
      using UpdateDAGNodes_view(1) [OF None, of "d_ID d" agg "[stateUpdate x new]" "co_db st"] u abs by simp
    show ?thesis
    proof (cases "released ?ns ?v1 \<noteq> [] \<and> agg = None")
      case False
      then have "advance e d byID node new st = Some (st\<lparr>co_db := s1\<rparr>)" using x by (auto simp: advance_def p u)
      then show ?thesis using s1 by simp
    next
      case True
      then have "advance e d byID node new st =
          Some (snd (launchNodes (oe_launch e) (oe_launchUpdate e) d (released ?ns ?v1) [] (st\<lparr>co_db := s1\<rparr>)))"
        using x u by (simp add: advance_def p)
      then show ?thesis
        using launchNodes_view [of "released ?ns ?v1" d "oe_launch e" "oe_launchUpdate e" "st\<lparr>co_db := s1\<rparr>", OF kn] s1 by simp
    qed
  qed
qed

lemma order_ok_advance:
  assumes "order_ok ns v" "v x = Some NodeRunning" "distinct (map nd_ID ns)"
    and "w \<in> {v, v(x \<mapsto> new), launched (set (released ns (v(x \<mapsto> new)))) (v(x \<mapsto> new))}"
  shows "order_ok ns w"
  using assms(4) assms(1) order_ok_finish [OF assms(1,2), of new] order_ok_launch [OF order_ok_finish [OF assms(1,2), of new] assms(3)]
  by auto

section \<open>The failure policies\<close>

lemma retryNode_view:
  assumes "retryNode ne c d node st = (r, st1)"
  shows "case r of Inl e \<Rightarrow> dags (co_db st1) = dags (co_db st) \<and> dag_nodes (co_db st1) = dag_nodes (co_db st)
      | Inr _ \<Rightarrow> nodeStates (co_db st1) (d_ID d) = absUpdate (runningUpdate (n_NodeID node) '''') (nodeStates (co_db st) (d_ID d))"
proof (cases "nodeDef (d_Def d) (n_NodeID node)")
  case None
  then show ?thesis using assms by (auto simp: retryNode_def)
next
  case (Some nd)
  obtain x st2 where s: "SubmitDAGTask ne (d_ID d) (n_NodeID node) nd st = (x, st2)" by fastforce
  have fr: "dags (co_db st2) = dags (co_db st)" "dag_nodes (co_db st2) = dag_nodes (co_db st)"
    using SubmitDAGTask_frame [of ne "d_ID d" "n_NodeID node" nd st] s by simp_all
  show ?thesis
  proof (cases x)
    case (Inl e)
    then show ?thesis using assms Some s fr by (auto simp: retryNode_def)
  next
    case (Inr tid)
    obtain y s2 where u: "UpdateDAGNodes c (d_ID d) None [runningUpdate (n_NodeID node) tid] (co_db st2) = (y, s2)" by fastforce
    have r: "r = y" "co_db st1 = s2" using assms Some s Inr u by (auto simp: retryNode_def)
    show ?thesis
    proof (cases "k_fault c")
      case (Some e)
      then show ?thesis using UpdateDAGNodes_fault [OF Some, of "d_ID d" None "[runningUpdate (n_NodeID node) tid]" "co_db st2"] u r fr by auto
    next
      case None
      then have "y = Inr ()" using UpdateDAGNodes_Inr [OF None] u by (metis prod.inject)
      moreover have "absUpdate (runningUpdate i t) = absUpdate (runningUpdate i '''')" for i t
        by (simp add: absUpdate_def runningUpdate_def fun_eq_iff)
      ultimately show ?thesis
        using UpdateDAGNodes_view(1) [OF None, of "d_ID d" None "[runningUpdate (n_NodeID node) tid]" "co_db st2"] u r fr
          nodeStates_cong [of "co_db st2" "co_db st"] by (simp del: fun_upd_apply) metis
    qed
  qed
qed

definition aborted :: "string \<Rightarrow> (string \<Rightarrow> DAGNodeState option) \<Rightarrow> string \<Rightarrow> DAGNodeState option" where
  "aborted x v y = (if y = x then Some NodeFailed
     else if v y = Some NodeWaiting \<or> v y = Some NodeReady then Some NodeSkipped else v y)"

lemma abort_view:
  assumes "\<And>m. m \<in> set nodes \<Longrightarrow> v (n_NodeID m) = Some (n_State m)" "\<And>y. v y \<noteq> None \<Longrightarrow> y \<in> n_NodeID ` set nodes" "v x \<noteq> None"
  shows "fold absUpdate (abortUpdates nodes x) v = aborted x v"
proof -
  let ?f = "filter (\<lambda>m. n_NodeID m \<noteq> x \<and> (n_State m = NodeWaiting \<or> n_State m = NodeReady)) nodes"
  let ?us = "map (\<lambda>m. stateUpdate (n_NodeID m) NodeSkipped) ?f"
  have ids: "y \<in> du_NodeID ` set ?us \<longleftrightarrow> y \<noteq> x \<and> (v y = Some NodeWaiting \<or> v y = Some NodeReady)" for y
  proof
    assume "y \<in> du_NodeID ` set ?us"
    then show "y \<noteq> x \<and> (v y = Some NodeWaiting \<or> v y = Some NodeReady)" using assms(1) by (auto simp: stateUpdate_def)
  next
    assume y: "y \<noteq> x \<and> (v y = Some NodeWaiting \<or> v y = Some NodeReady)"
    then obtain m where m: "m \<in> set nodes" "n_NodeID m = y" using assms(2) [of y] by auto
    then have "m \<in> set ?f" using y assms(1) [OF m(1)] by auto
    then show "y \<in> du_NodeID ` set ?us" using m(2) by (force simp: stateUpdate_def)
  qed
  have "fold absUpdate ?us w = (\<lambda>y. if y \<in> du_NodeID ` set ?us then map_option (\<lambda>_. NodeSkipped) (w y) else w y)" for w
    by (rule fold_absUpdate_same) (auto simp: stateUpdate_def)
  then show ?thesis unfolding abortUpdates_def fold_simps ids using assms(3)
    by (auto simp: aborted_def absUpdate_def stateUpdate_def fun_eq_iff)
qed

lemma order_ok_abort:
  assumes "order_ok ns v" "v x = Some NodeRunning"
  shows "order_ok ns (aborted x v)"
  unfolding order_ok_def
proof (intro ballI impI)
  fix n dep
  assume n: "n \<in> set ns" "aborted x v (nd_ID n) \<in> {Some NodeRunning, Some NodeSucceeded, Some NodeFailed}"
    and dep: "dep \<in> set (nd_Dependencies n)"
  have "isDone (v dep)"
    using assms n dep unfolding order_ok_def by (cases "nd_ID n = x") (auto simp: aborted_def split: if_splits)
  then show "isDone (aborted x v dep)" using assms(2) by (auto simp: isDone_def aborted_def)
qed

text \<open>The nodes listed at the start, against the view.\<close>

lemma listed_nodes:
  fixes s :: db and dagID :: string
  assumes "dag_inv s"
  defines "nodes \<equiv> sort_key n_NodeID (selectWhere (\<lambda>n. n_DAGID n = dagID) (dag_nodes s))"
  shows "m \<in> set nodes \<Longrightarrow> nodeStates s dagID (n_NodeID m) = Some (n_State m)"
    and "nodeStates s dagID y \<noteq> None \<Longrightarrow> y \<in> n_NodeID ` set nodes"
proof -
  assume "m \<in> set nodes"
  then have "m \<in> set (selectWhere (\<lambda>n. n_DAGID n = dagID) (dag_nodes s))" by (simp add: nodes_def)
  then show "nodeStates s dagID (n_NodeID m) = Some (n_State m)"
    using lookupRow_unique [OF dag_inv_select [OF assms(1)]] by (simp add: nodeStates_def)
next
  assume "nodeStates s dagID y \<noteq> None"
  then show "y \<in> n_NodeID ` set nodes"
    by (auto simp: nodeStates_def nodes_def lookupRow_None)
qed

lemma abort_handler_view:
  assumes "dag_inv s" "nodeStates s dagID x \<noteq> None"
  shows "fold absUpdate (abortUpdates (sort_key n_NodeID (selectWhere (\<lambda>n. n_DAGID n = dagID) (dag_nodes s))) x)
    (nodeStates s dagID) = aborted x (nodeStates s dagID)"
proof (rule abort_view)
  fix m
  assume "m \<in> set (sort_key n_NodeID (selectWhere (\<lambda>n. n_DAGID n = dagID) (dag_nodes s)))"
  then show "nodeStates s dagID (n_NodeID m) = Some (n_State m)" by (rule listed_nodes(1) [OF assms(1)])
next
  fix y
  assume "nodeStates s dagID y \<noteq> None"
  then show "y \<in> n_NodeID ` set (sort_key n_NodeID (selectWhere (\<lambda>n. n_DAGID n = dagID) (dag_nodes s)))"
    by (rule listed_nodes(2) [OF assms(1)])
qed (rule assms(2))

section \<open>The whole handler\<close>

lemma dag_run_nodes:
  assumes "dag_run d s" "dags s' = dags s" "dag_nodes s' = dag_nodes s"
  shows "dag_run d s'"
  using assms nodeStates_cong [OF assms(3)] by (simp add: dag_run_def dag_inv_def)

text \<open>
  What the handler does for the current task of a running node, on the view: the four cases
  are success, the skip policy, the retry policy and the default.
\<close>

text \<open>What the handler does once the DAG and its nodes are read, branch by branch.\<close>

lemma OnTaskTerminal_running:
  fixes d st
  defines "nodes \<equiv> sort_key n_NodeID (selectWhere (\<lambda>n. n_DAGID n = d_ID d) (dag_nodes (co_db st)))"
  assumes run: "dag_run d (co_db st)" and d: "d_Status d = DAGRunning" "t_DAGID t = d_ID d" "d_ID d \<noteq> ''''"
    and node: "map_of (map (\<lambda>n. (n_NodeID n, n)) nodes) (t_DAGNodeID t) = Some node"
  shows "OnTaskTerminal e t ok msg st =
    (if k_fault (oe_get e) \<noteq> None \<or> k_fault (oe_list e) \<noteq> None then Some st
     else if ok then advance e d (map (\<lambda>n. (n_NodeID n, n)) nodes) node NodeSucceeded st
     else if d_FailurePolicy d = DAGSkip then advance e d (map (\<lambda>n. (n_NodeID n, n)) nodes) node NodeSkipped st
     else if d_FailurePolicy d = DAGRetry then
       (case retryNode (oe_retry e) (oe_retryUpdate e) d node st of
          (Inr _, st1) \<Rightarrow> Some st1 | (Inl er, st1) \<Rightarrow> advance e d (map (\<lambda>n. (n_NodeID n, n)) nodes) node NodeFailed st1)
     else Some (st\<lparr>co_db := snd (UpdateDAGNodes (oe_update e) (d_ID d) (Some DAGFailed)
                   (abortUpdates nodes (n_NodeID node)) (co_db st))\<rparr>))"
proof (cases "k_fault (oe_get e) = None \<and> k_fault (oe_list e) = None")
  case True
  then show ?thesis using run d node unfolding nodes_def
    by (simp add: OnTaskTerminal_def GetDAG_def ListDAGNodes_def poolQuery_def dag_run_def)
next
  case False
  then show ?thesis using run d
    by (auto simp: OnTaskTerminal_def GetDAG_def ListDAGNodes_def poolQuery_def dag_run_def split: option.splits)
qed

lemma abort_update_view:
  assumes "dag_inv s" "nodeStates s did x \<noteq> None"
  shows "nodeStates (snd (UpdateDAGNodes c did (Some DAGFailed)
      (abortUpdates (sort_key n_NodeID (selectWhere (\<lambda>n. n_DAGID n = did) (dag_nodes s))) x) s)) did
    \<in> {nodeStates s did, aborted x (nodeStates s did)}"
proof (cases "k_fault c")
  case None
  then show ?thesis using UpdateDAGNodes_view(1) [OF None] abort_handler_view [OF assms] by simp
qed (simp add: UpdateDAGNodes_fault)

lemma OnTaskTerminal_view:
  assumes run: "dag_run d (co_db st)" and d: "d_Status d = DAGRunning" "t_DAGID t = d_ID d" "d_ID d \<noteq> ''''"
    and x: "nodeStates (co_db st) (d_ID d) (t_DAGNodeID t) \<noteq> None"
  shows "\<exists>st'. OnTaskTerminal e t ok msg st = Some st' \<and>
    (let v = nodeStates (co_db st) (d_ID d); x = t_DAGNodeID t; ns = dd_Nodes (d_Def d) in
     nodeStates (co_db st') (d_ID d) \<in> {v, v(x \<mapsto> NodeRunning), aborted x v} \<union>
       (\<Union>new \<in> {NodeSucceeded, NodeSkipped, NodeFailed}. {v(x \<mapsto> new), launched (set (released ns (v(x \<mapsto> new)))) (v(x \<mapsto> new))}))"
proof -
  let ?v = "nodeStates (co_db st) (d_ID d)" and ?x = "t_DAGNodeID t"
  let ?nodes = "sort_key n_NodeID (selectWhere (\<lambda>n. n_DAGID n = d_ID d) (dag_nodes (co_db st)))"
  let ?b = "map (\<lambda>n. (n_NodeID n, n)) ?nodes"
  have inv: "dag_inv (co_db st)" using run by (simp add: dag_run_def)
  have b: "stateIn ?b = ?v" by (rule byID_view [OF inv])
  have "stateIn ?b ?x \<noteq> None" using x by (simp only: b not_False_eq_True)
  then obtain node where node: "map_of ?b ?x = Some node" unfolding stateIn_def by blast
  then have nid: "n_NodeID node = ?x" by (auto simp: map_of_lookupRow dest: lookupRow_Some)
  note h = OnTaskTerminal_running [OF run d node, of e ok msg]
  have adv: "\<exists>st'. advance e d ?b node new st2 = Some st' \<and> nodeStates (co_db st') (d_ID d) \<in>
      {?v, ?v(?x \<mapsto> new), launched (set (released (dd_Nodes (d_Def d)) (?v(?x \<mapsto> new)))) (?v(?x \<mapsto> new))}"
    if "dags (co_db st2) = dags (co_db st)" "dag_nodes (co_db st2) = dag_nodes (co_db st)" for new st2
    using advance_view [OF dag_run_nodes [OF run that] node nid, of e new] b nodeStates_cong [OF that(2)] by (simp only: Let_def)
  obtain r st1 where rt: "retryNode (oe_retry e) (oe_retryUpdate e) d node st = (r, st1)" by fastforce
  consider (skipped) "k_fault (oe_get e) \<noteq> None \<or> k_fault (oe_list e) \<noteq> None"
    | (moves) new st2 where "OnTaskTerminal e t ok msg st = advance e d ?b node new st2"
        "dags (co_db st2) = dags (co_db st)" "dag_nodes (co_db st2) = dag_nodes (co_db st)"
        "new \<in> {NodeSucceeded, NodeSkipped, NodeFailed}"
    | (retried) u where "r = Inr u" "OnTaskTerminal e t ok msg st = Some st1"
    | (abort) "OnTaskTerminal e t ok msg st = Some (st\<lparr>co_db := snd (UpdateDAGNodes (oe_update e) (d_ID d) (Some DAGFailed)
        (abortUpdates ?nodes (n_NodeID node)) (co_db st))\<rparr>)"
    using h rt retryNode_view [OF rt] by (cases r) (auto split: if_splits)
  then show ?thesis
  proof cases
    case moves
    then show ?thesis using adv [OF moves(2,3), of new] by (auto simp: Let_def)
  next
    case retried
    then show ?thesis using retryNode_view [OF rt] x nid by (auto simp: absUpdate_def runningUpdate_def Let_def)
  next
    case abort
    then show ?thesis using abort_update_view [OF inv x, of "oe_update e"] nid by (auto simp: Let_def)
  qed (simp add: h)
qed

section \<open>Starting a run\<close>

lemma CreateDAG_view:
  assumes "dag_inv s" "CreateDAG c d s = (Inr (), s')" "wf_nodes (dd_Nodes (d_Def d))" "d_FinishedAt d = None"
  shows "dag_run d s'" "nodeStates s' (d_ID d) = (\<lambda>x. if x \<in> nd_ID ` set (dd_Nodes (d_Def d)) then Some NodeWaiting else None)"
proof -
  let ?new = "map (newNode (d_ID d) (k_dbnow c)) (dd_Nodes (d_Def d))"
  have s': "dags s' = dags s @ [d]" "dag_nodes s' = dag_nodes s @ ?new" "d_ID d \<notin> d_ID ` set (dags s)"
    using assms(2,4) by (auto simp: CreateDAG_def withTx_Inr Let_def split: if_splits)
  have ids: "map n_NodeID ?new = map nd_ID (dd_Nodes (d_Def d))" by (simp add: newNode_def)
  have fk: "n_DAGID n \<noteq> d_ID d" if "n \<in> set (dag_nodes s)" for n
  proof -
    have "n_DAGID n \<in> d_ID ` set (dags s)" using assms(1) that unfolding dag_inv_def by blast
    then show ?thesis using s'(3) by metis
  qed
  have none: "selectWhere (\<lambda>n. n_DAGID n = d_ID d) (dag_nodes s) = []"
    using fk by (simp add: selectWhere_def filter_empty_conv)
  have sel: "selectWhere (\<lambda>n. n_DAGID n = d_ID d) (dag_nodes s') = ?new"
    using none by (auto simp: s' selectWhere_def newNode_def intro!: filter_True)
  have lk: "lookupRow n_NodeID x ?new = map_option (newNode (d_ID d) (k_dbnow c)) (lookupRow nd_ID x (dd_Nodes (d_Def d)))" for x
  proof -
    have "lookupRow n_NodeID x (map (newNode i n) ns) = map_option (newNode i n) (lookupRow nd_ID x ns)" for i n ns
      by (induction ns) (auto simp: newNode_def)
    then show ?thesis .
  qed
  show v: "nodeStates s' (d_ID d) = (\<lambda>x. if x \<in> nd_ID ` set (dd_Nodes (d_Def d)) then Some NodeWaiting else None)"
  proof
    fix x
    show "nodeStates s' (d_ID d) x = (if x \<in> nd_ID ` set (dd_Nodes (d_Def d)) then Some NodeWaiting else None)"
    proof (cases "lookupRow nd_ID x (dd_Nodes (d_Def d))")
      case None
      then show ?thesis by (simp add: nodeStates_def sel lk lookupRow_None)
    next
      case (Some n)
      then show ?thesis using lookupRow_Some [OF Some] by (auto simp: nodeStates_def sel lk newNode_def)
    qed
  qed
  have "distinct (map (\<lambda>n. (n_DAGID n, n_NodeID n)) ?new)"
  proof -
    have "map (\<lambda>n. (n_DAGID n, n_NodeID n)) ?new = map (Pair (d_ID d)) (map nd_ID (dd_Nodes (d_Def d)))" by (simp add: newNode_def)
    then show ?thesis using assms(3) by (simp add: wf_nodes_def distinct_map inj_on_def)
  qed
  then have "dag_inv s'" using assms(1) s'(3) fk
    by (auto simp: dag_inv_def s'(1,2) newNode_def)
  moreover have "lookupRow d_ID (d_ID d) (dags s) = None" using s'(3) by (simp add: lookupRow_None)
  ultimately show "dag_run d s'" using assms(3) v by (simp add: dag_run_def s'(1) lookupRow_append)
qed

lemma launchNodes_ok_view:
  assumes "launchNodes ne c d nids [] st = (Inr (), st')" "\<And>nid. nid \<in> set nids \<Longrightarrow> nodeDef (d_Def d) nid \<noteq> None"
  shows "nodeStates (co_db st') (d_ID d) = launched (set nids) (nodeStates (co_db st) (d_ID d))"
proof -
  obtain r st1 where l: "launchLoop ne d nids [] st = (r, st1)" by fastforce
  have fr: "nodeStates (co_db st1) = nodeStates (co_db st)"
    using launchLoop_frame [OF l] nodeStates_cong [of "co_db st1" "co_db st"] by simp
  from assms(1) obtain us where r: "r = Inr us" by (cases r) (auto simp: launchNodes_def l)
  obtain new where us: "us = new" "map du_NodeID new = nids" "\<forall>u \<in> set new. du_State u = NodeRunning"
    using launchLoop_updates [OF l [unfolded r] assms(2)] by auto
  show ?thesis
  proof (cases "us = []")
    case True
    then show ?thesis using assms(1) us fr by (auto simp: launchNodes_def l r launched_def fun_eq_iff)
  next
    case False
    then have n: "k_fault c = None" using assms(1)
      by (cases "k_fault c") (auto simp: launchNodes_def l r UpdateDAGNodes_fault)
    have "fold absUpdate us (nodeStates (co_db st1) (d_ID d)) = launched (du_NodeID ` set us) (nodeStates (co_db st1) (d_ID d))"
      using us by (intro fold_launched) auto
    moreover have "du_NodeID ` set us = set nids" using us by (metis list.set_map)
    moreover have "co_db st' = snd (UpdateDAGNodes c (d_ID d) None us (co_db st1))"
      using assms(1) False by (auto simp: launchNodes_def l r split: prod.splits)
    ultimately show ?thesis using UpdateDAGNodes_view(1) [OF n] fr by simp
  qed
qed

lemma launchNodes_submits:
  assumes "launchNodes ne c d (map nd_ID ns) [] st = (Inr (), st')" "redis_inv (co_q st)"
    "\<And>n. n \<in> set ns \<Longrightarrow> nodeDef (d_Def d) (nd_ID n) = Some n"
  shows "\<exists>rs. tasks (co_db st') = tasks (co_db st) @ rs \<and> list_all2 (nodeTask ne (d_ID d)) ns rs \<and>
    (\<forall>r \<in> set rs. c_id r \<in> set (ready (co_q st') (c_priority r)))"
proof -
  obtain us st1 where l: "launchLoop ne d (map nd_ID ns) [] st = (Inr us, st1)"
    using assms(1) by (auto simp: launchNodes_def split: prod.splits sum.splits)
  have "tasks (co_db st') = tasks (co_db st1)" "co_q st' = co_q st1"
    using assms(1) l by (auto simp: launchNodes_def case_prod_beta split: if_splits)
  then show ?thesis using launchLoop_submits [OF l assms(2,3)] by auto
qed

lemma launchNodes_dag:
  assumes "launchNodes ne c d nids [] st = (Inr (), st')"
  shows "lookupRow d_ID i (dags (co_db st')) = lookupRow d_ID i (dags (co_db st))"
proof -
  obtain us st1 where l: "launchLoop ne d nids [] st = (Inr us, st1)"
    using assms by (auto simp: launchNodes_def split: prod.splits sum.splits)
  then show ?thesis using assms launchLoop_frame [OF l]
    by (auto simp: launchNodes_def UpdateDAGNodes_def applyAggregate_def withTx_def split: prod.splits if_splits option.splits)
qed

lemma nodeDef_unique: "wf_nodes (dd_Nodes def) \<Longrightarrow> n \<in> set (dd_Nodes def) \<Longrightarrow> nodeDef def (nd_ID n) = Some n"
  unfolding nodeDef_def wf_nodes_def by (intro lookupRow_unique) auto

section \<open>Properties\<close>

text \<open>
  C22: submitting a DAG. A definition that \<open>Validate\<close> rejects is refused with nothing changed. A
  successful submission stores the DAG as running, with a row for every node, its roots running and
  every other node waiting; for every root, and for no other node, it stores one new task, ready, of the
  node's type, payload and priority and linked to the node, and puts it into the ready queue of its priority.
\<close>

theorem SubmitDAG_correct:
  assumes "dag_inv (co_db st)" "redis_inv (co_q st)"
  shows "(\<forall>er. Validate (if dd_FailurePolicy def = '''' then def\<lparr>dd_FailurePolicy := DAGAbort\<rparr> else def) = Inl er \<longrightarrow>
      SubmitDAG e def st = (Inl er, st)) \<and>
    (\<forall>d st'. SubmitDAG e def st = (Inr d, st') \<longrightarrow> d_ID d = de_id e \<and> d_Status d = DAGRunning \<and>
      lookupRow d_ID (d_ID d) (dags (co_db st')) = Some d \<and>
      dd_Nodes (d_Def d) = dd_Nodes def \<and> wf_nodes (dd_Nodes def) \<and> acyclic (depRel (dd_Nodes def)) \<and>
      (\<forall>n \<in> set (dd_Nodes def). nodeStates (co_db st') (d_ID d) (nd_ID n) =
         Some (if nd_Dependencies n = [] then NodeRunning else NodeWaiting)) \<and>
      (\<exists>rs. tasks (co_db st') = tasks (co_db st) @ rs \<and>
         list_all2 (nodeTask (de_node e) (d_ID d)) (filter (\<lambda>n. nd_Dependencies n = []) (dd_Nodes def)) rs \<and>
         (\<forall>r \<in> set rs. c_id r \<in> set (ready (co_q st') (c_priority r)))))"
proof ((rule conjI; intro allI impI), goal_cases)
  case (1 er)
  then show ?case by (simp add: SubmitDAG_def Let_def)
next
  case (2 d st')
  let ?def = "if dd_FailurePolicy def = '''' then def\<lparr>dd_FailurePolicy := DAGAbort\<rparr> else def"
  have ns: "dd_Nodes ?def = dd_Nodes def" by simp
  obtain ls where v: "Validate ?def = Inr ls" using 2 by (auto simp: SubmitDAG_def Let_def split: sum.splits)
  then have "wf_nodes (dd_Nodes ?def) \<and> acyclic (depRel (dd_Nodes ?def))"
  proof (cases rule: Validate_cases [of ?def])
    case (layers ls')
    then show ?thesis using layered_acyclic [of "dd_Nodes ?def" ls'] by simp
  qed simp_all
  then have wf: "wf_nodes (dd_Nodes def)" "acyclic (depRel (dd_Nodes def))" unfolding ns by blast+
  let ?d = "\<lparr>d_ID = de_id e, d_Name = dd_Name ?def, d_FailurePolicy = dd_FailurePolicy ?def,
    d_Status = DAGRunning, d_Def = ?def, d_CreatedAt = de_now e, d_FinishedAt = None\<rparr>"
  let ?roots = "map nd_ID (filter (\<lambda>n. nd_Dependencies n = []) (dd_Nodes def))"
  obtain s1 where c: "CreateDAG (de_create e) ?d (co_db st) = (Inr (), s1)"
    and l: "launchNodes (de_node e) (de_update e) ?d ?roots [] (st\<lparr>co_db := s1\<rparr>) = (Inr (), st')" and d: "d = ?d"
    using 2 by (auto simp: SubmitDAG_def Let_def v ns split: sum.splits prod.splits)
  have v1: "nodeStates s1 (d_ID ?d) = (\<lambda>x. if x \<in> nd_ID ` set (dd_Nodes def) then Some NodeWaiting else None)"
    using CreateDAG_view(2) [OF assms(1) c] wf(1) by simp
  have run: "lookupRow d_ID (de_id e) (dags s1) = Some ?d" using CreateDAG_view(1) [OF assms(1) c] wf(1) by (simp add: dag_run_def)
  have "nodeDef (d_Def ?d) nid \<noteq> None" if "nid \<in> set ?roots" for nid
    using that by (auto simp: nodeDef_def lookupRow_None)
  from launchNodes_ok_view [OF l this] have v2: "nodeStates (co_db st') (d_ID d) = launched (set ?roots) (nodeStates s1 (d_ID ?d))"
    using d by simp
  have "nodeStates (co_db st') (d_ID d) (nd_ID n) = Some (if nd_Dependencies n = [] then NodeRunning else NodeWaiting)"
    if n: "n \<in> set (dd_Nodes def)" for n
  proof -
    have "nd_ID n \<in> set ?roots \<longleftrightarrow> nd_Dependencies n = []"
    proof
      assume "nd_ID n \<in> set ?roots"
      then obtain k where "k \<in> set (dd_Nodes def)" "nd_Dependencies k = []" "nd_ID k = nd_ID n" by auto
      then show "nd_Dependencies n = []" using n wf(1) by (auto simp: wf_nodes_def distinct_map dest: inj_onD)
    qed (use n in auto)
    then show ?thesis using n unfolding v2 launched_def v1 by auto
  qed
  moreover have "lookupRow d_ID (d_ID d) (dags (co_db st')) = Some d" using launchNodes_dag [OF l] run d by simp
  moreover have "\<exists>rs. tasks (co_db st') = tasks (co_db st) @ rs \<and>
      list_all2 (nodeTask (de_node e) (d_ID d)) (filter (\<lambda>n. nd_Dependencies n = []) (dd_Nodes def)) rs \<and>
      (\<forall>r \<in> set rs. c_id r \<in> set (ready (co_q st') (c_priority r)))"
    using launchNodes_submits [OF l] CreateDAG_frame(1) [of "de_create e" ?d "co_db st"] c assms(2) wf(1) d by (auto simp: nodeDef_unique)
  ultimately show ?case using wf d ns by simp
qed

definition sampleNode :: "string \<Rightarrow> nodeEnv" where
  "sampleNode i = \<lparr>ne_submit = sampleSubmit (''task-'' @ i), ne_link = sampleCall\<rparr>"

definition sampleDagEnv :: dagEnv where
  "sampleDagEnv = \<lparr>de_id = ''dag'', de_now = 5, de_create = sampleCall, de_node = sampleNode, de_update = sampleCall\<rparr>"

definition loopDef :: DAGDef where
  "loopDef = \<lparr>dd_Name = ''loop'', dd_FailurePolicy = '''', dd_Nodes = [dagNode ''a'' [''b''], dagNode ''b'' [''a'']]\<rparr>"

text \<open>A chain of two nodes: the first is launched, the second waits.\<close>

definition chainDef :: DAGDef where
  "chainDef = \<lparr>dd_Name = ''chain'', dd_FailurePolicy = ''terminate'', dd_Nodes = [dagNode ''a'' [], dagNode ''b'' [''a'']]\<rparr>"

definition chainDag :: DAG where
  "chainDag = \<lparr>d_ID = ''dag'', d_Name = ''chain'', d_FailurePolicy = ''terminate'', d_Status = DAGRunning, d_Def = chainDef,
     d_CreatedAt = 5, d_FinishedAt = None\<rparr>"

theorem SubmitDAG_correct_witness:
  "(\<exists>c. SubmitDAG sampleDagEnv loopDef sampleCore = (Inl (CycleError c), sampleCore)) \<and>
   (\<exists>d st' r. SubmitDAG sampleDagEnv chainDef sampleCore = (Inr d, st') \<and> nodeStates (co_db st') ''dag'' ''a'' = Some NodeRunning \<and>
      nodeStates (co_db st') ''dag'' ''b'' = Some NodeWaiting \<and> tasks (co_db st') = tasks (co_db sampleCore) @ [r] \<and>
      c_id r = ''task-a'' \<and> c_dag_node_id r = ''a'' \<and> c_id r \<in> set (ready (co_q st') (c_priority r)))"
proof
  have inv: "dag_inv (co_db sampleCore)" "redis_inv (co_q sampleCore)"
    by (simp_all add: dag_inv_def sampleCore_def sampleDb_def emptyDb_def redis_inv_empty)
  have "Validate (if dd_FailurePolicy loopDef = '''' then loopDef\<lparr>dd_FailurePolicy := DAGAbort\<rparr> else loopDef) =
      Inl (CycleError [''a'', ''b''])" by code_simp
  then show "\<exists>c. SubmitDAG sampleDagEnv loopDef sampleCore = (Inl (CycleError c), sampleCore)" using SubmitDAG_correct [OF inv] by blast
  have "fst (SubmitDAG sampleDagEnv chainDef sampleCore) = Inr chainDag" by code_simp
  then obtain st' where s: "SubmitDAG sampleDagEnv chainDef sampleCore = (Inr chainDag, st')" by (metis prod.collapse)
  have roots: "filter (\<lambda>n. nd_Dependencies n = []) (dd_Nodes chainDef) = [dagNode ''a'' []]" "dd_Nodes chainDef = [dagNode ''a'' [], dagNode ''b'' [''a'']]"
    by (simp_all add: chainDef_def dagNode_def)
  show "\<exists>d st' r. SubmitDAG sampleDagEnv chainDef sampleCore = (Inr d, st') \<and> nodeStates (co_db st') ''dag'' ''a'' = Some NodeRunning \<and>
      nodeStates (co_db st') ''dag'' ''b'' = Some NodeWaiting \<and> tasks (co_db st') = tasks (co_db sampleCore) @ [r] \<and>
      c_id r = ''task-a'' \<and> c_dag_node_id r = ''a'' \<and> c_id r \<in> set (ready (co_q st') (c_priority r))"
    using SubmitDAG_correct [OF inv, of chainDef sampleDagEnv] s unfolding roots
    by (auto simp: nodeTask_def list_all2_Cons1 dagNode_def sampleDagEnv_def sampleNode_def sampleSubmit_def)
qed

text \<open>
  C21: dependencies first. Under every failure policy and every fault: when a task of a node that is
  running ends, the handler returns, and if before every node that runs, succeeded or failed had all its
  dependencies succeeded or skipped, the same holds afterwards. (Nodes that are skipped when the DAG is aborted
  never start; they may have open dependencies.)
\<close>

theorem dag_order_preserved:
  assumes "dag_run d (co_db st)" "d_Status d = DAGRunning" "t_DAGID t = d_ID d" "d_ID d \<noteq> ''''"
    "order_ok (dd_Nodes (d_Def d)) (nodeStates (co_db st) (d_ID d))"
    "nodeStates (co_db st) (d_ID d) (t_DAGNodeID t) = Some NodeRunning"
  shows "\<exists>st'. OnTaskTerminal e t ok msg st = Some st' \<and>
    order_ok (dd_Nodes (d_Def d)) (nodeStates (co_db st') (d_ID d))"
proof -
  let ?v = "nodeStates (co_db st) (d_ID d)" and ?x = "t_DAGNodeID t" and ?ns = "dd_Nodes (d_Def d)"
  have dist: "distinct (map nd_ID ?ns)" using assms(1) by (simp add: dag_run_def wf_nodes_def)
  have "nodeStates (co_db st) (d_ID d) ?x \<noteq> None" using assms(6) by simp
  from OnTaskTerminal_view [OF assms(1-4) this, of e ok msg] obtain st' where
    st': "OnTaskTerminal e t ok msg st = Some st'"
    and w: "nodeStates (co_db st') (d_ID d) \<in> {?v, ?v(?x \<mapsto> NodeRunning), aborted ?x ?v} \<union>
       (\<Union>new \<in> {NodeSucceeded, NodeSkipped, NodeFailed}. {?v(?x \<mapsto> new), launched (set (released ?ns (?v(?x \<mapsto> new)))) (?v(?x \<mapsto> new))})"
    unfolding Let_def by blast
  have ok: "order_ok ?ns w" if "w \<in> {?v, ?v(?x \<mapsto> new), launched (set (released ?ns (?v(?x \<mapsto> new)))) (?v(?x \<mapsto> new))}" for w new
    by (rule order_ok_advance [OF assms(5,6) dist that])
  have "order_ok ?ns (nodeStates (co_db st') (d_ID d))"
  proof -
    consider "nodeStates (co_db st') (d_ID d) = ?v" | "nodeStates (co_db st') (d_ID d) = ?v(?x \<mapsto> NodeRunning)"
      | "nodeStates (co_db st') (d_ID d) = aborted ?x ?v"
      | new where "nodeStates (co_db st') (d_ID d) \<in> {?v(?x \<mapsto> new), launched (set (released ?ns (?v(?x \<mapsto> new)))) (?v(?x \<mapsto> new))}"
      using w unfolding Un_iff insert_iff UN_iff empty_iff by metis
    then show ?thesis using ok order_ok_abort [OF assms(5,6)] assms(5) by cases (simp_all, metis+)
  qed
  then show ?thesis using st' by blast
qed

definition chainCore :: core where
  "chainCore = \<lparr>co_db = emptyDb\<lparr>dags := [chainDag],
     dag_nodes := [(newNode ''dag'' 5 (dagNode ''a'' []))\<lparr>n_State := NodeRunning\<rparr>, newNode ''dag'' 5 (dagNode ''b'' [''a''])]\<rparr>,
     co_q = emptyRedis\<rparr>"

definition sampleTermEnv :: termEnv where
  "sampleTermEnv = \<lparr>oe_get = sampleCall, oe_list = sampleCall, oe_retry = sampleNode ''r'', oe_retryUpdate = sampleCall,
     oe_update = sampleCall, oe_launch = sampleNode, oe_launchUpdate = sampleCall\<rparr>"

lemma chain_run:
  "dag_run chainDag (co_db chainCore)" "nodeStates (co_db chainCore) ''dag'' ''a'' = Some NodeRunning"
  "nodeStates (co_db chainCore) ''dag'' ''b'' = Some NodeWaiting"
  by (simp_all add: dag_run_def chainCore_def chainDag_def chainDef_def wf_nodes_def dag_inv_def nodeStates_def
      newNode_def dagNode_def)

theorem dag_order_preserved_witness:
  "\<exists>st'. OnTaskTerminal sampleTermEnv ((sampleTask ''t'')\<lparr>t_DAGID := ''dag'', t_DAGNodeID := ''a''\<rparr>) True '''' chainCore = Some st' \<and>
     order_ok (dd_Nodes chainDef) (nodeStates (co_db st') ''dag'')"
proof -
  have "order_ok (dd_Nodes chainDef) (nodeStates (co_db chainCore) ''dag'')"
    using chain_run(2,3) by (simp add: order_ok_def chainDef_def dagNode_def)
  then show ?thesis
    using dag_order_preserved [OF chain_run(1), of "(sampleTask ''t'')\<lparr>t_DAGID := ''dag'', t_DAGNodeID := ''a''\<rparr>"] chain_run(2)
    by (simp add: chainDag_def)
qed

text \<open>
  That the node is running is needed: the handler does not look at the node's state or at its current task. When
  an old task of a node that has succeeded since is revived and fails, the retry policy starts the node
  again while a node that depends on it runs.
\<close>

definition staleCore :: core where
  "staleCore = \<lparr>co_db = emptyDb\<lparr>dags := [chainDag\<lparr>d_FailurePolicy := DAGRetry\<rparr>],
     dag_nodes := [(newNode ''dag'' 5 (dagNode ''a'' []))\<lparr>n_State := NodeSucceeded\<rparr>,
       (newNode ''dag'' 5 (dagNode ''b'' [''a'']))\<lparr>n_State := NodeRunning\<rparr>]\<rparr>, co_q = emptyRedis\<rparr>"

lemma stale_failure_restarts:
  "map_option (\<lambda>st'. (nodeStates (co_db st') ''dag'' ''a'', nodeStates (co_db st') ''dag'' ''b''))
     (OnTaskTerminal sampleTermEnv ((sampleTask ''t'')\<lparr>t_DAGID := ''dag'', t_DAGNodeID := ''a''\<rparr>) False ''boom'' staleCore) =
   Some (Some NodeRunning, Some NodeRunning)"
  by code_simp

text \<open>
  C23: progress. With a row for every node, \<open>progress\<close> returns the waiting nodes all of whose
  dependencies succeeded or were skipped, in the order of the definition, and concludes the DAG
  exactly when no node is waiting, ready or running: as failed if some node failed, as
  succeeded otherwise.
\<close>

theorem progress_correct:
  assumes "wf_nodes (dd_Nodes (d_Def d))" "\<And>n. n \<in> set (dd_Nodes (d_Def d)) \<Longrightarrow> stateIn byID (nd_ID n) \<noteq> None"
  shows "\<exists>rdy agg. progress d byID = Some (rdy, agg) \<and> rdy = released (dd_Nodes (d_Def d)) (stateIn byID) \<and>
    (agg = None \<longleftrightarrow> (\<exists>n \<in> set (dd_Nodes (d_Def d)). stateIn byID (nd_ID n) \<in> {Some NodeWaiting, Some NodeReady, Some NodeRunning})) \<and>
    (agg = Some DAGFailed \<longrightarrow> (\<exists>n \<in> set (dd_Nodes (d_Def d)). stateIn byID (nd_ID n) = Some NodeFailed)) \<and>
    (agg = Some DAGSucceeded \<longrightarrow> (\<forall>n \<in> set (dd_Nodes (d_Def d)). stateIn byID (nd_ID n) \<in> {Some NodeSucceeded, Some NodeSkipped}))"
proof -
  have d: "distinct (map nd_ID (dd_Nodes (d_Def d)))" using assms(1) by (simp add: wf_nodes_def)
  have st: "stateIn byID (nd_ID n) \<in> {Some NodeSucceeded, Some NodeSkipped}"
    if "n \<in> set (dd_Nodes (d_Def d))" "stateIn byID (nd_ID n) \<notin> {Some NodeWaiting, Some NodeReady, Some NodeRunning}"
      "stateIn byID (nd_ID n) \<noteq> Some NodeFailed" for n
    using assms(2) [OF that(1)] that(2,3) by (cases "stateIn byID (nd_ID n)"; cases "the (stateIn byID (nd_ID n))") auto
  have p: "progress d byID = Some (released (dd_Nodes (d_Def d)) (stateIn byID),
      if (\<forall>n \<in> set (dd_Nodes (d_Def d)). stateIn byID (nd_ID n) \<notin> {Some NodeWaiting, Some NodeReady, Some NodeRunning})
      then Some (if \<exists>n \<in> set (dd_Nodes (d_Def d)). stateIn byID (nd_ID n) = Some NodeFailed then DAGFailed else DAGSucceeded) else None)"
    by (rule progress_view [OF _ d]) (rule assms(2))
  show ?thesis unfolding p by (intro exI conjI, rule refl, rule refl) (use st in \<open>auto split: if_splits\<close>)
qed

theorem progress_correct_witness:
  "\<exists>agg. progress chainDag [(''a'', (newNode ''dag'' 5 (dagNode ''a'' []))\<lparr>n_State := NodeSucceeded\<rparr>),
       (''b'', newNode ''dag'' 5 (dagNode ''b'' [''a'']))] = Some ([''b''], agg)"
proof -
  let ?b = "[(''a'', (newNode ''dag'' 5 (dagNode ''a'' []))\<lparr>n_State := NodeSucceeded\<rparr>), (''b'', newNode ''dag'' 5 (dagNode ''b'' [''a'']))]"
  have "wf_nodes (dd_Nodes (d_Def chainDag))" using chain_run(1) by (simp add: dag_run_def)
  moreover have "stateIn ?b (nd_ID n) \<noteq> None" if "n \<in> set (dd_Nodes (d_Def chainDag))" for n
    using that by (auto simp: chainDag_def chainDef_def dagNode_def stateIn_def)
  moreover have "released (dd_Nodes (d_Def chainDag)) (stateIn ?b) = [''b'']" by code_simp
  ultimately show ?thesis using progress_correct [of chainDag ?b] by auto
qed

text \<open>
  C24: the default failure policy. When a running node of such a DAG fails and no call is
  faulted, the DAG is failed, the node is failed, every node that was waiting or ready is skipped,
  every other node keeps its state, and no task is created, changed or queued.
\<close>

theorem dag_abort:
  assumes "dag_run d (co_db st)" "d_Status d = DAGRunning" "t_DAGID t = d_ID d" "d_ID d \<noteq> ''''"
    "nodeStates (co_db st) (d_ID d) (t_DAGNodeID t) = Some NodeRunning"
    "d_FailurePolicy d \<noteq> DAGSkip" "d_FailurePolicy d \<noteq> DAGRetry"
    "k_fault (oe_get e) = None" "k_fault (oe_list e) = None" "k_fault (oe_update e) = None"
  shows "\<exists>st' d'. OnTaskTerminal e t False msg st = Some st' \<and> lookupRow d_ID (d_ID d) (dags (co_db st')) = Some d' \<and>
    d_Status d' = DAGFailed \<and> nodeStates (co_db st') (d_ID d) (t_DAGNodeID t) = Some NodeFailed \<and>
    (\<forall>y. y \<noteq> t_DAGNodeID t \<longrightarrow> nodeStates (co_db st') (d_ID d) y =
       (if nodeStates (co_db st) (d_ID d) y \<in> {Some NodeWaiting, Some NodeReady} then Some NodeSkipped
        else nodeStates (co_db st) (d_ID d) y)) \<and>
    tasks (co_db st') = tasks (co_db st) \<and> co_q st' = co_q st"
proof -
  let ?v = "nodeStates (co_db st) (d_ID d)" and ?x = "t_DAGNodeID t"
  let ?nodes = "sort_key n_NodeID (selectWhere (\<lambda>n. n_DAGID n = d_ID d) (dag_nodes (co_db st)))"
  let ?st' = "st\<lparr>co_db := snd (UpdateDAGNodes (oe_update e) (d_ID d) (Some DAGFailed) (abortUpdates ?nodes ?x) (co_db st))\<rparr>"
  have inv: "dag_inv (co_db st)" and dag: "lookupRow d_ID (d_ID d) (dags (co_db st)) = Some d"
    using assms(1) by (simp_all add: dag_run_def)
  have "stateIn (map (\<lambda>n. (n_NodeID n, n)) ?nodes) ?x = Some NodeRunning"
    unfolding byID_view [OF inv] by (rule assms(5))
  then obtain node where node: "map_of (map (\<lambda>n. (n_NodeID n, n)) ?nodes) ?x = Some node" by (auto simp: stateIn_def)
  then have nid: "n_NodeID node = ?x" by (auto simp: map_of_lookupRow dest: lookupRow_Some)
  have h: "OnTaskTerminal e t False msg st = Some ?st'"
    using assms(2-4,6-9) dag node nid by (simp add: OnTaskTerminal_def GetDAG_def ListDAGNodes_def poolQuery_def)
  have v': "nodeStates (co_db ?st') (d_ID d) = aborted ?x ?v"
    using UpdateDAGNodes_view(1) [OF assms(10)] abort_handler_view [OF inv, of "d_ID d" ?x] assms(5) by simp
  have d': "lookupRow d_ID (d_ID d) (dags (co_db ?st')) = Some (d\<lparr>d_Status := DAGFailed, d_FinishedAt := Some (k_dbnow (oe_update e))\<rparr>)"
    using UpdateDAGNodes_view(2) [OF assms(10), of "d_ID d" "Some DAGFailed" "abortUpdates ?nodes ?x" "co_db st"] dag by simp
  show ?thesis
  proof (intro exI conjI)
    show "OnTaskTerminal e t False msg st = Some ?st'" by (rule h)
    show "lookupRow d_ID (d_ID d) (dags (co_db ?st')) = Some (d\<lparr>d_Status := DAGFailed, d_FinishedAt := Some (k_dbnow (oe_update e))\<rparr>)"
      by (rule d')
    show "nodeStates (co_db ?st') (d_ID d) ?x = Some NodeFailed" unfolding v' by (simp add: aborted_def)
    show "\<forall>y. y \<noteq> ?x \<longrightarrow> nodeStates (co_db ?st') (d_ID d) y = (if ?v y \<in> {Some NodeWaiting, Some NodeReady} then Some NodeSkipped else ?v y)"
      unfolding v' by (auto simp: aborted_def)
  qed simp_all
qed

theorem dag_abort_witness:
  "\<exists>st'. OnTaskTerminal sampleTermEnv ((sampleTask ''t'')\<lparr>t_DAGID := ''dag'', t_DAGNodeID := ''a''\<rparr>) False ''boom'' chainCore = Some st' \<and>
     nodeStates (co_db st') ''dag'' ''a'' = Some NodeFailed \<and> nodeStates (co_db st') ''dag'' ''b'' = Some NodeSkipped"
  using dag_abort [OF chain_run(1), of "(sampleTask ''t'')\<lparr>t_DAGID := ''dag'', t_DAGNodeID := ''a''\<rparr>" sampleTermEnv "''boom''"] chain_run(2,3)
  by (auto simp: chainDag_def sampleTermEnv_def sampleCall_def)

end
