(* ===== verification/Executors.thy ===== *)
theory Executors
  imports Orchestration
begin

text \<open>
  The two kinds of executor: the in-process worker of \<open>internal/workerpool\<close> and the external
  worker of \<open>internal/runtime/external.go\<close>. What the scheduler relies on, that a reservation
  succeeds only within the slots and that releasing gives exactly that slot back, is the locale
  \<open>slot_executor\<close>, interpreted on both. A task runs in its own goroutine; the model gives the
  start of the run (\<open>Deliver\<close>) and its end (\<open>runOneEnd\<close>) as separate steps, so that anything can
  happen in between.
\<close>

section \<open>The interface\<close>

locale slot_executor =
  fixes used :: "'e \<Rightarrow> string set"
    and slots :: "'e \<Rightarrow> int"
    and accepting :: "'e \<Rightarrow> bool"
    and can :: "string \<Rightarrow> 'e \<Rightarrow> bool"
    and reserve :: "string \<Rightarrow> 'e \<Rightarrow> bool \<times> 'e"
    and release :: "string \<Rightarrow> 'e \<Rightarrow> 'e"
    and invar :: "'e \<Rightarrow> bool"
  assumes used_finite: "finite (used e)"
    and can_room: "invar e \<Longrightarrow> can ty e \<Longrightarrow> accepting e \<and> int (card (used e)) < slots e"
    and reserve_ok: "invar e \<Longrightarrow> reserve tid e = (True, e') \<Longrightarrow>
      tid \<notin> used e \<and> used e' = insert tid (used e) \<and> slots e' = slots e \<and> int (card (used e)) < slots e \<and>
      accepting e \<and> invar e'"
    and reserve_no: "reserve tid e = (False, e') \<Longrightarrow> e' = e"
    and reserve_when: "invar e \<Longrightarrow> accepting e \<Longrightarrow> int (card (used e)) < slots e \<Longrightarrow> tid \<notin> used e \<Longrightarrow> fst (reserve tid e)"
    and release_used: "invar e \<Longrightarrow> used (release tid e) = used e - {tid} \<and> slots (release tid e) = slots e \<and> invar (release tid e)"
begin

lemma reserve_keeps:
  assumes "invar e" "int (card (used e)) \<le> slots e"
  shows "invar (snd (reserve tid e)) \<and> int (card (used (snd (reserve tid e)))) \<le> slots (snd (reserve tid e)) \<and>
    slots (snd (reserve tid e)) = slots e"
proof (cases "reserve tid e")
  case (Pair b e')
  then show ?thesis using assms reserve_ok [OF assms(1), of tid e'] reserve_no [of tid e e'] used_finite [of e]
    by (cases b) auto
qed

lemma release_keeps:
  assumes "invar e" "int (card (used e)) \<le> slots e"
  shows "invar (release tid e) \<and> int (card (used (release tid e))) \<le> slots (release tid e) \<and> slots (release tid e) = slots e"
  using assms release_used [OF assms(1), of tid] card_Diff1_le [of "used e" tid] by auto

lemma reserve_after_release:
  assumes "invar e" "accepting (release tid e)" "int (card (used e)) \<le> slots e" "tid \<in> used e" "x \<notin> used e"
  shows "fst (reserve x (release tid e))"
proof -
  have "card (used e - {tid}) < card (used e)" by (rule card_Diff1_less [OF used_finite assms(4)])
  then show ?thesis using assms release_used [OF assms(1), of tid] by (intro reserve_when) auto
qed

end

section \<open>The in-process worker\<close>

text \<open>
  What a handler returns: a result, an \<open>ExecError\<close> with its category, another error with its
  message, or a panic.
\<close>

datatype HandlerErr = ExecError string string | OtherError string

datatype HandlerOut = HandlerOk string | HandlerFail HandlerErr | HandlerPanic

fun errorText :: "HandlerErr \<Rightarrow> string" where
  "errorText (ExecError msg cat) = msg"
| "errorText (OtherError msg) = msg"

record inflight =
  if_task :: Task
  if_deadline :: time
  if_preempted :: bool
  if_canceled :: bool

record PoolWorker =
  pw_id :: string
  pw_name :: string
  pw_capabilities :: "string list"
  pw_slots :: int
  pw_handlers :: "string list"
  pw_leaseSeconds :: int
  pw_tasks :: "(string, inflight) amap"
  pw_reserved :: "string list"
  pw_draining :: bool
  pw_closed :: bool

definition NewWorker :: "string \<Rightarrow> string \<Rightarrow> string list \<Rightarrow> int \<Rightarrow> int \<Rightarrow> PoolWorker" where
  "NewWorker i name handlers slots leaseSeconds =
     \<lparr>pw_id = i, pw_name = name, pw_capabilities = handlers, pw_slots = slots, pw_handlers = handlers,
      pw_leaseSeconds = (if leaseSeconds \<le> 0 then 30 else leaseSeconds),
      pw_tasks = [], pw_reserved = [], pw_draining = False, pw_closed = False\<rparr>"

definition usedLocked :: "PoolWorker \<Rightarrow> int" where
  "usedLocked w = int (length (pw_tasks w)) + int (length (pw_reserved w))"

definition poolCanHandle :: "string \<Rightarrow> PoolWorker \<Rightarrow> bool" where
  "poolCanHandle taskType w =
     (if pw_draining w \<or> pw_closed w then False
      else if usedLocked w \<ge> pw_slots w then False
      else if taskType = '''' then True
      else if ''*'' \<in> set (pw_capabilities w) then True
      else taskType \<in> set (pw_capabilities w))"

definition poolCapable :: "string \<Rightarrow> PoolWorker \<Rightarrow> bool" where
  "poolCapable taskType w =
     (if taskType = '''' \<or> ''*'' \<in> set (pw_capabilities w) then True else taskType \<in> set (pw_capabilities w))"

definition poolHasPreemptibleTask :: "PoolWorker \<Rightarrow> bool" where
  "poolHasPreemptibleTask w = list_ex (\<lambda>e. Rank (t_Priority (if_task (snd e))) \<ge> Rank PriorityNormal) (pw_tasks w)"

definition poolReserveSlot :: "string \<Rightarrow> PoolWorker \<Rightarrow> bool \<times> PoolWorker" where
  "poolReserveSlot tid w =
     (if pw_draining w \<or> pw_closed w then (False, w)
      else if usedLocked w \<ge> pw_slots w then (False, w)
      else if map_of (pw_tasks w) tid \<noteq> None then (False, w)
      else if tid \<in> set (pw_reserved w) then (False, w)
      else (True, w\<lparr>pw_reserved := pw_reserved w @ [tid]\<rparr>))"

definition poolReleaseSlot :: "string \<Rightarrow> PoolWorker \<Rightarrow> PoolWorker" where
  "poolReleaseSlot tid w = w\<lparr>pw_reserved := removeAll tid (pw_reserved w), pw_tasks := adel tid (pw_tasks w)\<rparr>"

text \<open>
  \<open>Deliver\<close> returns without doing anything, reports a missing handler, or starts the run; the
  error message of a missing handler is the one the code reports.
\<close>

datatype DeliverOut = DeliverGone | DeliverNoHandler string | DeliverStarted

definition runDeadline :: "time \<Rightarrow> Task \<Rightarrow> time" where
  "runDeadline now t = (case t_LeaseExpiresAt t of None \<Rightarrow> now + t_TimeoutSeconds t * Second | Some l \<Rightarrow> l)"

definition poolDeliver :: "time \<Rightarrow> Task \<Rightarrow> PoolWorker \<Rightarrow> DeliverOut \<times> PoolWorker" where
  "poolDeliver now t w =
     (if t_ID t \<notin> set (pw_reserved w) then (DeliverGone, w)
      else let w1 = w\<lparr>pw_reserved := removeAll (t_ID t) (pw_reserved w)\<rparr> in
        if t_Type t \<notin> set (pw_handlers w) then (DeliverNoHandler (''no handler registered for type: '' @ t_Type t), w1)
        else (DeliverStarted, w1\<lparr>pw_tasks := aput (t_ID t)
                \<lparr>if_task = t, if_deadline = runDeadline now t, if_preempted = False, if_canceled = False\<rparr> (pw_tasks w1)\<rparr>))"

definition poolPreempt :: "string \<Rightarrow> PoolWorker \<Rightarrow> PoolWorker" where
  "poolPreempt tid w =
     (case map_of (pw_tasks w) tid of
        None \<Rightarrow> w
      | Some it \<Rightarrow> w\<lparr>pw_tasks := aput tid (it\<lparr>if_preempted := True, if_canceled := True\<rparr>) (pw_tasks w)\<rparr>)"

definition poolRunningTasks :: "PoolWorker \<Rightarrow> (string, Task) amap" where
  "poolRunningTasks w = map (\<lambda>e. (fst e, if_task (snd e))) (pw_tasks w)"

subsection \<open>The end of a run\<close>

definition runTimeout :: "Task \<Rightarrow> duration" where
  "runTimeout t = (let d = t_TimeoutSeconds t * Second in if d \<le> 0 then 60 * Second else d)"

definition runHandlerSafely :: "HandlerOut \<Rightarrow> HandlerErr + string" where
  "runHandlerSafely h =
     (case h of HandlerOk res \<Rightarrow> Inr res | HandlerFail e \<Rightarrow> Inl e
      | HandlerPanic \<Rightarrow> Inl (ExecError ''handler panic'' ''panic''))"

text \<open>The package's own substring search: the first position, or \<open>-1\<close>.\<close>

function indexFrom :: "nat \<Rightarrow> string \<Rightarrow> string \<Rightarrow> int" where
  "indexFrom i s sub =
     (if i + length sub \<le> length s then
        if take (length sub) (drop i s) = sub then int i else indexFrom (Suc i) s sub
      else - 1)"
  by pat_completeness auto
termination
  by (relation "measure (\<lambda>(i, s, sub). Suc (length s) - i)") auto

declare indexFrom.simps [simp del]

definition indexOf :: "string \<Rightarrow> string \<Rightarrow> int" where
  "indexOf s sub = indexFrom 0 s sub"

definition containsAny :: "string \<Rightarrow> string list \<Rightarrow> bool" where
  "containsAny s subs = list_ex (\<lambda>sub. indexOf s sub \<ge> 0) subs"

definition categorize :: "HandlerErr \<Rightarrow> bool \<Rightarrow> string" where
  "categorize e deadlineExceeded =
     (case e of
        ExecError msg cat \<Rightarrow> if cat \<noteq> '''' then cat
          else if deadlineExceeded then ''timeout''
          else if containsAny msg [''timeout'', ''deadline''] then ''timeout''
          else if containsAny msg [''panic''] then ''panic'' else ''handler_error''
      | OtherError msg \<Rightarrow> if deadlineExceeded then ''timeout''
          else if containsAny msg [''timeout'', ''deadline''] then ''timeout''
          else if containsAny msg [''panic''] then ''panic'' else ''handler_error'')"

lemma indexFrom_found: "i \<le> length s \<Longrightarrow> 0 \<le> indexFrom i s sub \<longleftrightarrow> sublist sub (drop i s)"
proof (induction i s sub rule: indexFrom.induct)
  case (1 i s sub)
  show ?case
  proof (cases "i + length sub \<le> length s")
    case True
    show ?thesis
    proof (cases "drop i s")
      case Nil
      then have "length s \<le> i" by simp
      with True have "length sub = 0" by linarith
      then show ?thesis using True by (subst indexFrom.simps) simp
    next
      case (Cons c cs)
      then have d: "drop (Suc i) s = cs" by (metis drop_Suc list.sel(3) tl_drop)
      have "Suc i \<le> length s" using Cons by (metis Suc_leI drop_eq_Nil leI list.distinct(1))
      moreover have "prefix sub (c # cs) \<longleftrightarrow> take (length sub) (c # cs) = sub"
        by (metis append_eq_conv_conj prefix_def)
      ultimately show ?thesis using 1 True Cons d
        by (simp add: indexFrom.simps [of i] sublist_Cons_right)
    qed
  next
    case False
    then have "\<not> sublist sub (drop i s)" using sublist_length_le [of sub "drop i s"] 1(2) by auto
    then show ?thesis using False by (simp add: indexFrom.simps [of i])
  qed
qed

lemma containsAny_iff [go_strings]: "containsAny s subs \<longleftrightarrow> (\<exists>sub \<in> set subs. Contains s sub)"
  by (simp add: containsAny_def indexOf_def indexFrom_found Contains_sublist list_ex_iff)

record runReport =
  rr_success :: bool
  rr_result :: string
  rr_error :: string
  rr_category :: string

text \<open>
  What \<open>runOne\<close> does once the handler has returned: nothing to report when the entry is marked
  preempted, one report otherwise, and the slot is released in either case.
\<close>

definition runOneEnd :: "HandlerOut \<Rightarrow> bool \<Rightarrow> Task \<Rightarrow> PoolWorker \<Rightarrow> runReport option \<times> PoolWorker" where
  "runOneEnd h deadlineExceeded t w =
     (let wasPreempted = (case map_of (pw_tasks w) (t_ID t) of None \<Rightarrow> False | Some it \<Rightarrow> if_preempted it) in
      if wasPreempted then (None, poolReleaseSlot (t_ID t) w)
      else (case runHandlerSafely h of
              Inl e \<Rightarrow> (Some \<lparr>rr_success = False, rr_result = '''', rr_error = errorText e,
                              rr_category = categorize e deadlineExceeded\<rparr>, poolReleaseSlot (t_ID t) w)
            | Inr res \<Rightarrow> (Some \<lparr>rr_success = True, rr_result = res, rr_error = '''', rr_category = ''''\<rparr>,
                          poolReleaseSlot (t_ID t) w)))"

text \<open>A tick of the lease renewer: a failed renewal cancels the run and ends the renewer.\<close>

definition leaseTick :: "call \<Rightarrow> Task \<Rightarrow> PoolWorker \<Rightarrow> db \<Rightarrow> bool \<times> PoolWorker \<times> db" where
  "leaseTick c t w s =
     (case engineRenewLease c (t_ID t) (pw_id w) (pw_leaseSeconds w * Second) s of
        (True, s1) \<Rightarrow> (True, w, s1)
      | (False, s1) \<Rightarrow>
          (False,
           (case map_of (pw_tasks w) (t_ID t) of
              None \<Rightarrow> w
            | Some it \<Rightarrow> w\<lparr>pw_tasks := aput (t_ID t) (it\<lparr>if_canceled := True\<rparr>) (pw_tasks w)\<rparr>), s1))"

record Snapshot =
  sn_ID :: string
  sn_Name :: string
  sn_Capabilities :: "string list"
  sn_TotalSlots :: int
  sn_UsedSlots :: int
  sn_CurrentTasks :: "string list"
  sn_Draining :: bool

definition SnapshotForHeartbeat :: "PoolWorker \<Rightarrow> Snapshot" where
  "SnapshotForHeartbeat w =
     \<lparr>sn_ID = pw_id w, sn_Name = pw_name w, sn_Capabilities = pw_capabilities w, sn_TotalSlots = pw_slots w,
      sn_UsedSlots = usedLocked w, sn_CurrentTasks = map fst (pw_tasks w), sn_Draining = pw_draining w\<rparr>"

definition emptySnapshot :: Snapshot where
  "emptySnapshot = \<lparr>sn_ID = '''', sn_Name = '''', sn_Capabilities = [], sn_TotalSlots = 0, sn_UsedSlots = 0,
     sn_CurrentTasks = [], sn_Draining = False\<rparr>"

text \<open>
  The heartbeat sink of the embedded worker (\<open>newEmbeddedWorker\<close>), and the snapshots the
  heartbeat loop hands it: an empty one at once, then one per tick.
\<close>

definition heartbeatSink :: "call \<Rightarrow> call \<Rightarrow> Snapshot \<Rightarrow> db \<Rightarrow> db" where
  "heartbeatSink c c' sn s =
     (if sn_ID sn = '''' then s
      else snd (Heartbeat c c'
        \<lparr>w_ID = sn_ID sn, w_Name = sn_Name sn, w_Capabilities = sn_Capabilities sn, w_TotalSlots = sn_TotalSlots sn,
         w_UsedSlots = sn_UsedSlots sn, w_Status = (if sn_Draining sn then Draining else Online), w_LastHeartbeat = zeroTime,
         w_CurrentTaskIDs = sn_CurrentTasks sn, w_Completed = 0, w_Failed = 0, w_CreatedAt = zeroTime\<rparr> s))"

definition heartbeatSnapshots :: "PoolWorker list \<Rightarrow> Snapshot list" where
  "heartbeatSnapshots ticks = emptySnapshot # map SnapshotForHeartbeat ticks"

text \<open>\<open>Drain\<close>: first no new work, then, once the runs ended or the wait was cut short, closed.\<close>

definition drainBegin :: "PoolWorker \<Rightarrow> PoolWorker" where
  "drainBegin w = w\<lparr>pw_draining := True\<rparr>"

definition drainEnd :: "PoolWorker \<Rightarrow> PoolWorker" where
  "drainEnd w = w\<lparr>pw_closed := True\<rparr>"

subsection \<open>The worker implements the interface\<close>

definition poolUsed :: "PoolWorker \<Rightarrow> string set" where
  "poolUsed w = fst ` set (pw_tasks w) \<union> set (pw_reserved w)"

definition pool_inv :: "PoolWorker \<Rightarrow> bool" where
  "pool_inv w \<longleftrightarrow> distinct (map fst (pw_tasks w)) \<and> distinct (pw_reserved w) \<and>
     fst ` set (pw_tasks w) \<inter> set (pw_reserved w) = {}"

definition poolAccepting :: "PoolWorker \<Rightarrow> bool" where
  "poolAccepting w \<longleftrightarrow> \<not> pw_draining w \<and> \<not> pw_closed w"

lemma usedLocked_card: "pool_inv w \<Longrightarrow> usedLocked w = int (card (poolUsed w))"
proof -
  assume w: "pool_inv w"
  then have "card (fst ` set (pw_tasks w)) = length (pw_tasks w)"
    using distinct_card [of "map fst (pw_tasks w)"] by (simp add: pool_inv_def)
  moreover have "card (set (pw_reserved w)) = length (pw_reserved w)" using w by (simp add: pool_inv_def distinct_card)
  ultimately show ?thesis using w by (simp add: usedLocked_def poolUsed_def pool_inv_def card_Un_disjoint)
qed

lemma map_of_keys: "map_of m x \<noteq> None \<longleftrightarrow> x \<in> fst ` set m"
  by (metis map_of_eq_None_iff)

interpretation pool: slot_executor poolUsed pw_slots poolAccepting poolCanHandle poolReserveSlot poolReleaseSlot pool_inv
proof (unfold_locales, goal_cases)
  case (1 e)
  then show ?case by (simp add: poolUsed_def)
next
  case (2 e ty)
  then show ?case using usedLocked_card [OF 2(1)] by (auto simp: poolCanHandle_def poolAccepting_def split: if_splits)
next
  case (3 e tid e')
  then have "tid \<notin> fst ` set (pw_tasks e)" "tid \<notin> set (pw_reserved e)" "e' = e\<lparr>pw_reserved := pw_reserved e @ [tid]\<rparr>"
    by (auto simp: poolReserveSlot_def map_of_eq_None_iff split: if_splits)
  then show ?case using 3 usedLocked_card [OF 3(1)]
    by (auto simp: poolReserveSlot_def poolUsed_def pool_inv_def poolAccepting_def split: if_splits)
next
  case (4 tid e e')
  then show ?case by (auto simp: poolReserveSlot_def split: if_splits)
next
  case (5 e tid)
  then show ?case using usedLocked_card [OF 5(1)]
    by (auto simp: poolReserveSlot_def poolAccepting_def poolUsed_def map_of_eq_None_iff)
next
  case (6 e tid)
  then show ?case by (auto simp: poolReleaseSlot_def poolUsed_def pool_inv_def keys_adel adel_def distinct_map_filter distinct_removeAll)
qed

section \<open>The external worker\<close>

text \<open>
  The claim channel is a bounded buffer; \<open>ew_closed\<close> says it was closed. Sending on a closed
  channel panics, receiving from it returns at once with nothing.
\<close>

record ExternalWorker =
  ew_id :: string
  ew_caps :: "string list"
  ew_slots :: int
  ew_used :: "string list"
  ew_pending :: "Task list"
  ew_cap :: int
  ew_closed :: bool
  ew_preempt :: "string list"
  ew_online :: bool

definition newExternalWorker :: "string \<Rightarrow> string list \<Rightarrow> int \<Rightarrow> ExternalWorker" where
  "newExternalWorker i caps slots =
     \<lparr>ew_id = i, ew_caps = caps, ew_slots = slots, ew_used = [], ew_pending = [], ew_cap = slots * 2 + 4,
      ew_closed = False, ew_preempt = [], ew_online = True\<rparr>"

definition extCanHandle :: "string \<Rightarrow> ExternalWorker \<Rightarrow> bool" where
  "extCanHandle taskType w =
     (if \<not> ew_online w \<or> int (length (ew_used w)) \<ge> ew_slots w then False
      else if taskType = '''' \<or> ''*'' \<in> set (ew_caps w) then True
      else taskType \<in> set (ew_caps w))"

definition extCapable :: "string \<Rightarrow> ExternalWorker \<Rightarrow> bool" where
  "extCapable taskType w =
     (if \<not> ew_online w then False else taskType = '''' \<or> ''*'' \<in> set (ew_caps w) \<or> taskType \<in> set (ew_caps w))"

definition extReserveSlot :: "string \<Rightarrow> ExternalWorker \<Rightarrow> bool \<times> ExternalWorker" where
  "extReserveSlot tid w =
     (if \<not> ew_online w \<or> int (length (ew_used w)) \<ge> ew_slots w then (False, w)
      else if tid \<in> set (ew_used w) then (False, w)
      else (True, w\<lparr>ew_used := ew_used w @ [tid]\<rparr>))"

definition extReleaseSlot :: "string \<Rightarrow> ExternalWorker \<Rightarrow> ExternalWorker" where
  "extReleaseSlot tid w = w\<lparr>ew_used := removeAll tid (ew_used w)\<rparr>"

text \<open>
  \<open>Deliver\<close>: \<open>canceled\<close> is the error of the context when the \<open>select\<close> takes its branch;
  \<open>None\<close> is the panic of a send on a closed channel.
\<close>

definition extDeliver :: "err option \<Rightarrow> Task \<Rightarrow> ExternalWorker \<Rightarrow> (unit res \<times> ExternalWorker) option" where
  "extDeliver canceled t w =
     (if \<not> ew_online w then Some (Inl ErrWorkerGone, w)
      else (case canceled of
              Some e \<Rightarrow> Some (Inl e, w)
            | None \<Rightarrow>
                if ew_closed w then None
                else if int (length (ew_pending w)) < ew_cap w then Some (Inr (), w\<lparr>ew_pending := ew_pending w @ [t]\<rparr>)
                else Some (Inl ErrBufferFull, w)))"

definition extPreempt :: "string \<Rightarrow> ExternalWorker \<Rightarrow> ExternalWorker" where
  "extPreempt tid w = w\<lparr>ew_preempt := (if tid \<in> set (ew_preempt w) then ew_preempt w else ew_preempt w @ [tid])\<rparr>"

definition takePreempt :: "string \<Rightarrow> ExternalWorker \<Rightarrow> bool \<times> ExternalWorker" where
  "takePreempt tid w = (tid \<in> set (ew_preempt w), w\<lparr>ew_preempt := removeAll tid (ew_preempt w)\<rparr>)"

text \<open>A poll that finds the buffer empty waits; \<open>None\<close> is its answer when the wait ends.\<close>

definition PollClaim :: "ExternalWorker \<Rightarrow> Task option \<times> ExternalWorker" where
  "PollClaim w = (case ew_pending w of [] \<Rightarrow> (None, w) | t # ts \<Rightarrow> (Some t, w\<lparr>ew_pending := ts\<rparr>))"

text \<open>Closing a channel a second time panics.\<close>

definition markOffline :: "ExternalWorker \<Rightarrow> ExternalWorker option" where
  "markOffline w = (if ew_closed w then None else Some (w\<lparr>ew_online := False, ew_closed := True\<rparr>))"

definition ext_inv :: "ExternalWorker \<Rightarrow> bool" where
  "ext_inv w \<longleftrightarrow> distinct (ew_used w)"

interpretation ext: slot_executor "\<lambda>w. set (ew_used w)" ew_slots ew_online extCanHandle extReserveSlot extReleaseSlot ext_inv
proof (unfold_locales, goal_cases)
  case (2 e ty)
  then show ?case by (auto simp: extCanHandle_def ext_inv_def distinct_card split: if_splits)
next
  case (3 e tid e')
  then show ?case by (auto simp: extReserveSlot_def ext_inv_def distinct_card split: if_splits)
next
  case (4 tid e e')
  then show ?case by (auto simp: extReserveSlot_def split: if_splits)
next
  case (5 e tid)
  then show ?case by (auto simp: extReserveSlot_def ext_inv_def distinct_card)
next
  case (6 e tid)
  then show ?case by (auto simp: extReleaseSlot_def ext_inv_def distinct_removeAll)
qed simp

section \<open>The external manager\<close>

record ExternalManager =
  em_workers :: "(string, ExternalWorker) amap"
  em_running :: "(string, (string, Task) amap) amap"

definition emptyManager :: ExternalManager where
  "emptyManager = \<lparr>em_workers = [], em_running = []\<rparr>"

definition runningOf :: "ExternalManager \<Rightarrow> string \<Rightarrow> (string, Task) amap" where
  "runningOf m wid = (case map_of (em_running m) wid of None \<Rightarrow> [] | Some r \<Rightarrow> r)"

text \<open>The refresh of a registered worker: capabilities are added, never taken away.\<close>

definition refreshWorker :: "string list \<Rightarrow> int \<Rightarrow> ExternalWorker \<Rightarrow> ExternalWorker" where
  "refreshWorker caps slots w =
     (let w1 = w\<lparr>ew_caps := ew_caps w @ filter (\<lambda>c. c \<notin> set (ew_caps w)) (remdups caps)\<rparr>;
          w2 = (if slots > 0 then w1\<lparr>ew_slots := slots\<rparr> else w1)
      in w2\<lparr>ew_online := True\<rparr>)"

definition registerLocal :: "string \<Rightarrow> string list \<Rightarrow> int \<Rightarrow> ExternalManager \<Rightarrow> ExternalWorker \<times> ExternalManager" where
  "registerLocal wid caps slots m =
     (case map_of (em_workers m) wid of
        None \<Rightarrow> let w = newExternalWorker wid caps slots
                in (w, m\<lparr>em_workers := aput wid w (em_workers m), em_running := aput wid [] (em_running m)\<rparr>)
      | Some w0 \<Rightarrow> let w = refreshWorker caps slots w0 in (w, m\<lparr>em_workers := aput wid w (em_workers m)\<rparr>))"

definition registeredWorker :: "string \<Rightarrow> string \<Rightarrow> string list \<Rightarrow> int \<Rightarrow> Worker" where
  "registeredWorker wid name caps slots =
     \<lparr>w_ID = wid, w_Name = name, w_Capabilities = caps, w_TotalSlots = slots, w_UsedSlots = 0, w_Status = Online,
      w_LastHeartbeat = zeroTime, w_CurrentTaskIDs = [], w_Completed = 0, w_Failed = 0, w_CreatedAt = zeroTime\<rparr>"

text \<open>
  \<open>Register\<close>: the worker joins the manager before it is persisted; only after the store
  accepted it is it handed to the scheduler (the returned worker).
\<close>

definition Register ::
  "call \<Rightarrow> string \<Rightarrow> string \<Rightarrow> string list \<Rightarrow> int \<Rightarrow> ExternalManager \<Rightarrow> db \<Rightarrow> ExternalWorker res \<times> ExternalManager \<times> db" where
  "Register c wid name caps slots m s =
     (case registerLocal wid caps slots m of
        (w, m1) \<Rightarrow>
          (case UpsertWorker c (registeredWorker wid name caps slots) s of
             (Inl e, s1) \<Rightarrow> (Inl e, m1, s1)
           | (Inr _, s1) \<Rightarrow> (Inr w, m1, s1)))"

text \<open>
  \<open>Get\<close> returns an interface value; a missing worker is a nil pointer inside a non-nil
  interface, so the caller's test for nil fails. The outer option is that interface value.
\<close>

definition Get :: "string \<Rightarrow> ExternalManager \<Rightarrow> ExternalWorker option option" where
  "Get wid m = Some (map_of (em_workers m) wid)"

definition extHeartbeat :: "call \<Rightarrow> call \<Rightarrow> string \<Rightarrow> string list \<Rightarrow> ExternalManager \<Rightarrow> db \<Rightarrow> unit res \<times> ExternalManager \<times> db" where
  "extHeartbeat c c' wid taskIDs m s =
     (case map_of (em_workers m) wid of
        None \<Rightarrow> (Inl ErrWorkerGone, m, s)
      | Some w \<Rightarrow>
          (case Heartbeat c c' \<lparr>w_ID = wid, w_Name = '''', w_Capabilities = [], w_TotalSlots = ew_slots w,
                   w_UsedSlots = int (length taskIDs), w_Status = Online, w_LastHeartbeat = zeroTime,
                   w_CurrentTaskIDs = taskIDs, w_Completed = 0, w_Failed = 0, w_CreatedAt = zeroTime\<rparr> s of
             (Inl e, s1) \<Rightarrow> (Inl e, m, s1)
           | (Inr _, s1) \<Rightarrow>
               (Inr (), (if map_of (em_running m) wid = None then m\<lparr>em_running := aput wid [] (em_running m)\<rparr> else m), s1)))"

definition TaskStarted :: "string \<Rightarrow> Task \<Rightarrow> ExternalManager \<Rightarrow> ExternalManager" where
  "TaskStarted wid t m = m\<lparr>em_running := aput wid (aput (t_ID t) t (runningOf m wid)) (em_running m)\<rparr>"

definition TaskFinished :: "string \<Rightarrow> string \<Rightarrow> ExternalManager \<Rightarrow> ExternalManager" where
  "TaskFinished wid tid m =
     (case map_of (em_running m) wid of
        None \<Rightarrow> m
      | Some r \<Rightarrow> m\<lparr>em_running := aput wid (adel tid r) (em_running m)\<rparr>)"

definition snapshotRunning :: "string \<Rightarrow> ExternalManager \<Rightarrow> (string, Task) amap" where
  "snapshotRunning wid m = runningOf m wid"

definition SnapshotIDs :: "string \<Rightarrow> ExternalManager \<Rightarrow> string list" where
  "SnapshotIDs wid m = map fst (runningOf m wid)"

text \<open>\<open>WorkerOffline\<close>; the removal from the scheduler (\<open>OnRemove\<close>) is the caller's next step.\<close>

definition WorkerOffline :: "string \<Rightarrow> ExternalManager \<Rightarrow> ExternalManager option" where
  "WorkerOffline wid m =
     (let m1 = m\<lparr>em_running := adel wid (em_running m)\<rparr> in
      case map_of (em_workers m) wid of
        None \<Rightarrow> Some (m1\<lparr>em_workers := adel wid (em_workers m1)\<rparr>)
      | Some w \<Rightarrow>
          (case markOffline w of
             None \<Rightarrow> None
           | Some w' \<Rightarrow> Some (m1\<lparr>em_workers := adel wid (em_workers m1)\<rparr>)))"

section \<open>The embedded worker and its handlers\<close>

text \<open>
  What a handler of \<open>embedded.go\<close> learns from outside: the random number of \<open>computeHandler\<close>
  and, for \<open>slowHandler\<close>, the error of its context when that ends before the sleep.
\<close>

record handlerEnv =
  he_rand :: nat
  he_canceled :: "string option"

fun sumLoop :: "nat \<Rightarrow> nat \<Rightarrow> nat \<Rightarrow> nat" where
  "sumLoop 0 i acc = acc"
| "sumLoop (Suc k) i acc = sumLoop k (i + 1) (acc + i)"

definition echoHandler :: "Task \<Rightarrow> HandlerOut" where
  "echoHandler t = HandlerOk (t_Payload t)"

definition flakyHandler :: "Task \<Rightarrow> HandlerOut" where
  "flakyHandler t =
     (if t_Attempts t < 3
      then HandlerFail (ExecError (''flaky transient failure attempt='' @ showInt (t_Attempts t)) ''external_dependency'')
      else HandlerOk (''{'' @ [CHR 0x22] @ ''ok'' @ [CHR 0x22] @ '':true}''))"

definition slowHandler :: "handlerEnv \<Rightarrow> Task \<Rightarrow> HandlerOut" where
  "slowHandler e t =
     (case he_canceled e of
        None \<Rightarrow> HandlerOk (''{'' @ [CHR 0x22] @ ''slow'' @ [CHR 0x22] @ '':true}'')
      | Some msg \<Rightarrow> HandlerFail (OtherError msg))"

definition computeHandler :: "handlerEnv \<Rightarrow> Task \<Rightarrow> HandlerOut" where
  "computeHandler e t =
     (let n = 1000 + he_rand e; total = sumLoop n 0 0
      in HandlerOk (''{'' @ [CHR 0x22] @ ''n'' @ [CHR 0x22] @ '':'' @ showNat n @ '','' @
           [CHR 0x22] @ ''sum'' @ [CHR 0x22] @ '':'' @ showNat total @ ''}''))"

definition embeddedHandlers :: "(string \<times> (handlerEnv \<Rightarrow> Task \<Rightarrow> HandlerOut)) list" where
  "embeddedHandlers =
     [(''sample.echo'', \<lambda>_. echoHandler), (''sample.flaky'', \<lambda>_. flakyHandler), (''sample.slow'', slowHandler),
      (''sample.compute'', computeHandler), (''*'', \<lambda>_. echoHandler)]"

text \<open>\<open>newEmbeddedWorker\<close>: the worker, and its row in the store (the error is ignored).\<close>

definition newEmbeddedWorker :: "call \<Rightarrow> string \<Rightarrow> int \<Rightarrow> int \<Rightarrow> db \<Rightarrow> PoolWorker \<times> db" where
  "newEmbeddedWorker c name slots leaseSeconds s =
     (NewWorker name name (map fst embeddedHandlers) slots leaseSeconds,
      snd (UpsertWorker c
        \<lparr>w_ID = name, w_Name = name,
         w_Capabilities = [''*'', ''sample.echo'', ''sample.flaky'', ''sample.slow'', ''sample.compute''],
         w_TotalSlots = slots, w_UsedSlots = 0, w_Status = Online, w_LastHeartbeat = zeroTime, w_CurrentTaskIDs = [],
         w_Completed = 0, w_Failed = 0, w_CreatedAt = zeroTime\<rparr> s))"

lemma sumLoop_closed: "2 * sumLoop k i s + k = 2 * s + 2 * k * i + k * k"
  by (induction k i s rule: sumLoop.induct) (auto simp: algebra_simps)

section \<open>Runs of the in-process worker\<close>

datatype PoolOp = PoReserve string | PoRelease string | PoDeliver time Task | PoPreempt string
  | PoEnd HandlerOut bool Task | PoDrainBegin | PoDrainEnd

fun poolStep :: "PoolOp \<Rightarrow> PoolWorker \<Rightarrow> PoolWorker" where
  "poolStep (PoReserve tid) w = snd (poolReserveSlot tid w)"
| "poolStep (PoRelease tid) w = poolReleaseSlot tid w"
| "poolStep (PoDeliver now t) w = snd (poolDeliver now t w)"
| "poolStep (PoPreempt tid) w = poolPreempt tid w"
| "poolStep (PoEnd h d t) w = snd (runOneEnd h d t w)"
| "poolStep PoDrainBegin w = drainBegin w"
| "poolStep PoDrainEnd w = drainEnd w"

definition poolRun :: "PoolOp list \<Rightarrow> PoolWorker \<Rightarrow> PoolWorker" where
  "poolRun ops w = fold poolStep ops w"

definition poolFits :: "PoolWorker \<Rightarrow> bool" where
  "poolFits w \<longleftrightarrow> pool_inv w \<and> int (card (poolUsed w)) \<le> pw_slots w"

lemma runOneEnd_releases: "snd (runOneEnd h d t w) = poolReleaseSlot (t_ID t) w"
  by (auto simp: runOneEnd_def Let_def split: option.splits sum.splits)

lemma poolPreempt_used: "pool_inv w \<Longrightarrow> pool_inv (poolPreempt tid w) \<and> poolUsed (poolPreempt tid w) = poolUsed w \<and>
  pw_slots (poolPreempt tid w) = pw_slots w"
  by (auto simp: poolPreempt_def pool_inv_def poolUsed_def keys_aput split: option.splits dest: map_of_SomeD)
    (force dest: map_of_SomeD)+

lemma poolDeliver_used:
  assumes "pool_inv w"
  shows "pool_inv (snd (poolDeliver now t w)) \<and> poolUsed (snd (poolDeliver now t w)) \<subseteq> poolUsed w \<and>
    pw_slots (snd (poolDeliver now t w)) = pw_slots w"
  using assms by (auto simp: poolDeliver_def Let_def pool_inv_def poolUsed_def keys_aput distinct_removeAll)

lemma poolFits_mono:
  "poolFits w \<Longrightarrow> pool_inv w' \<and> poolUsed w' \<subseteq> poolUsed w \<and> pw_slots w' = pw_slots w \<Longrightarrow> poolFits w' \<and> pw_slots w' = pw_slots w"
  using card_mono [OF pool.used_finite, of "poolUsed w'" w] by (simp add: poolFits_def)

lemma poolStep_fits: "poolFits w \<Longrightarrow> poolFits (poolStep op w) \<and> pw_slots (poolStep op w) = pw_slots w"
proof (cases op)
  case (PoReserve tid)
  then show "poolFits w \<Longrightarrow> ?thesis" using pool.reserve_keeps [of w tid] by (simp add: poolFits_def)
next
  case (PoRelease tid)
  then show "poolFits w \<Longrightarrow> ?thesis" using pool.release_keeps [of w tid] by (simp add: poolFits_def)
next
  case (PoEnd h d t)
  then show "poolFits w \<Longrightarrow> ?thesis" using pool.release_keeps [of w "t_ID t"] by (simp add: poolFits_def runOneEnd_releases)
next
  case (PoDeliver now t)
  then show "poolFits w \<Longrightarrow> ?thesis" using poolFits_mono poolDeliver_used by (simp add: poolFits_def)
next
  case (PoPreempt tid)
  then show "poolFits w \<Longrightarrow> ?thesis" using poolPreempt_used by (simp add: poolFits_def)
qed (simp_all add: poolFits_def drainBegin_def drainEnd_def pool_inv_def poolUsed_def)

lemma poolRun_fits: "poolFits w \<Longrightarrow> poolFits (poolRun ops w) \<and> pw_slots (poolRun ops w) = pw_slots w"
  unfolding poolRun_def by (induction ops arbitrary: w) (simp_all add: poolStep_fits)

lemma NewWorker_fits: "0 \<le> slots \<Longrightarrow> poolFits (NewWorker i name hs slots ls)"
  by (simp add: poolFits_def pool_inv_def NewWorker_def poolUsed_def)

section \<open>Runs of the external worker\<close>

datatype ExtOp = EoReserve string | EoRelease string | EoDeliver "err option" Task | EoPreempt string
  | EoTakePreempt string | EoPoll

text \<open>
  One step with the tasks handed in and the tasks handed out by it; \<open>None\<close> is the panic of a
  delivery on a closed channel.
\<close>

fun extStep :: "ExtOp \<Rightarrow> ExternalWorker \<Rightarrow> (Task list \<times> Task list \<times> ExternalWorker) option" where
  "extStep (EoReserve tid) w = Some ([], [], snd (extReserveSlot tid w))"
| "extStep (EoRelease tid) w = Some ([], [], extReleaseSlot tid w)"
| "extStep (EoDeliver e t) w =
     (case extDeliver e t w of None \<Rightarrow> None | Some (Inl er, w') \<Rightarrow> Some ([], [], w') | Some (Inr _, w') \<Rightarrow> Some ([t], [], w'))"
| "extStep (EoPreempt tid) w = Some ([], [], extPreempt tid w)"
| "extStep (EoTakePreempt tid) w = Some ([], [], snd (takePreempt tid w))"
| "extStep EoPoll w = (case PollClaim w of (None, w') \<Rightarrow> Some ([], [], w') | (Some t, w') \<Rightarrow> Some ([], [t], w'))"

fun extRun :: "ExtOp list \<Rightarrow> ExternalWorker \<Rightarrow> (Task list \<times> Task list \<times> ExternalWorker) option" where
  "extRun [] w = Some ([], [], w)"
| "extRun (op # ops) w =
     (case extStep op w of
        None \<Rightarrow> None
      | Some (i, out, w1) \<Rightarrow>
          (case extRun ops w1 of None \<Rightarrow> None | Some (is, outs, w2) \<Rightarrow> Some (i @ is, out @ outs, w2)))"

definition extFits :: "ExternalWorker \<Rightarrow> bool" where
  "extFits w \<longleftrightarrow> ext_inv w \<and> int (length (ew_used w)) \<le> ew_slots w \<and> int (length (ew_pending w)) \<le> ew_cap w \<and> \<not> ew_closed w"

lemma extFits_card: "ext_inv w \<Longrightarrow> length (ew_used w) = card (set (ew_used w))"
  by (simp add: ext_inv_def distinct_card)

lemma extStep_ok:
  assumes "extFits w"
  shows "\<exists>i out w'. extStep op w = Some (i, out, w') \<and> extFits w' \<and> ew_slots w' = ew_slots w \<and> ew_cap w' = ew_cap w \<and>
    out @ ew_pending w' = ew_pending w @ i"
proof (cases op)
  case (EoReserve tid)
  then show ?thesis using assms by (auto simp: extFits_def extReserveSlot_def ext_inv_def)
next
  case (EoRelease tid)
  have "int (length (removeAll tid (ew_used w))) \<le> int (length (ew_used w))" by (simp add: removeAll_filter_not_eq)
  also have "\<dots> \<le> ew_slots w" using assms by (simp add: extFits_def)
  finally show ?thesis using EoRelease assms by (simp add: extFits_def extReleaseSlot_def ext_inv_def distinct_removeAll)
next
  case (EoDeliver e t)
  then show ?thesis using assms by (cases e) (auto simp: extFits_def extDeliver_def ext_inv_def)
next
  case EoPoll
  then show ?thesis using assms by (cases "ew_pending w") (auto simp: extFits_def PollClaim_def ext_inv_def)
qed (use assms in \<open>simp_all add: extFits_def extPreempt_def takePreempt_def ext_inv_def\<close>)

lemma extRun_ok:
  assumes "extFits w"
  shows "\<exists>is outs w'. extRun ops w = Some (is, outs, w') \<and> extFits w' \<and> ew_slots w' = ew_slots w \<and> ew_cap w' = ew_cap w \<and>
    outs @ ew_pending w' = ew_pending w @ is"
  using assms
proof (induction ops arbitrary: w)
  case (Cons op ops)
  obtain i out w1 where 1: "extStep op w = Some (i, out, w1)" "extFits w1" "ew_slots w1 = ew_slots w" "ew_cap w1 = ew_cap w"
    "out @ ew_pending w1 = ew_pending w @ i" using extStep_ok [OF Cons.prems, of op] by blast
  obtain "is" outs w2 where 2: "extRun ops w1 = Some (is, outs, w2)" "extFits w2" "ew_slots w2 = ew_slots w1" "ew_cap w2 = ew_cap w1"
    "outs @ ew_pending w2 = ew_pending w1 @ is" using Cons.IH [OF 1(2)] by blast
  have "(out @ outs) @ ew_pending w2 = ew_pending w @ i @ is" using 1(5) 2(5) by (metis append.assoc)
  then show ?case using 1 2 by simp
qed simp

lemma newExternalWorker_fits: "0 \<le> slots \<Longrightarrow> extFits (newExternalWorker i caps slots)"
  by (simp add: extFits_def newExternalWorker_def ext_inv_def)

section \<open>Properties\<close>

text \<open>What a report has to say of the handler's outcome.\<close>

definition messageCategory :: "string \<Rightarrow> bool \<Rightarrow> string" where
  "messageCategory msg late =
     (if late \<or> sublist ''timeout'' msg \<or> sublist ''deadline'' msg then ''timeout''
      else if sublist ''panic'' msg then ''panic'' else ''handler_error'')"

fun reportOf :: "HandlerOut \<Rightarrow> bool \<Rightarrow> runReport \<Rightarrow> bool" where
  "reportOf (HandlerOk out) d r \<longleftrightarrow> rr_success r \<and> rr_result r = out \<and> rr_error r = '''' \<and> rr_category r = ''''"
| "reportOf HandlerPanic d r \<longleftrightarrow> \<not> rr_success r \<and> rr_category r = ''panic''"
| "reportOf (HandlerFail (ExecError msg cat)) d r \<longleftrightarrow> \<not> rr_success r \<and> rr_error r = msg \<and>
     rr_category r = (if cat \<noteq> '''' then cat else messageCategory msg d)"
| "reportOf (HandlerFail (OtherError msg)) d r \<longleftrightarrow> \<not> rr_success r \<and> rr_error r = msg \<and> rr_category r = messageCategory msg d"

lemma runOneEnd_report: "fst (runOneEnd h d t w) = Some r \<Longrightarrow> reportOf h d r"
  by (cases "(h, d, r)" rule: reportOf.cases)
    (auto simp: runOneEnd_def Let_def runHandlerSafely_def categorize_def messageCategory_def go_strings split: if_splits)

text \<open>
  C25: the in-process worker never holds more tasks than it has slots. Along every interleaving
  of reservations, releases, deliveries, preemptions, ends of runs and drains, reserved and
  running tasks together stay within the slots the worker was made with, and no task id is
  held twice.
\<close>

theorem pool_within_slots:
  assumes "0 \<le> slots"
  shows "usedLocked (poolRun ops (NewWorker i name hs slots ls)) \<le> slots \<and>
    distinct (map fst (pw_tasks (poolRun ops (NewWorker i name hs slots ls))) @ pw_reserved (poolRun ops (NewWorker i name hs slots ls)))"
proof -
  let ?w = "poolRun ops (NewWorker i name hs slots ls)"
  have f: "poolFits ?w" "pw_slots ?w = pw_slots (NewWorker i name hs slots ls)"
    using poolRun_fits [OF NewWorker_fits [OF assms]] by blast+
  then show ?thesis using usedLocked_card [of ?w] by (auto simp: poolFits_def pool_inv_def NewWorker_def)
qed

theorem pool_within_slots_witness:
  "usedLocked (poolRun [PoReserve ''a'', PoReserve ''b'', PoDeliver 0 (sampleTask ''a''), PoReserve ''b'']
     (NewWorker ''w'' ''w'' [''email''] 1 30)) \<le> 1 \<and>
   map fst (pw_tasks (poolRun [PoReserve ''a'', PoReserve ''b'', PoDeliver 0 ((sampleTask ''a'')\<lparr>t_Type := ''email''\<rparr>), PoReserve ''b'']
     (NewWorker ''w'' ''w'' [''email''] 1 30))) = [''a'']"
  using pool_within_slots [of 1] by (simp add: poolRun_def NewWorker_def poolReserveSlot_def usedLocked_def poolDeliver_def sampleTask_def)

text \<open>
  C27: how a run ends. The slot of the task is always given back, and nobody else's. Exactly one
  result is reported, unless the entry is marked preempted: then none. A handler that returned
  normally reports success with its result; a panic is caught and reported as a failure of
  category \<open>panic\<close>; an error without a category is a \<open>timeout\<close> when the run's deadline had
  passed or its message speaks of a timeout or a deadline, a \<open>panic\<close> when it speaks of one, and a
  \<open>handler_error\<close> otherwise.
\<close>

theorem runOneEnd_correct:
  assumes "pool_inv w" "runOneEnd h deadlineExceeded t w = (rep, w')"
  shows "poolUsed w' = poolUsed w - {t_ID t} \<and>
    (rep = None \<longleftrightarrow> (\<exists>it. map_of (pw_tasks w) (t_ID t) = Some it \<and> if_preempted it)) \<and>
    (\<forall>r. rep = Some r \<longrightarrow> reportOf h deadlineExceeded r)"
proof -
  have "w' = poolReleaseSlot (t_ID t) w" using assms(2) runOneEnd_releases [of h deadlineExceeded t w] by simp
  then have "poolUsed w' = poolUsed w - {t_ID t}" using pool.release_used [OF assms(1)] by simp
  moreover have "rep = None \<longleftrightarrow> (\<exists>it. map_of (pw_tasks w) (t_ID t) = Some it \<and> if_preempted it)"
    using assms(2) by (auto simp: runOneEnd_def Let_def split: option.splits sum.splits if_splits)
  ultimately show ?thesis using runOneEnd_report [of h deadlineExceeded t w] assms(2) by simp
qed

theorem runOneEnd_correct_witness:
  "\<exists>r w'. runOneEnd HandlerPanic False (sampleTask ''a'') (NewWorker ''w'' ''w'' [''email''] 1 30) = (Some r, w') \<and>
     rr_category r = ''panic'' \<and> \<not> rr_success r"
proof -
  have "pool_inv (NewWorker ''w'' ''w'' [''email''] 1 30)" by (simp add: NewWorker_def pool_inv_def)
  from runOneEnd_correct [OF this, of HandlerPanic False "sampleTask ''a''"] show ?thesis
    by (cases "runOneEnd HandlerPanic False (sampleTask ''a'') (NewWorker ''w'' ''w'' [''email''] 1 30)";
        cases "fst (runOneEnd HandlerPanic False (sampleTask ''a'') (NewWorker ''w'' ''w'' [''email''] 1 30))")
      (auto simp: NewWorker_def)
qed

text \<open>
  The embedded worker accepts a task of any type as long as it has room, but runs only the
  types it has a handler of exactly that name for: a delivered task of any other type is
  answered with the missing-handler failure, its slot given back, whatever the wildcard entry
  of the handler table says.
\<close>

lemma embedded_wildcard_never_runs:
  assumes "w = fst (newEmbeddedWorker c name slots ls s)" "0 < slots" "t_Type t \<notin> fst ` set embeddedHandlers"
  shows "poolCanHandle (t_Type t) w \<and>
    (\<exists>w1. poolReserveSlot (t_ID t) w = (True, w1) \<and>
       poolDeliver now t w1 = (DeliverNoHandler (''no handler registered for type: '' @ t_Type t), w))"
  using assms
  by (auto simp: newEmbeddedWorker_def NewWorker_def poolCanHandle_def usedLocked_def embeddedHandlers_def poolReserveSlot_def
      poolDeliver_def Let_def)

lemma embedded_wildcard_never_runs_witness:
  "poolCanHandle ''email'' (fst (newEmbeddedWorker sampleCall ''embedded'' 4 30 emptyDb))"
  using embedded_wildcard_never_runs [OF refl, of 4 "(sampleTask ''a'')\<lparr>t_Type := ''email''\<rparr>" sampleCall "''embedded''" 30 emptyDb 0]
  by (simp add: embeddedHandlers_def)

text \<open>
  C26: an external worker that is never closed loses, duplicates and reorders no claim: along
  every sequence of reservations, releases, deliveries, preemptions and polls, which never
  panics, the tasks handed out by the polls followed by those still buffered are exactly the
  tasks whose delivery succeeded, in order; the buffer and the slots stay within their bounds.
\<close>

theorem claims_in_order:
  assumes "0 \<le> slots"
  shows "\<exists>delivered claimed w'. extRun ops (newExternalWorker i caps slots) = Some (delivered, claimed, w') \<and>
    delivered = claimed @ ew_pending w' \<and> int (length (ew_used w')) \<le> slots \<and> int (length (ew_pending w')) \<le> slots * 2 + 4"
  using extRun_ok [OF newExternalWorker_fits [OF assms], of ops i caps]
  by (auto simp: newExternalWorker_def extFits_def)

theorem claims_in_order_witness:
  "\<exists>delivered claimed w'. extRun [EoReserve ''a'', EoDeliver None (sampleTask ''a''), EoPoll] (newExternalWorker ''w'' [''*''] 2) =
     Some (delivered, claimed, w') \<and> delivered = claimed @ ew_pending w' \<and> claimed = [sampleTask ''a'']"
  using claims_in_order [of 2 "[EoReserve ''a'', EoDeliver None (sampleTask ''a''), EoPoll]" "''w''" "[''*'']"]
  by (simp add: newExternalWorker_def extReserveSlot_def extDeliver_def PollClaim_def)

end
