(* ===== verification/Core_Inv.thy ===== *)
theory Core_Inv
  imports Orchestration
begin

text \<open>
  The invariant of the shared state, store and Redis queue together, through every operation of
  the task engine and of the DAG engine, and that none of them takes an id out of a ready
  queue or moves a task row other than along its lifecycle. What the engine needs of the hook it calls on a terminal task is the locale
  \<open>terminal_hook\<close>; the DAG engine's hook is its interpretation.
\<close>

definition core_inv :: "core \<Rightarrow> bool" where
  "core_inv st \<longleftrightarrow> db_inv (co_db st) \<and> redis_inv (co_q st)"

text \<open>The task table after any number of operations: every row has moved along its lifecycle.\<close>

abbreviation evolves :: "db \<Rightarrow> db \<Rightarrow> bool" where "evolves \<equiv> rows_live\<^sup>*\<^sup>*"

definition core_grow :: "core \<Rightarrow> core \<Rightarrow> bool" where
  "core_grow st st' \<longleftrightarrow> core_inv st' \<and> (\<forall>p. set (ready (co_q st) p) \<subseteq> set (ready (co_q st') p)) \<and>
     evolves (co_db st) (co_db st')"

lemma evolves_lookup:
  assumes "evolves s s'" "lookupRow c_id tid (tasks s) = Some r"
  shows "\<exists>r'. lookupRow c_id tid (tasks s') = Some r' \<and> lifecycle\<^sup>*\<^sup>* r r'"
  using assms
proof (induction rule: rtranclp_induct)
  case (step s1 s2)
  then obtain r1 where r1: "lookupRow c_id tid (tasks s1) = Some r1" "lifecycle\<^sup>*\<^sup>* r r1" by blast
  from rows_live_lookup [OF step(2) r1(1)] r1(2) show ?case by (meson rtranclp.rtrancl_into_rtrancl)
qed auto

lemma lifecycle_rtrancl_final:
  assumes "lifecycle\<^sup>*\<^sup>* r r'"
  shows "c_attempts r \<le> c_attempts r' \<and> (c_status r \<in> {StatusSucceeded, StatusCanceled} \<longrightarrow> c_status r' = c_status r)"
  using assms
proof (induction rule: rtranclp_induct)
  case (step r1 r2)
  then show ?case using lifecycle_attempts [OF step(2)] lifecycle_final [OF step(2)] by auto
qed simp

lemma core_grow_refl: "core_inv st \<Longrightarrow> core_grow st st"
  by (simp add: core_grow_def)

lemma core_grow_trans: "core_grow st st1 \<Longrightarrow> core_grow st1 st2 \<Longrightarrow> core_grow st st2"
  unfolding core_grow_def by (blast intro: rtranclp_trans)

lemma core_grow_inv: "core_grow st st' \<Longrightarrow> core_inv st'"
  by (simp add: core_grow_def)

lemma core_grow_db: "core_inv st \<Longrightarrow> db_inv s \<Longrightarrow> rows_live (co_db st) s \<Longrightarrow> core_grow st (st\<lparr>co_db := s\<rparr>)"
  by (auto simp: core_inv_def core_grow_def)

lemma core_grow_same: "core_inv st \<Longrightarrow> tasks s = tasks (co_db st) \<Longrightarrow> task_attempts s = task_attempts (co_db st) \<Longrightarrow>
  core_grow st (st\<lparr>co_db := s\<rparr>)"
  using db_inv_cong [of s "co_db st"] rows_live_refl [of s "co_db st"] by (auto simp: core_inv_def core_grow_def)

lemma ready_AddWaiting [simp]: "ready (snd (AddWaiting f k tid due q)) = ready q"
  by (auto simp: AddWaiting_def ready_def ZADD_def fun_eq_iff split: option.splits)

lemma ready_Enqueue: "redis_inv q \<Longrightarrow> set (ready q p') \<subseteq> set (ready (snd (Enqueue f p tid q)) p')"
  using rq.enq_ok [of q f p tid "snd (Enqueue f p tid q)"]
  by (cases f) (auto simp: Enqueue_def runEnqueue_def)

section \<open>Submission\<close>

lemma submitNew_grow: "core_inv st \<Longrightarrow> core_grow st (snd (submitNew e i st))"
proof -
  assume st: "core_inv st"
  then have q: "redis_inv (co_q st)" and db: "db_inv (co_db st)" by (simp_all add: core_inv_def)
  have "redis_inv q' \<and> ready q' = ready (co_q st)" if "AddWaiting f k tid due (co_q st) = (r, q')" for f k tid due r q'
    using redis_inv_steps(1) [OF q, of f k tid due] ready_AddWaiting [of f k tid due "co_q st"] that by simp
  moreover have "redis_inv q' \<and> set (ready (co_q st) p') \<subseteq> set (ready q' p')" if "Enqueue f p tid (co_q st) = (r, q')" for f p tid r q' p'
    using redis_inv_steps(2) [OF q, of f p tid] ready_Enqueue [OF q, of p' f p tid] that by simp
  ultimately have "redis_inv (co_q (snd (submitNew e i st))) \<and>
      (\<forall>p. set (ready (co_q st) p) \<subseteq> set (ready (co_q (snd (submitNew e i st))) p))"
    using q by (simp add: submitNew_def split: prod.split sum.split option.split)
  moreover have "rows_live (co_db st) (co_db (snd (submitNew e i st)))"
    using CreateTask_live [of "co_db st" "se_create e" "newTask (se_id e) (se_now e) i"]
    by (auto simp: submitNew_def split: prod.split sum.split option.split)
  ultimately show ?thesis using submitNew_inv [OF db, of e i] by (auto simp: core_grow_def core_inv_def)
qed

lemma Submit_grow: "core_inv st \<Longrightarrow> core_grow st (snd (Submit e inp st))"
  by (auto simp: Submit_def Let_def submitNew_grow core_grow_refl split: sum.splits option.splits)

lemma SubmitDAGTask_grow:
  assumes "core_inv st" "SubmitDAGTask e d n ndef st = (x, st')"
  shows "core_grow st st'"
proof -
  obtain r st1 where s: "Submit (ne_submit e) (dagTaskInput ndef) st = (r, st1)" by fastforce
  then have g: "core_grow st st1" using Submit_grow [OF assms(1), of "ne_submit e" "dagTaskInput ndef"] by simp
  have "core_grow st1 (st1\<lparr>co_db := s2\<rparr>)" if "LinkDAGNode c t d n (co_db st1) = (y, s2)" for c t y s2
    using core_grow_inv [OF g] LinkDAGNode_inv [of "co_db st1" c t d n] LinkDAGNode_live [of "co_db st1" c t d n] that
    by (intro core_grow_db) (simp_all add: core_inv_def)
  then have "core_grow st1 st'" if "r = Inr to" for to
    using assms(2) s that by (auto simp: SubmitDAGTask_def split: prod.splits sum.splits)
  then show ?thesis using assms(2) s g core_grow_trans [OF g] by (cases r) (auto simp: SubmitDAGTask_def)
qed

lemma launchLoop_grow: "core_inv st \<Longrightarrow> core_grow st (snd (launchLoop ne d nids us st))"
proof (induction ne d nids us st rule: launchLoop.induct)
  case (2 ne d nid nids us st)
  show ?case
  proof (cases "nodeDef (d_Def d) nid")
    case (Some ndef)
    obtain r st1 where s: "SubmitDAGTask (ne nid) (d_ID d) nid ndef st = (r, st1)" by fastforce
    note g = SubmitDAGTask_grow [OF 2(3) s]
    show ?thesis using 2(2) [OF Some s [symmetric] _ core_grow_inv [OF g]] core_grow_trans [OF g] Some s g by (cases r) auto
  qed (use 2 in simp)
qed (simp add: core_grow_refl)

lemma UpdateDAGNodes_grow: "core_inv st \<Longrightarrow> UpdateDAGNodes c d a us (co_db st) = (r, s) \<Longrightarrow> core_grow st (st\<lparr>co_db := s\<rparr>)"
  using UpdateDAGNodes_frame [of c d a us "co_db st"] by (auto intro: core_grow_same)

lemma launchNodes_grow: "core_inv st \<Longrightarrow> core_grow st (snd (launchNodes ne c d nids us st))"
proof -
  assume st: "core_inv st"
  obtain r st1 where l: "launchLoop ne d nids us st = (r, st1)" by fastforce
  then have g: "core_grow st st1" using launchLoop_grow [OF st, of ne d nids us] by simp
  have "core_grow st (st1\<lparr>co_db := s\<rparr>)" if "UpdateDAGNodes c (d_ID d) None us' (co_db st1) = (x, s)" for us' x s
    by (rule core_grow_trans [OF g UpdateDAGNodes_grow [OF core_grow_inv [OF g] that]])
  then show ?thesis using l g by (auto simp: launchNodes_def split: sum.splits prod.splits)
qed

lemma SubmitDAG_grow: "core_inv st \<Longrightarrow> core_grow st (snd (SubmitDAG e def st))"
proof -
  assume st: "core_inv st"
  define df where "df = (if dd_FailurePolicy def = '''' then def\<lparr>dd_FailurePolicy := DAGAbort\<rparr> else def)"
  define d where "d = \<lparr>d_ID = de_id e, d_Name = dd_Name df, d_FailurePolicy = dd_FailurePolicy df,
    d_Status = DAGRunning, d_Def = df, d_CreatedAt = de_now e, d_FinishedAt = None\<rparr>"
  note sub = SubmitDAG_def Let_def df_def [symmetric] d_def [symmetric]
  obtain r s1 where c: "CreateDAG (de_create e) d (co_db st) = (r, s1)" by fastforce
  then have s1: "core_grow st (st\<lparr>co_db := s1\<rparr>)"
    using CreateDAG_frame [of "de_create e" d "co_db st"] st by (auto intro: core_grow_same)
  show ?thesis
  proof (cases "Validate df")
    case (Inr x)
    note v = Inr
    show ?thesis
    proof (cases r)
      case (Inr y)
      let ?ns = "map nd_ID (filter (\<lambda>n. nd_Dependencies n = []) (dd_Nodes df))"
      have "snd (SubmitDAG e def st) = snd (launchNodes (de_node e) (de_update e) d ?ns [] (st\<lparr>co_db := s1\<rparr>))"
        by (simp add: sub v c Inr split: prod.split sum.split)
      then show ?thesis using core_grow_trans [OF s1 launchNodes_grow [OF core_grow_inv [OF s1]]] by simp
    qed (simp add: sub v c s1)
  qed (simp add: sub st core_grow_refl)
qed

section \<open>Terminal tasks\<close>

lemma retryNode_grow:
  assumes "core_inv st" "retryNode ne c d node st = (r, st')"
  shows "core_grow st st'"
proof (cases "nodeDef (d_Def d) (n_NodeID node)")
  case (Some ndef)
  obtain x st1 where s: "SubmitDAGTask ne (d_ID d) (n_NodeID node) ndef st = (x, st1)" by fastforce
  note g = SubmitDAGTask_grow [OF assms(1) s]
  have "core_grow st (st1\<lparr>co_db := s2\<rparr>)" if "UpdateDAGNodes c (d_ID d) None us (co_db st1) = (y, s2)" for us y s2
    by (rule core_grow_trans [OF g UpdateDAGNodes_grow [OF core_grow_inv [OF g] that]])
  then show ?thesis using assms(2) Some s g by (auto simp: retryNode_def split: sum.splits prod.splits)
qed (use assms in \<open>simp add: retryNode_def core_grow_refl\<close>)

lemma advance_grow:
  assumes "core_inv st" "advance e d byID node ns st = Some st'"
  shows "core_grow st st'"
proof -
  have u: "core_grow st (st\<lparr>co_db := s\<rparr>)" if "UpdateDAGNodes (oe_update e) (d_ID d) a us (co_db st) = (y, s)" for a us y s
    by (rule UpdateDAGNodes_grow [OF assms(1) that])
  have "core_grow st (snd (launchNodes ne c d' nids us' (st\<lparr>co_db := s\<rparr>)))"
    if "UpdateDAGNodes (oe_update e) (d_ID d) a us (co_db st) = (y, s)" for a us y s ne c d' nids us'
    by (rule core_grow_trans [OF u [OF that] launchNodes_grow [OF core_grow_inv [OF u [OF that]]]])
  then show ?thesis using assms(2) u by (auto simp: advance_def split: option.splits prod.splits sum.splits if_splits)
qed

lemma OnTaskTerminal_grow:
  assumes "core_inv st" "OnTaskTerminal e t ok msg st = Some st'"
  shows "core_grow st st'"
proof (rule ccontr)
  assume no: "\<not> core_grow st st'"
  then have ne: "st' \<noteq> st" using core_grow_refl [OF assms(1)] by blast
  from assms(2) ne have dag: "t_DAGID t \<noteq> ''''" by (auto simp: OnTaskTerminal_def)
  from assms(2) ne dag obtain d where d: "GetDAG (oe_get e) (t_DAGID t) (co_db st) = Inr (Some d)"
    by (simp add: OnTaskTerminal_def split: sum.split_asm option.split_asm)
  from assms(2) ne dag d have run: "\<not> (d_Status d = DAGSucceeded \<or> d_Status d = DAGFailed)"
    by (auto simp: OnTaskTerminal_def)
  from assms(2) ne dag d run obtain nodes where n: "ListDAGNodes (oe_list e) (d_ID d) (co_db st) = Inr nodes"
    by (simp add: OnTaskTerminal_def split: sum.split_asm)
  from assms(2) ne dag d run n obtain node where nd: "map_of (map (\<lambda>n. (n_NodeID n, n)) nodes) (t_DAGNodeID t) = Some node"
    by (simp add: OnTaskTerminal_def Let_def split: option.split_asm)
  have upd: "core_grow st (st\<lparr>co_db := snd (UpdateDAGNodes c d a us (co_db st))\<rparr>)" for c d a us
    using UpdateDAGNodes_grow [OF assms(1)] by (metis prod.collapse)
  obtain r st1 where r: "retryNode (oe_retry e) (oe_retryUpdate e) d node st = (r, st1)" by fastforce
  note g = retryNode_grow [OF assms(1) r]
  have "core_grow st st''" if "advance e d byID node ns st1 = Some st''" for byID ns st''
    by (rule core_grow_trans [OF g advance_grow [OF core_grow_inv [OF g] that]])
  then show False using assms(2) no upd g advance_grow [OF assms(1)] run
    by (cases r) (auto simp: OnTaskTerminal_def Let_def dag d n nd r split: if_split_asm)
qed

text \<open>What a client may rely on of the hook, and what follows for reporting results.\<close>

locale terminal_hook =
  fixes hook :: hook
  assumes hook_grow: "core_inv st \<Longrightarrow> hook t outcome msg st = Some st' \<Longrightarrow> core_grow st st'"
begin

lemma report_grow:
  assumes "core_inv st" "ReportResult hook e t ok res msg cat st = Some (posts, st')"
  shows "core_grow st st'"
proof -
  obtain x s1 where c: "CompleteAttempt (re_complete e) (reportInput e t ok res msg cat) (co_db st) = (x, s1)" by fastforce
  have s1: "core_grow st (st\<lparr>co_db := s1\<rparr>)"
    using CompleteAttempt_inv [of "co_db st" "re_complete e" "reportInput e t ok res msg cat"] assms(1) c
      CompleteAttempt_live [of "co_db st" "re_complete e" "reportInput e t ok res msg cat"]
    by (intro core_grow_db) (simp_all add: core_inv_def)
  have q: "core_grow st (st\<lparr>co_db := s1, co_q := snd (AddWaiting f k tid due (co_q st))\<rparr>)" for f k tid due
    using s1 redis_inv_steps(1) [of "co_q st" f k tid due] by (simp add: core_grow_def core_inv_def)
  have h: "core_grow st st2" if "hook u out msg (st\<lparr>co_db := s1\<rparr>) = Some st2" for u out st2
    by (rule core_grow_trans [OF s1 hook_grow [OF core_grow_inv [OF s1] that]])
  show ?thesis
  proof (cases x)
    case (Inr to)
    obtain u out where "to = (u, out)" by fastforce
    then show ?thesis using Inr assms(2) c s1 q h
      by (cases out) (auto simp: ReportResult_def Let_def split: option.splits)
  qed (use assms(2) c s1 in \<open>auto simp: ReportResult_def\<close>)
qed

end

interpretation dag: terminal_hook "dagHook e"
  by unfold_locales (simp add: dagHook_def OnTaskTerminal_grow)

end
