(* ===== verification/Scheduler.thy ===== *)
theory Scheduler
  imports Executors Core_Inv
begin

text \<open>
  \<open>internal/scheduler\<close>: the executor registry, the choice of a priority with its fairness
  override, preemption and the dispatch loop. An executor is named by its id. The registry
  holds an in-process worker itself, and for an external worker the reference to the object
  the manager keeps under that id, which is how the two share it in the program. One call of
  \<open>dispatchOne\<close> is one step; what the outside world answers during it is a record. A step that
  panics is \<open>None\<close>.
\<close>

section \<open>The cluster\<close>

datatype Executor = EPool PoolWorker | EExt

record cluster =
  cl_core :: core
  cl_execs :: "(string, Executor) amap"
  cl_mgr :: ExternalManager
  cl_rr :: nat
  cl_leaseFor :: duration
  cl_highWatermark :: int
  cl_highStreak :: int
  cl_posts :: "(string \<times> callbackPayload) list"

definition NewScheduler :: "core \<Rightarrow> duration \<Rightarrow> int \<Rightarrow> cluster" where
  "NewScheduler st leaseFor highWatermark =
     \<lparr>cl_core = st, cl_execs = [], cl_mgr = emptyManager, cl_rr = 0, cl_leaseFor = leaseFor,
      cl_highWatermark = highWatermark, cl_highStreak = 0, cl_posts = []\<rparr>"

definition AddExecutor :: "string \<Rightarrow> Executor \<Rightarrow> cluster \<Rightarrow> cluster" where
  "AddExecutor eid e cl = cl\<lparr>cl_execs := aput eid e (cl_execs cl)\<rparr>"

definition RemoveExecutor :: "string \<Rightarrow> cluster \<Rightarrow> cluster" where
  "RemoveExecutor eid cl = cl\<lparr>cl_execs := adel eid (cl_execs cl)\<rparr>"

definition snapshot :: "cluster \<Rightarrow> string list" where
  "snapshot cl = sort (map fst (cl_execs cl))"

definition totalSlots :: nat where "totalSlots = 64"

section \<open>The executor interface\<close>

text \<open>The dynamic dispatch of \<open>scheduler.Executor\<close> on the two implementations.\<close>

definition extOf :: "cluster \<Rightarrow> string \<Rightarrow> ExternalWorker option" where
  "extOf cl eid = map_of (em_workers (cl_mgr cl)) eid"

definition putPool :: "string \<Rightarrow> PoolWorker \<Rightarrow> cluster \<Rightarrow> cluster" where
  "putPool eid w cl = cl\<lparr>cl_execs := aput eid (EPool w) (cl_execs cl)\<rparr>"

definition putExt :: "string \<Rightarrow> ExternalWorker \<Rightarrow> cluster \<Rightarrow> cluster" where
  "putExt eid w cl = cl\<lparr>cl_mgr := (cl_mgr cl)\<lparr>em_workers := aput eid w (em_workers (cl_mgr cl))\<rparr>\<rparr>"

definition execQuery :: "(PoolWorker \<Rightarrow> 'a) \<Rightarrow> (ExternalWorker \<Rightarrow> 'a) \<Rightarrow> 'a \<Rightarrow> string \<Rightarrow> cluster \<Rightarrow> 'a" where
  "execQuery f g d eid cl =
     (case map_of (cl_execs cl) eid of
        Some (EPool w) \<Rightarrow> f w
      | Some EExt \<Rightarrow> (case extOf cl eid of Some w \<Rightarrow> g w | None \<Rightarrow> d)
      | None \<Rightarrow> d)"

definition CanHandle :: "string \<Rightarrow> string \<Rightarrow> cluster \<Rightarrow> bool" where
  "CanHandle taskType = execQuery (poolCanHandle taskType) (extCanHandle taskType) False"

definition Capable :: "string \<Rightarrow> string \<Rightarrow> cluster \<Rightarrow> bool" where
  "Capable taskType = execQuery (poolCapable taskType) (extCapable taskType) False"

definition RunningTasks :: "string \<Rightarrow> cluster \<Rightarrow> (string, Task) amap" where
  "RunningTasks eid cl = execQuery poolRunningTasks (\<lambda>w. snapshotRunning eid (cl_mgr cl)) [] eid cl"

definition extHasPreemptibleTask :: "string \<Rightarrow> ExternalManager \<Rightarrow> bool" where
  "extHasPreemptibleTask eid m = list_ex (\<lambda>e. Rank (t_Priority (snd e)) \<ge> Rank PriorityNormal) (snapshotRunning eid m)"

definition HasPreemptibleTask :: "string \<Rightarrow> cluster \<Rightarrow> bool" where
  "HasPreemptibleTask eid cl = execQuery poolHasPreemptibleTask (\<lambda>w. extHasPreemptibleTask eid (cl_mgr cl)) False eid cl"

definition ReserveSlot :: "string \<Rightarrow> string \<Rightarrow> cluster \<Rightarrow> bool \<times> cluster" where
  "ReserveSlot eid tid cl = execQuery
     (\<lambda>w. case poolReserveSlot tid w of (ok, w') \<Rightarrow> (ok, putPool eid w' cl))
     (\<lambda>w. case extReserveSlot tid w of (ok, w') \<Rightarrow> (ok, putExt eid w' cl)) (False, cl) eid cl"

definition ReleaseSlot :: "string \<Rightarrow> string \<Rightarrow> cluster \<Rightarrow> cluster" where
  "ReleaseSlot eid tid cl = execQuery
     (\<lambda>w. putPool eid (poolReleaseSlot tid w) cl) (\<lambda>w. putExt eid (extReleaseSlot tid w) cl) cl eid cl"

definition PreemptOn :: "string \<Rightarrow> string \<Rightarrow> cluster \<Rightarrow> cluster" where
  "PreemptOn eid tid cl = execQuery
     (\<lambda>w. putPool eid (poolPreempt tid w) cl) (\<lambda>w. putExt eid (extPreempt tid w) cl) cl eid cl"

section \<open>One dispatch\<close>

record dispatchEnv =
  ds_depths :: "err option"
  ds_dequeue :: "err option"
  ds_get :: call
  ds_preempt :: call
  ds_victim :: "err option"
  ds_requeue :: "err option"
  ds_now :: time
  ds_begin :: call
  ds_deliverNow :: time
  ds_canceled :: "err option"
  ds_report :: reportEnv
  ds_hook :: hook

text \<open>
  \<open>Deliver\<close> of the in-process worker reports a missing handler itself; that report runs to its
  end, callbacks and DAG hook included, before \<open>Deliver\<close> returns without an error.
\<close>

definition Deliver :: "dispatchEnv \<Rightarrow> string \<Rightarrow> Task \<Rightarrow> cluster \<Rightarrow> (unit res \<times> cluster) option" where
  "Deliver e eid t cl = execQuery
     (\<lambda>w. case poolDeliver (ds_deliverNow e) t w of
            (DeliverNoHandler msg, w') \<Rightarrow>
              (case ReportResult (ds_hook e) (ds_report e) t False '''' msg ''handler_error'' (cl_core cl) of
                 None \<Rightarrow> None
               | Some (posts, st') \<Rightarrow>
                   Some (Inr (), (putPool eid w' cl)\<lparr>cl_core := st', cl_posts := cl_posts cl @ posts\<rparr>))
          | (_, w') \<Rightarrow> Some (Inr (), putPool eid w' cl))
     (\<lambda>w. case extDeliver (ds_canceled e) t w of
            None \<Rightarrow> None
          | Some (r, w') \<Rightarrow> Some (r, putExt eid w' cl))
     (Some (Inl ErrWorkerGone, cl)) eid cl"

definition loadKey :: "cluster \<Rightarrow> string \<Rightarrow> nat" where
  "loadKey cl eid = length (RunningTasks eid cl)"

definition candidatesFor :: "string \<Rightarrow> cluster \<Rightarrow> string list" where
  "candidatesFor taskType cl =
     sort_key (loadKey cl) (sort (filter (\<lambda>eid. CanHandle taskType eid cl) (map fst (cl_execs cl))))"

definition pick :: "string \<Rightarrow> cluster \<Rightarrow> string option \<times> cluster" where
  "pick taskType cl =
     (let candidates = candidatesFor taskType cl in
      if candidates = [] then (None, cl)
      else let rr = (cl_rr cl + 1) mod length candidates
           in (Some (candidates ! (rr mod length candidates)), cl\<lparr>cl_rr := rr\<rparr>))"

definition availableFor :: "Priority \<Rightarrow> (Priority \<Rightarrow> int) \<Rightarrow> cluster \<Rightarrow> bool" where
  "availableFor p depths cl =
     (if depths p = 0 then False
      else let preemptible = (p = PriorityCritical \<or> p = PriorityHigh) in
        list_ex (\<lambda>eid. CanHandle '''' eid cl \<or> preemptible \<and> HasPreemptibleTask eid cl) (snapshot cl))"

definition choosePriority :: "(Priority \<Rightarrow> int) \<Rightarrow> cluster \<Rightarrow> Priority option \<times> cluster" where
  "choosePriority depths cl =
     (if cl_highStreak cl \<ge> cl_highWatermark cl then
        (case List.find (\<lambda>p. availableFor p depths cl) (drop (Rank PriorityLow) PriorityOrder) of
           Some p \<Rightarrow> (Some p, cl)
         | None \<Rightarrow> let cl1 = cl\<lparr>cl_highStreak := 0\<rparr>
                   in (List.find (\<lambda>p. availableFor p depths cl1) PriorityOrder, cl1))
      else (List.find (\<lambda>p. availableFor p depths cl) PriorityOrder, cl))"

definition notePop :: "Priority \<Rightarrow> cluster \<Rightarrow> cluster" where
  "notePop p cl =
     (if Rank p < Rank PriorityLow then cl\<lparr>cl_highStreak := cl_highStreak cl + 1\<rparr> else cl\<lparr>cl_highStreak := 0\<rparr>)"

subsection \<open>Preemption\<close>

text \<open>
  The victim: the executors in snapshot order, the running tasks of each in map order; a task of
  strictly lower priority is taken when it is the first or of strictly lower priority than the
  best so far.
\<close>

definition runningOn :: "string \<Rightarrow> cluster \<Rightarrow> (string \<times> Task) list" where
  "runningOn taskType cl =
     concat (map (\<lambda>eid. if Capable taskType eid cl then map (\<lambda>x. (eid, snd x)) (RunningTasks eid cl) else []) (snapshot cl))"

fun victimScan :: "nat \<Rightarrow> (string \<times> Task) list \<Rightarrow> (string \<times> Task) option \<Rightarrow> (string \<times> Task) option" where
  "victimScan rank [] best = best"
| "victimScan rank ((eid, rt) # rest) best =
     (if Rank (t_Priority rt) \<le> rank then victimScan rank rest best
      else (case best of
              None \<Rightarrow> victimScan rank rest (Some (eid, rt))
            | Some b \<Rightarrow> victimScan rank rest
                (if Rank (t_Priority rt) > Rank (t_Priority (snd b)) then Some (eid, rt) else best)))"

definition EnqueueHeadOf :: "err option \<Rightarrow> Task \<Rightarrow> cluster \<Rightarrow> unit res \<times> cluster" where
  "EnqueueHeadOf f t cl =
     (case EnqueueHead f (t_Priority t) (t_ID t) (co_q (cl_core cl)) of
        (r, q') \<Rightarrow> (r, cl\<lparr>cl_core := (cl_core cl)\<lparr>co_q := q'\<rparr>\<rparr>))"

definition maybePreempt :: "dispatchEnv \<Rightarrow> Task \<Rightarrow> cluster \<Rightarrow> string option res \<times> cluster" where
  "maybePreempt e t cl =
     (case victimScan (Rank (t_Priority t)) (runningOn (t_Type t) cl) None of
        None \<Rightarrow> (Inr None, cl)
      | Some (eid, victim) \<Rightarrow>
          (case Preempt (ds_preempt e) (t_ID victim) ''scheduler'' (co_db (cl_core cl)) of
             (Inl er, s1) \<Rightarrow>
               (if er = ErrConflict then Inr None else Inl er, cl\<lparr>cl_core := (cl_core cl)\<lparr>co_db := s1\<rparr>\<rparr>)
           | (Inr _, s1) \<Rightarrow>
               let cl1 = cl\<lparr>cl_core := (cl_core cl)\<lparr>co_db := s1\<rparr>\<rparr>;
                   cl2 = ReleaseSlot eid (t_ID victim) (PreemptOn eid (t_ID victim) cl1)
               in (case EnqueueHeadOf (ds_victim e) victim cl2 of
                     (Inl er, cl3) \<Rightarrow> (Inl er, cl3)
                   | (Inr _, cl3) \<Rightarrow> (Inr (Some eid), cl3))))"

subsection \<open>The dispatch step\<close>

text \<open>
  How one call of \<open>dispatchOne\<close> ended: nothing to do or no capacity (\<open>false, nil\<close>), an error, an
  id that was consumed without a delivery, or a delivery at a priority.
\<close>

datatype DispatchOut = Idle | Failed err | Consumed | Delivered Priority

definition requeue :: "dispatchEnv \<Rightarrow> Task \<Rightarrow> cluster \<Rightarrow> unit res \<times> cluster" where
  "requeue e t cl = EnqueueHeadOf (ds_requeue e) t cl"

definition idleOr :: "unit res \<times> cluster \<Rightarrow> (DispatchOut \<times> cluster) option" where
  "idleOr x = (case x of (Inl er, cl) \<Rightarrow> Some (Failed er, cl) | (Inr _, cl) \<Rightarrow> Some (Idle, cl))"

definition dispatchTo :: "dispatchEnv \<Rightarrow> Priority \<Rightarrow> string \<Rightarrow> Task \<Rightarrow> cluster \<Rightarrow> (DispatchOut \<times> cluster) option" where
  "dispatchTo e prio eid task cl =
     (case ReserveSlot eid (t_ID task) cl of
        (False, cl1) \<Rightarrow> idleOr (requeue e task cl1)
      | (True, cl1) \<Rightarrow>
          (case BeginAttempt (ds_begin e) (t_ID task) eid (ds_now e + cl_leaseFor cl1) (co_db (cl_core cl1)) of
             (Inl er, s1) \<Rightarrow>
               let cl2 = ReleaseSlot eid (t_ID task) (cl1\<lparr>cl_core := (cl_core cl1)\<lparr>co_db := s1\<rparr>\<rparr>)
               in if er = ErrConflict then Some (Consumed, cl2) else Some (Failed er, snd (requeue e task cl2))
           | (Inr claimed, s1) \<Rightarrow>
               (case Deliver e eid claimed (cl1\<lparr>cl_core := (cl_core cl1)\<lparr>co_db := s1\<rparr>\<rparr>) of
                  None \<Rightarrow> None
                | Some (Inl er, cl2) \<Rightarrow> Some (Failed er, snd (requeue e claimed (ReleaseSlot eid (t_ID task) cl2)))
                | Some (Inr _, cl2) \<Rightarrow> Some (Delivered prio, notePop prio cl2))))"

definition dispatchTask :: "dispatchEnv \<Rightarrow> Priority \<Rightarrow> Task \<Rightarrow> cluster \<Rightarrow> (DispatchOut \<times> cluster) option" where
  "dispatchTask e prio task cl =
     (case pick (t_Type task) cl of
        (Some eid, cl1) \<Rightarrow> dispatchTo e prio eid task cl1
      | (None, cl1) \<Rightarrow>
          if t_Priority task = PriorityCritical \<or> t_Priority task = PriorityHigh then
            (case maybePreempt e task cl1 of
               (Inl er, cl2) \<Rightarrow> Some (Failed er, snd (requeue e task cl2))
             | (Inr None, cl2) \<Rightarrow> idleOr (requeue e task cl2)
             | (Inr (Some eid), cl2) \<Rightarrow> dispatchTo e prio eid task cl2)
          else idleOr (requeue e task cl1))"

definition dispatchStep :: "dispatchEnv \<Rightarrow> cluster \<Rightarrow> (DispatchOut \<times> cluster) option" where
  "dispatchStep e cl =
     (case AllDepths (ds_depths e) (co_q (cl_core cl)) of
        Inl er \<Rightarrow> Some (Failed er, cl)
      | Inr depths \<Rightarrow>
          (case choosePriority depths cl of
             (None, cl1) \<Rightarrow> Some (Idle, cl1)
           | (Some prio, cl1) \<Rightarrow>
               (case Dequeue (ds_dequeue e) prio (co_q (cl_core cl1)) of
                  (Inl er, q1) \<Rightarrow> Some (Failed er, cl1\<lparr>cl_core := (cl_core cl1)\<lparr>co_q := q1\<rparr>\<rparr>)
                | (Inr tid, q1) \<Rightarrow>
                    let cl2 = cl1\<lparr>cl_core := (cl_core cl1)\<lparr>co_q := q1\<rparr>\<rparr> in
                    if tid = '''' then Some (Idle, cl2)
                    else (case GetTask (ds_get e) tid (co_db (cl_core cl2)) of
                            Inl er \<Rightarrow> Some (Failed er, cl2)
                          | Inr None \<Rightarrow> Some (Consumed, cl2)
                          | Inr (Some task) \<Rightarrow> dispatchTask e prio task cl2))))"

text \<open>What \<open>dispatchOne\<close> returns for each end.\<close>

fun dispatchResult :: "DispatchOut \<Rightarrow> bool res" where
  "dispatchResult Idle = Inr False"
| "dispatchResult (Failed e) = Inl e"
| "dispatchResult Consumed = Inr True"
| "dispatchResult (Delivered p) = Inr True"

definition dispatchOne :: "dispatchEnv \<Rightarrow> cluster \<Rightarrow> (bool res \<times> cluster) option" where
  "dispatchOne e cl = map_option (\<lambda>(out, cl'). (dispatchResult out, cl')) (dispatchStep e cl)"

text \<open>One pass: at most \<open>totalSlots * 2 + 1\<close> dispatches, the environment one record per call.\<close>

fun tickLoop :: "nat \<Rightarrow> (nat \<Rightarrow> dispatchEnv) \<Rightarrow> nat \<Rightarrow> cluster \<Rightarrow> ((err option \<times> nat) \<times> cluster) option" where
  "tickLoop 0 env dispatched cl = Some ((None, dispatched), cl)"
| "tickLoop (Suc n) env dispatched cl =
     (case dispatchOne (env n) cl of
        None \<Rightarrow> None
      | Some (Inl er, cl1) \<Rightarrow> Some ((Some er, dispatched), cl1)
      | Some (Inr False, cl1) \<Rightarrow> Some ((None, dispatched), cl1)
      | Some (Inr True, cl1) \<Rightarrow> tickLoop n env (dispatched + 1) cl1)"

definition Tick :: "(nat \<Rightarrow> dispatchEnv) \<Rightarrow> cluster \<Rightarrow> ((err option \<times> nat) \<times> cluster) option" where
  "Tick env cl = tickLoop (totalSlots * 2 + 1) env 0 cl"

section \<open>Frame lemmas\<close>

text \<open>What the operations on executors leave alone: everything but the executors.\<close>

definition same_frame :: "cluster \<Rightarrow> cluster \<Rightarrow> bool" where
  "same_frame cl cl' \<longleftrightarrow> cl_core cl' = cl_core cl \<and> cl_rr cl' = cl_rr cl \<and> cl_leaseFor cl' = cl_leaseFor cl \<and>
     cl_highWatermark cl' = cl_highWatermark cl \<and> cl_highStreak cl' = cl_highStreak cl"

lemma put_frame: "same_frame cl (putPool eid w cl)" "same_frame cl (putExt eid x cl)"
  by (simp_all add: same_frame_def putPool_def putExt_def)

lemma same_frame_refl [simp]: "same_frame cl cl"
  by (simp add: same_frame_def)

definition noExec :: "string \<Rightarrow> cluster \<Rightarrow> bool" where
  "noExec eid cl \<longleftrightarrow> map_of (cl_execs cl) eid = None \<or>
     map_of (cl_execs cl) eid = Some EExt \<and> map_of (em_workers (cl_mgr cl)) eid = None"

lemma execQuery_cases:
  obtains (pool) w where "map_of (cl_execs cl) eid = Some (EPool w)"
  | (ext) w where "map_of (cl_execs cl) eid = Some EExt" "map_of (em_workers (cl_mgr cl)) eid = Some w"
  | (none) "noExec eid cl"
  unfolding noExec_def by (metis Executor.exhaust not_Some_eq)

lemma execQuery_simps [simp]:
  "map_of (cl_execs cl) eid = Some (EPool w) \<Longrightarrow> execQuery f g d eid cl = f w"
  "map_of (cl_execs cl) eid = Some EExt \<Longrightarrow> map_of (em_workers (cl_mgr cl)) eid = Some x \<Longrightarrow> execQuery f g d eid cl = g x"
  "noExec eid cl \<Longrightarrow> execQuery f g d eid cl = d"
  by (auto simp: execQuery_def extOf_def noExec_def)

lemma slot_ops_frame:
  "same_frame cl (snd (ReserveSlot eid tid cl))" "same_frame cl (ReleaseSlot eid tid cl)" "same_frame cl (PreemptOn eid tid cl)"
  by (rule execQuery_cases [of cl eid]; simp add: ReserveSlot_def ReleaseSlot_def PreemptOn_def put_frame split_beta)+

lemma slot_ops_sel [simp]:
  "cl_core (ReleaseSlot eid tid cl) = cl_core cl" "cl_core (PreemptOn eid tid cl) = cl_core cl"
  "cl_highStreak (ReleaseSlot eid tid cl) = cl_highStreak cl" "cl_highStreak (PreemptOn eid tid cl) = cl_highStreak cl"
  "cl_highWatermark (ReleaseSlot eid tid cl) = cl_highWatermark cl" "cl_highWatermark (PreemptOn eid tid cl) = cl_highWatermark cl"
  "cl_leaseFor (ReleaseSlot eid tid cl) = cl_leaseFor cl" "cl_leaseFor (PreemptOn eid tid cl) = cl_leaseFor cl"
  using slot_ops_frame(2,3) [of cl eid tid] by (simp_all add: same_frame_def)

lemma ReserveSlot_sel:
  assumes "ReserveSlot eid tid cl = (ok, cl')"
  shows "cl_core cl' = cl_core cl" "cl_highStreak cl' = cl_highStreak cl" "cl_highWatermark cl' = cl_highWatermark cl"
    "cl_leaseFor cl' = cl_leaseFor cl"
  using slot_ops_frame(1) [of cl eid tid] assms by (simp_all add: same_frame_def)

lemma EnqueueHeadOf_sel [simp]:
  "cl_highStreak (snd (EnqueueHeadOf f t cl)) = cl_highStreak cl" "cl_highWatermark (snd (EnqueueHeadOf f t cl)) = cl_highWatermark cl"
  "cl_execs (snd (EnqueueHeadOf f t cl)) = cl_execs cl" "cl_mgr (snd (EnqueueHeadOf f t cl)) = cl_mgr cl"
  "co_db (cl_core (snd (EnqueueHeadOf f t cl))) = co_db (cl_core cl)"
  "co_q (cl_core (snd (EnqueueHeadOf f t cl))) = snd (EnqueueHead f (t_Priority t) (t_ID t) (co_q (cl_core cl)))"
  by (simp_all add: EnqueueHeadOf_def split: prod.split)

lemma Deliver_sel:
  assumes "Deliver e eid t cl = Some (r, cl')"
  shows "cl_highStreak cl' = cl_highStreak cl" "cl_highWatermark cl' = cl_highWatermark cl"
  by (rule execQuery_cases [of cl eid];
    use assms in \<open>auto simp: Deliver_def putPool_def putExt_def split: DeliverOut.splits option.splits prod.splits\<close>)+

lemma pick_sel:
  assumes "pick ty cl = (x, cl')"
  shows "cl' = cl\<lparr>cl_rr := cl_rr cl'\<rparr>"
  using assms by (auto simp: pick_def Let_def split: if_splits)

section \<open>The invariant of the cluster\<close>

text \<open>
  Every executor within its slots, and the shared state well formed. The parameter \<open>b\<close> says whether
  the bound is claimed of external workers too: a worker that registers again with fewer slots
  keeps the tasks it holds, so over the whole server it is claimed of in-process workers only.
\<close>

definition extOk :: "bool \<Rightarrow> ExternalWorker \<Rightarrow> bool" where
  "extOk b w \<longleftrightarrow> ext_inv w \<and> (b \<longrightarrow> int (length (ew_used w)) \<le> ew_slots w)"

definition cluster_fits :: "bool \<Rightarrow> cluster \<Rightarrow> bool" where
  "cluster_fits b cl \<longleftrightarrow> (\<forall>eid w. map_of (cl_execs cl) eid = Some (EPool w) \<longrightarrow> poolFits w) \<and>
     (\<forall>eid w. map_of (em_workers (cl_mgr cl)) eid = Some w \<longrightarrow> extOk b w)"

definition sched_inv :: "bool \<Rightarrow> cluster \<Rightarrow> bool" where
  "sched_inv b cl \<longleftrightarrow> core_inv (cl_core cl) \<and> cluster_fits b cl"

lemma put_fits: "cluster_fits b cl \<Longrightarrow> poolFits w \<Longrightarrow> cluster_fits b (putPool eid w cl)"
    "cluster_fits b cl \<Longrightarrow> extOk b x \<Longrightarrow> cluster_fits b (putExt eid x cl)"
  by (auto simp: cluster_fits_def putPool_def putExt_def)

lemma fits_cong [simp]: "cluster_fits b (cl\<lparr>cl_core := st\<rparr>) = cluster_fits b cl" "cluster_fits b (cl\<lparr>cl_rr := n\<rparr>) = cluster_fits b cl"
    "cluster_fits b (cl\<lparr>cl_highStreak := k\<rparr>) = cluster_fits b cl" "cluster_fits b (cl\<lparr>cl_posts := ps\<rparr>) = cluster_fits b cl"
  by (simp_all add: cluster_fits_def)

lemma ext_steps_ok:
  assumes "extOk b w"
  shows "extOk b (snd (extReserveSlot tid w))" "extOk b (extReleaseSlot tid w)" "extOk b (extPreempt tid w)"
    "extDeliver c t w = Some (r, w') \<Longrightarrow> extOk b w'"
proof -
  show "extOk b (snd (extReserveSlot tid w))"
    using assms by (auto simp: extOk_def extReserveSlot_def ext_inv_def)
  have "int (length (removeAll tid (ew_used w))) \<le> ew_slots w" if "int (length (ew_used w)) \<le> ew_slots w"
    by (rule order_trans [OF _ that]) (simp add: removeAll_filter_not_eq)
  then show "extOk b (extReleaseSlot tid w)"
    using assms by (simp add: extOk_def extReleaseSlot_def ext_inv_def distinct_removeAll)
  show "extOk b (extPreempt tid w)" using assms by (simp add: extOk_def extPreempt_def ext_inv_def)
  show "extDeliver c t w = Some (r, w') \<Longrightarrow> extOk b w'"
    using assms by (auto simp: extOk_def extDeliver_def ext_inv_def split: if_splits option.splits)
qed

lemma pool_steps_fit:
  assumes "poolFits w"
  shows "poolFits (snd (poolReserveSlot tid w))" "poolFits (poolReleaseSlot tid w)" "poolFits (poolPreempt tid w)"
    "poolFits (snd (poolDeliver now t w))"
  using poolStep_fits [OF assms, of "PoReserve tid"] poolStep_fits [OF assms, of "PoRelease tid"]
    poolStep_fits [OF assms, of "PoPreempt tid"] poolStep_fits [OF assms, of "PoDeliver now t"] by simp_all

lemma fits_pool: "cluster_fits b cl \<Longrightarrow> map_of (cl_execs cl) eid = Some (EPool w) \<Longrightarrow> poolFits w"
  by (auto simp: cluster_fits_def)

lemma fits_ext: "cluster_fits b cl \<Longrightarrow> map_of (em_workers (cl_mgr cl)) eid = Some w \<Longrightarrow> extOk b w"
  by (auto simp: cluster_fits_def)

lemma slot_ops_fit:
  assumes "cluster_fits b cl"
  shows "cluster_fits b (snd (ReserveSlot eid tid cl))" "cluster_fits b (ReleaseSlot eid tid cl)" "cluster_fits b (PreemptOn eid tid cl)"
  by (rule execQuery_cases [of cl eid];
      simp add: ReserveSlot_def ReleaseSlot_def PreemptOn_def put_fits [OF assms] assms pool_steps_fit ext_steps_ok
        fits_pool [OF assms] fits_ext [OF assms] split_beta)+

lemma Deliver_fit:
  assumes "cluster_fits b cl" "Deliver e eid t cl = Some (r, cl')"
  shows "cluster_fits b cl'"
proof (rule execQuery_cases [of cl eid])
  fix w
  assume pool: "map_of (cl_execs cl) eid = Some (EPool w)"
  have "poolFits w'" if "poolDeliver now t w = (x, w')" for now x w'
    using pool_steps_fit(4) [OF fits_pool [OF assms(1) pool], of now t] that by simp
  then show ?thesis using assms(2) put_fits(1) [OF assms(1)]
    by (auto simp: Deliver_def pool split: prod.splits DeliverOut.splits option.splits)
next
  fix w
  assume ext: "map_of (cl_execs cl) eid = Some EExt" "map_of (em_workers (cl_mgr cl)) eid = Some w"
  show ?thesis using assms(2) put_fits(2) [OF assms(1)] ext_steps_ok(4) [OF fits_ext [OF assms(1) ext(2)]]
    by (auto simp: Deliver_def ext split: option.splits)
next
  assume "noExec eid cl"
  then show ?thesis using assms by (simp add: Deliver_def)
qed

lemma Deliver_core:
  assumes "terminal_hook (ds_hook e)" "core_inv (cl_core cl)" "Deliver e eid t cl = Some (r, cl')"
  shows "core_grow (cl_core cl) (cl_core cl')"
proof -
  have rep: "core_grow (cl_core cl) st'"
    if "ReportResult (ds_hook e) (ds_report e) t False '''' msg cat (cl_core cl) = Some (ps, st')" for msg cat ps st'
    by (rule terminal_hook.report_grow [OF assms(1,2) that])
  show ?thesis by (rule execQuery_cases [of cl eid]; use assms(3) rep core_grow_refl [OF assms(2)] in
      \<open>auto simp: Deliver_def putPool_def putExt_def split: prod.splits DeliverOut.splits option.splits\<close>)
qed

text \<open>The invariant through one dispatch and through a pass.\<close>

lemma sched_inv_core: "sched_inv b cl \<Longrightarrow> core_inv st \<Longrightarrow> sched_inv b (cl\<lparr>cl_core := st\<rparr>)"
  by (simp add: sched_inv_def)

lemma sched_inv_slot:
  assumes "sched_inv b cl"
  shows "ReserveSlot eid tid cl = (ok, cl') \<Longrightarrow> sched_inv b cl'" "sched_inv b (ReleaseSlot eid tid cl)" "sched_inv b (PreemptOn eid tid cl)"
proof -
  show "sched_inv b cl'" if r: "ReserveSlot eid tid cl = (ok, cl')"
    using assms slot_ops_fit(1) [of b cl eid tid] r ReserveSlot_sel(1) [OF r] by (simp add: sched_inv_def)
qed (use assms slot_ops_fit in \<open>simp_all add: sched_inv_def\<close>)

lemma sched_inv_EnqueueHeadOf: "sched_inv b cl \<Longrightarrow> sched_inv b (snd (EnqueueHeadOf f t cl))"
proof -
  assume "sched_inv b cl"
  moreover have "cluster_fits b (snd (EnqueueHeadOf f t cl)) = cluster_fits b cl" by (simp add: cluster_fits_def)
  ultimately show ?thesis using redis_inv_steps(3) [of "co_q (cl_core cl)" f "t_Priority t" "t_ID t"]
    by (simp add: sched_inv_def core_inv_def)
qed

lemma idleOr_Some: "idleOr x = Some (out, cl) \<Longrightarrow> cl = snd x \<and> (out = Idle \<or> (\<exists>er. out = Failed er))"
  by (auto simp: idleOr_def split: prod.splits sum.splits)

lemma maybePreempt_inv:
  assumes "sched_inv b cl" "maybePreempt e t cl = (r, cl')"
  shows "sched_inv b cl'"
proof (cases "victimScan (Rank (t_Priority t)) (runningOn (t_Type t) cl) None")
  case (Some ev)
  obtain eid v where ev: "ev = (eid, v)" by fastforce
  obtain x s1 where p: "Preempt (ds_preempt e) (t_ID v) ''scheduler'' (co_db (cl_core cl)) = (x, s1)" by fastforce
  have i: "sched_inv b (cl\<lparr>cl_core := (cl_core cl)\<lparr>co_db := s1\<rparr>\<rparr>)"
    using Preempt_inv [of "co_db (cl_core cl)" "ds_preempt e" "t_ID v" "''scheduler''"] assms(1) p
    by (simp add: sched_inv_def core_inv_def)
  obtain y cl3 where q: "EnqueueHeadOf (ds_victim e) v
      (ReleaseSlot eid (t_ID v) (PreemptOn eid (t_ID v) (cl\<lparr>cl_core := (cl_core cl)\<lparr>co_db := s1\<rparr>\<rparr>))) = (y, cl3)" by fastforce
  have "sched_inv b cl3" using sched_inv_EnqueueHeadOf [OF sched_inv_slot(2) [OF sched_inv_slot(3) [OF i]]] q by (metis snd_conv)
  then show ?thesis using assms(2) Some ev p i q
    by (cases x; cases y) (auto simp: maybePreempt_def Let_def)
qed (use assms in \<open>simp add: maybePreempt_def\<close>)

lemma dispatchTo_inv:
  assumes "terminal_hook (ds_hook e)" "sched_inv b cl" "dispatchTo e prio eid task cl = Some (out, cl')"
  shows "sched_inv b cl'"
proof -
  obtain ok cl1 where r: "ReserveSlot eid (t_ID task) cl = (ok, cl1)" by fastforce
  have cl1: "sched_inv b cl1" by (rule sched_inv_slot(1) [OF assms(2) r])
  obtain x s1 where b: "BeginAttempt (ds_begin e) (t_ID task) eid (ds_now e + cl_leaseFor cl1) (co_db (cl_core cl1)) = (x, s1)" by fastforce
  define cl2 where "cl2 = cl1\<lparr>cl_core := (cl_core cl1)\<lparr>co_db := s1\<rparr>\<rparr>"
  have cl2: "sched_inv b cl2"
    using BeginAttempt_inv [of "co_db (cl_core cl1)" "ds_begin e" "t_ID task" eid "ds_now e + cl_leaseFor cl1"] cl1 b
    by (simp add: sched_inv_def core_inv_def cl2_def)
  have d: "sched_inv b cl3" if "Deliver e eid t cl2 = Some (y, cl3)" for t y cl3
    using Deliver_fit [OF _ that] Deliver_core [OF assms(1) _ that] cl2 by (auto simp: sched_inv_def dest: core_grow_inv)
  have n: "sched_inv b (notePop prio cl3) = sched_inv b cl3" for cl3 by (simp add: notePop_def sched_inv_def)
  show ?thesis
  proof (cases ok)
    case False
    then show ?thesis using assms(3) r sched_inv_EnqueueHeadOf [OF cl1] by (auto simp: dispatchTo_def requeue_def dest!: idleOr_Some)
  next
    case True
    then show ?thesis using assms(3) r b n d cl2 sched_inv_EnqueueHeadOf sched_inv_slot(2)
      by (auto simp: dispatchTo_def requeue_def Let_def cl2_def [symmetric] split: sum.splits option.splits if_splits)
  qed
qed

lemma dispatchTask_inv:
  assumes "terminal_hook (ds_hook e)" "sched_inv b cl" "dispatchTask e prio task cl = Some (out, cl')"
  shows "sched_inv b cl'"
proof -
  obtain x cl1 where p: "pick (t_Type task) cl = (x, cl1)" by fastforce
  have cl1: "sched_inv b cl1" by (subst pick_sel [OF p]) (use assms(2) in \<open>simp add: sched_inv_def\<close>)
  obtain y cl2 where m: "maybePreempt e task cl1 = (y, cl2)" by fastforce
  note cl2 = maybePreempt_inv [OF cl1 m]
  show ?thesis using assms(3) p m dispatchTo_inv [OF assms(1)] cl1 cl2 sched_inv_EnqueueHeadOf
    by (auto simp: dispatchTask_def requeue_def split: option.splits sum.splits if_splits dest!: idleOr_Some)
qed

lemma choosePriority_sel:
  assumes "choosePriority d cl = (x, cl')"
  shows "cl' = cl\<lparr>cl_highStreak := cl_highStreak cl'\<rparr>"
  using assms by (auto simp: choosePriority_def Let_def split: if_splits option.splits)

lemma dispatchStep_inv:
  assumes "terminal_hook (ds_hook e)" "sched_inv b cl" "dispatchStep e cl = Some (out, cl')"
  shows "sched_inv b cl'"
proof (cases "AllDepths (ds_depths e) (co_q (cl_core cl))")
  case (Inr d)
  obtain x cl1 where c: "choosePriority d cl = (x, cl1)" by fastforce
  have cl1: "sched_inv b cl1" by (subst choosePriority_sel [OF c]) (use assms(2) in \<open>simp add: sched_inv_def\<close>)
  show ?thesis
  proof (cases x)
    case (Some p)
    obtain y q where dq: "Dequeue (ds_dequeue e) p (co_q (cl_core cl1)) = (y, q)" by fastforce
    have q: "sched_inv b (cl1\<lparr>cl_core := (cl_core cl1)\<lparr>co_q := q\<rparr>\<rparr>)"
      using redis_inv_steps(4) [of "co_q (cl_core cl1)" "ds_dequeue e" p] dq cl1 by (simp add: sched_inv_def core_inv_def)
    then show ?thesis using assms(3) Inr c dq Some dispatchTask_inv [OF assms(1) q]
      by (auto simp: dispatchStep_def Let_def split: option.splits sum.splits if_splits)
  qed (use assms(3) Inr c cl1 in \<open>simp add: dispatchStep_def\<close>)
qed (use assms in \<open>simp add: dispatchStep_def\<close>)

lemma tickLoop_inv:
  assumes "\<And>n. terminal_hook (ds_hook (env n))"
  shows "sched_inv b cl \<Longrightarrow> tickLoop k env m cl = Some ((er, n), cl') \<Longrightarrow> sched_inv b cl' \<and> m \<le> n \<and> n \<le> m + k"
proof (induction k arbitrary: m cl)
  case (Suc k)
  show ?case
  proof (cases "dispatchStep (env k) cl")
    case (Some oc)
    obtain out cl1 where oc: "oc = (out, cl1)" by fastforce
    have "sched_inv b cl1" by (rule dispatchStep_inv [OF assms Suc.prems(1), of k out]) (use Some oc in simp)
    then show ?thesis using Suc.IH [of cl1 "m + 1"] Suc.prems Some oc by (cases out) (auto simp: dispatchOne_def)
  qed (use Suc.prems in \<open>simp add: dispatchOne_def\<close>)
qed auto

section \<open>Priorities and fairness\<close>

lemma execQuery_streak: "execQuery f g x eid (cl\<lparr>cl_highStreak := k\<rparr>) = execQuery f g x eid cl"
  by (simp add: execQuery_def extOf_def split: option.split Executor.split)

lemma availableFor_streak [simp]: "availableFor p d (cl\<lparr>cl_highStreak := k\<rparr>) = availableFor p d cl"
  by (simp add: availableFor_def snapshot_def CanHandle_def HasPreemptibleTask_def execQuery_streak)

lemma find_strict: "List.find P PriorityOrder = Some p \<Longrightarrow>
  p \<in> set PriorityOrder \<and> P p \<and> (\<forall>q \<in> set PriorityOrder. P q \<longrightarrow> Rank p \<le> Rank q)"
  by (auto simp: PriorityOrder_def split: if_splits)

lemma find_low: "List.find P (drop 3 PriorityOrder) =
  (if P PriorityLow then Some PriorityLow else if P PriorityBulk then Some PriorityBulk else None)"
  by (simp add: PriorityOrder_def)

text \<open>Work at low or bulk priority that the cluster could run at this moment.\<close>

definition lowAvailable :: "(Priority \<Rightarrow> int) \<Rightarrow> cluster \<Rightarrow> bool" where
  "lowAvailable d cl \<longleftrightarrow> availableFor PriorityLow d cl \<or> availableFor PriorityBulk d cl"

lemma choosePriority_cases:
  assumes "choosePriority d cl = (Some p, cl')"
  shows "availableFor p d cl \<and> p \<in> set PriorityOrder \<and>
    (if cl_highWatermark cl \<le> cl_highStreak cl \<and> lowAvailable d cl then Rank p \<ge> Rank PriorityLow \<and> cl' = cl
     else (\<forall>q \<in> set PriorityOrder. availableFor q d cl \<longrightarrow> Rank p \<le> Rank q) \<and>
       cl' = (if cl_highWatermark cl \<le> cl_highStreak cl then cl\<lparr>cl_highStreak := 0\<rparr> else cl))"
proof (cases "cl_highWatermark cl \<le> cl_highStreak cl \<and> lowAvailable d cl")
  case True
  then show ?thesis using assms
    by (auto simp: choosePriority_def find_low lowAvailable_def set_PriorityOrder split: if_splits)
next
  case False
  then have "List.find (\<lambda>p. availableFor p d cl) PriorityOrder = Some p"
    using assms by (auto simp: choosePriority_def find_low lowAvailable_def Let_def split: if_splits)
  then show ?thesis using find_strict [of "\<lambda>p. availableFor p d cl" p] False assms
    by (auto simp: choosePriority_def find_low lowAvailable_def Let_def split: if_splits)
qed

lemma choosePriority_None:
  "fst (choosePriority d cl) = None \<longleftrightarrow> (\<forall>p \<in> set PriorityOrder. \<not> availableFor p d cl)"
  by (auto simp: choosePriority_def find_low find_None_iff set_PriorityOrder Let_def split: if_splits option.splits)

text \<open>The streak along one dispatch.\<close>

lemma maybePreempt_sel:
  assumes "maybePreempt e t cl = (r, cl')"
  shows "cl_highStreak cl' = cl_highStreak cl" "cl_highWatermark cl' = cl_highWatermark cl"
proof -
  have "cl_highStreak (snd (maybePreempt e t cl)) = cl_highStreak cl \<and> cl_highWatermark (snd (maybePreempt e t cl)) = cl_highWatermark cl"
  proof (cases "victimScan (Rank (t_Priority t)) (runningOn (t_Type t) cl) None")
    case (Some ev)
    obtain eid v where ev: "ev = (eid, v)" by fastforce
    obtain x s1 where p: "Preempt (ds_preempt e) (t_ID v) ''scheduler'' (co_db (cl_core cl)) = (x, s1)" by fastforce
    have enq: "cl_highStreak cl3 = cl_highStreak c \<and> cl_highWatermark cl3 = cl_highWatermark c"
      if "EnqueueHeadOf (ds_victim e) v c = (y, cl3)" for c y cl3
      using EnqueueHeadOf_sel(1,2) [of "ds_victim e" v c] that by simp
    show ?thesis using Some ev p by (auto simp: maybePreempt_def Let_def dest!: enq split: sum.splits prod.splits)
  qed (simp add: maybePreempt_def)
  then show "cl_highStreak cl' = cl_highStreak cl" "cl_highWatermark cl' = cl_highWatermark cl" using assms by simp_all
qed

text \<open>What a dispatch past the choice of the priority does to the streak.\<close>

definition streakStep :: "Priority \<Rightarrow> cluster \<Rightarrow> DispatchOut \<Rightarrow> cluster \<Rightarrow> bool" where
  "streakStep prio cl out cl' \<longleftrightarrow> cl_highWatermark cl' = cl_highWatermark cl \<and>
     (case out of Delivered p \<Rightarrow> p = prio \<and> cl_highStreak cl' = (if Rank p < Rank PriorityLow then cl_highStreak cl + 1 else 0)
      | _ \<Rightarrow> cl_highStreak cl' = cl_highStreak cl)"

lemma dispatchTo_streak:
  assumes "dispatchTo e prio eid task cl = Some (out, cl')"
  shows "streakStep prio cl out cl'"
proof -
  obtain ok cl1 where r: "ReserveSlot eid (t_ID task) cl = (ok, cl1)" by fastforce
  note s = ReserveSlot_sel [OF r]
  show ?thesis
  proof (cases ok)
    case False
    then show ?thesis using assms r s by (auto simp: dispatchTo_def requeue_def streakStep_def dest!: idleOr_Some)
  next
    case True
    have d: "cl_highStreak cl3 = cl_highStreak cl \<and> cl_highWatermark cl3 = cl_highWatermark cl"
      if "Deliver e eid t (cl1\<lparr>cl_core := c\<rparr>) = Some (y, cl3)" for t c y cl3
      using Deliver_sel [OF that] s by simp
    show ?thesis using True assms r s
      by (auto simp: dispatchTo_def requeue_def Let_def streakStep_def notePop_def dest!: d
          split: prod.splits sum.splits option.splits if_splits)
  qed
qed

lemma dispatchTask_streak:
  assumes "dispatchTask e prio task cl = Some (out, cl')"
  shows "streakStep prio cl out cl'"
proof -
  obtain x cl1 where p: "pick (t_Type task) cl = (x, cl1)" by fastforce
  have s: "cl_highStreak cl1 = cl_highStreak cl" "cl_highWatermark cl1 = cl_highWatermark cl"
    by (subst pick_sel [OF p]; simp)+
  obtain y cl2 where m: "maybePreempt e task cl1 = (y, cl2)" by fastforce
  have t: "streakStep prio c out cl' \<Longrightarrow> cl_highStreak c = cl_highStreak cl \<Longrightarrow> cl_highWatermark c = cl_highWatermark cl \<Longrightarrow>
    streakStep prio cl out cl'" for c by (cases out) (simp_all add: streakStep_def)
  have idle: "streakStep prio cl out cl'" if "idleOr (EnqueueHeadOf f u c) = Some (out, cl')"
      "cl_highStreak c = cl_highStreak cl" "cl_highWatermark c = cl_highWatermark cl" for f u c
    using idleOr_Some [OF that(1)] that(2,3) by (auto simp: streakStep_def)
  have failed: "streakStep prio cl (Failed er) (snd (EnqueueHeadOf f u c))"
    if "cl_highStreak c = cl_highStreak cl" "cl_highWatermark c = cl_highWatermark cl" for er f u c
    using that by (simp add: streakStep_def)
  show ?thesis using assms p m s maybePreempt_sel [OF m]
    by (auto simp: dispatchTask_def requeue_def split: option.splits sum.splits if_splits
        intro: idle failed t [OF dispatchTo_streak])
qed

lemma dispatchStep_streak:
  assumes "dispatchStep e cl = Some (out, cl')"
    and "\<And>d. AllDepths (ds_depths e) (co_q (cl_core cl)) = Inr d \<Longrightarrow> lowAvailable d cl"
  shows "cl_highWatermark cl' = cl_highWatermark cl \<and>
     (case out of
        Delivered p \<Rightarrow> if Rank p < Rank PriorityLow
          then cl_highStreak cl < cl_highWatermark cl \<and> cl_highStreak cl' = cl_highStreak cl + 1 else cl_highStreak cl' = 0
      | _ \<Rightarrow> cl_highStreak cl' = cl_highStreak cl)"
proof (cases "AllDepths (ds_depths e) (co_q (cl_core cl))")
  case (Inr d)
  note low = assms(2) [OF Inr]
  obtain x cl1 where c: "choosePriority d cl = (x, cl1)" by fastforce
  have "x \<noteq> None" using choosePriority_None [of d cl] c low by (auto simp: lowAvailable_def set_PriorityOrder)
  then obtain p where x: "x = Some p" by blast
  have ch: "cl1 = cl" "Rank p < Rank PriorityLow \<Longrightarrow> cl_highStreak cl < cl_highWatermark cl"
    using choosePriority_cases [of d cl p cl1] c x low by (auto split: if_splits)
  have t: "streakStep p cl out cl'" if "dispatchTask e p task (cl\<lparr>cl_core := st\<rparr>) = Some (out, cl')" for task st
    using dispatchTask_streak [OF that] by (cases out) (simp_all add: streakStep_def)
  show ?thesis using assms(1) Inr c x ch
    by (auto simp: dispatchStep_def Let_def streakStep_def split: prod.splits sum.splits option.splits if_splits DispatchOut.splits dest!: t)
qed (use assms in \<open>auto simp: dispatchStep_def\<close>)

text \<open>A run of dispatches, and that low-priority work could be run at each of them.\<close>

fun dispatchRun :: "dispatchEnv list \<Rightarrow> cluster \<Rightarrow> (DispatchOut list \<times> cluster) option" where
  "dispatchRun [] cl = Some ([], cl)"
| "dispatchRun (e # es) cl =
     (case dispatchStep e cl of
        None \<Rightarrow> None
      | Some (out, cl1) \<Rightarrow> (case dispatchRun es cl1 of None \<Rightarrow> None | Some (outs, cl2) \<Rightarrow> Some (out # outs, cl2)))"

fun lowWaits :: "dispatchEnv list \<Rightarrow> cluster \<Rightarrow> bool" where
  "lowWaits [] cl \<longleftrightarrow> True"
| "lowWaits (e # es) cl \<longleftrightarrow>
     (case AllDepths (ds_depths e) (co_q (cl_core cl)) of Inl _ \<Rightarrow> True | Inr d \<Rightarrow> lowAvailable d cl) \<and>
     (case dispatchStep e cl of None \<Rightarrow> True | Some (_, cl1) \<Rightarrow> lowWaits es cl1)"

definition deliveries :: "DispatchOut list \<Rightarrow> Priority list" where
  "deliveries outs = concat (map (\<lambda>out. case out of Delivered p \<Rightarrow> [p] | _ \<Rightarrow> []) outs)"

lemma deliveries_simps [simp]: "deliveries [] = []"
    "deliveries (out # outs) = (case out of Delivered p \<Rightarrow> p # deliveries outs | _ \<Rightarrow> deliveries outs)"
  by (simp_all add: deliveries_def split: DispatchOut.split)

lemma high_run_short:
  assumes "dispatchRun es cl = Some (outs, cl')" "lowWaits es cl" "\<forall>p \<in> set (deliveries outs). Rank p < Rank PriorityLow"
  shows "int (length (deliveries outs)) \<le> max 0 (cl_highWatermark cl - cl_highStreak cl)"
  using assms
proof (induction es arbitrary: cl outs)
  case (Cons e es)
  obtain out cl1 where s: "dispatchStep e cl = Some (out, cl1)" using Cons.prems(1) by (auto split: option.splits)
  obtain outs1 where r: "dispatchRun es cl1 = Some (outs1, cl')" "outs = out # outs1"
    using Cons.prems(1) s by (auto split: option.splits)
  have low: "lowAvailable d cl" if "AllDepths (ds_depths e) (co_q (cl_core cl)) = Inr d" for d
    using Cons.prems(2) that by simp
  have "lowWaits es cl1" using Cons.prems(2) s by simp
  moreover have "\<forall>p \<in> set (deliveries outs1). Rank p < Rank PriorityLow" using Cons.prems(3) r(2) by (cases out) auto
  ultimately have ih: "int (length (deliveries outs1)) \<le> max 0 (cl_highWatermark cl1 - cl_highStreak cl1)"
    using Cons.IH [OF r(1)] by blast
  show ?case using dispatchStep_streak [OF s low] ih Cons.prems(3) r(2) by (cases out) auto
qed auto

lemma dispatchStep_known: "dispatchStep e cl = Some (Delivered p, cl') \<Longrightarrow> p \<in> set PriorityOrder"
proof -
  assume s: "dispatchStep e cl = Some (Delivered p, cl')"
  obtain d where d: "AllDepths (ds_depths e) (co_q (cl_core cl)) = Inr d" using s by (auto simp: dispatchStep_def split: sum.splits)
  obtain x cl1 where c: "choosePriority d cl = (x, cl1)" by fastforce
  have t: "p = prio" if "dispatchTask e prio task c1 = Some (Delivered p, cl')" for prio task c1
    using dispatchTask_streak [OF that] by (simp add: streakStep_def)
  have "x = Some p" using s d c by (auto simp: dispatchStep_def Let_def split: option.splits sum.splits prod.splits if_splits dest!: t)
  then show ?thesis using choosePriority_cases [of d cl p cl1] c by simp
qed

lemma deliveries_known: "dispatchRun es cl = Some (outs, cl') \<Longrightarrow> set (deliveries outs) \<subseteq> set PriorityOrder"
proof (induction es arbitrary: cl outs)
  case (Cons e es)
  then show ?case using dispatchStep_known [of e cl]
    by (auto split: option.splits DispatchOut.splits) blast+
qed auto

section \<open>Preemption\<close>

abbreviation rankOf :: "string \<times> Task \<Rightarrow> nat" where "rankOf x \<equiv> Rank (t_Priority (snd x))"

lemma victimScan_Cons: "victimScan rank (x # xs) best = victimScan rank xs
  (if rankOf x \<le> rank then best else case best of None \<Rightarrow> Some x | Some b \<Rightarrow> if rankOf b < rankOf x then Some x else best)"
  by (cases x) (simp split: option.split)

lemma victimScan_spec:
  assumes "victimScan rank xs best = Some ev" "\<And>b. best = Some b \<Longrightarrow> rank < rankOf b"
  shows "(best = Some ev \<or> ev \<in> set xs) \<and> rank < rankOf ev \<and> (\<forall>x \<in> set xs. rank < rankOf x \<longrightarrow> rankOf x \<le> rankOf ev) \<and>
     (\<forall>b. best = Some b \<longrightarrow> rankOf b \<le> rankOf ev)"
  using assms
proof (induction xs arbitrary: best)
  case (Cons x xs)
  consider (skip) "rankOf x \<le> rank" | (first) "rank < rankOf x" "best = None"
    | (better) b where "rank < rankOf x" "best = Some b" "rankOf b < rankOf x"
    | (worse) b where "rank < rankOf x" "best = Some b" "rankOf x \<le> rankOf b"
    by (metis not_le not_Some_eq)
  then show ?case
  proof cases
    case skip
    then show ?thesis using Cons.IH [of best] Cons.prems by (auto simp: victimScan_Cons)
  next
    case first
    then show ?thesis using Cons.IH [of "Some x"] Cons.prems by (auto simp: victimScan_Cons)
  next
    case (better b)
    then show ?thesis using Cons.IH [of "Some x"] Cons.prems by (auto simp: victimScan_Cons)
  next
    case (worse b)
    then show ?thesis using Cons.IH [of best] Cons.prems by (auto simp: victimScan_Cons)
  qed
qed auto

lemma Preempt_ok:
  assumes "db_inv s" "Preempt c tid w s = (Inr t, s')"
  obtains r where "lookupRow c_id tid (tasks s) = Some r" "c_status r = StatusRunning"
    "lookupRow c_id tid (tasks s') = Some (freeRow (k_dbnow c) r)"
    "\<And>x. x \<noteq> tid \<Longrightarrow> lookupRow c_id x (tasks s') = lookupRow c_id x (tasks s)"
proof -
  have d: "distinct (map c_id (tasks s))" using assms(1) by (simp add: db_inv_def)
  let ?P = "\<lambda>r. c_id r = tid \<and> c_status r = StatusRunning"
  have t: "tasks s' = updateWhere ?P (freeRow (k_dbnow c)) (tasks s)" and "selectWhere ?P (tasks s) \<noteq> []"
    using assms(2) by (auto simp: Preempt_def withTx_Inr Let_def split: list.splits)
  then obtain r where r: "lookupRow c_id tid (tasks s) = Some r" "c_status r = StatusRunning"
    using selectWhere_key [OF d, of tid "\<lambda>r. c_status r = StatusRunning"] by (auto split: option.splits if_splits)
  show thesis
  proof (rule that [OF r])
    show "lookupRow c_id tid (tasks s') = Some (freeRow (k_dbnow c) r)"
      using r lookupRow_Some [OF r(1)] by (simp add: t lookupRow_updateWhere)
    fix x
    assume "x \<noteq> tid"
    then show "lookupRow c_id x (tasks s') = lookupRow c_id x (tasks s)"
      using lookupRow_Some [of c_id x "tasks s"] by (cases "lookupRow c_id x (tasks s)") (auto simp: t lookupRow_updateWhere)
  qed
qed

lemma EnqueueHead_ok:
  assumes "redis_inv q" "EnqueueHead f p tid q = (Inr x, q')"
  shows "ready q' = (ready q)(p := addHead tid (ready q p))"
  using rq.enqh_ok [OF assms(1), of f p tid q'] assms(2) by (simp add: old.unit.exhaust)

lemma released_slot:
  assumes "cluster_fits b cl" "map_of (cl_execs cl) eid = Some (EPool w)" "cl' = ReleaseSlot eid tid (PreemptOn eid tid cl)"
  shows "\<exists>w'. map_of (cl_execs cl') eid = Some (EPool w') \<and> poolUsed w' = poolUsed w - {tid} \<and> pw_slots w' = pw_slots w"
proof -
  have w: "pool_inv w" using fits_pool [OF assms(1,2)] by (simp add: poolFits_def)
  note p = poolPreempt_used [OF w, of tid]
  have "map_of (cl_execs cl') eid = Some (EPool (poolReleaseSlot tid (poolPreempt tid w)))"
    using assms(2,3) by (simp add: PreemptOn_def ReleaseSlot_def putPool_def)
  then show ?thesis using pool.release_used [of "poolPreempt tid w" tid] p by simp
qed

section \<open>Properties\<close>

definition sampleDispatch :: dispatchEnv where
  "sampleDispatch = \<lparr>ds_depths = None, ds_dequeue = None, ds_get = sampleCall, ds_preempt = sampleCall, ds_victim = None,
     ds_requeue = None, ds_now = 10, ds_begin = sampleCall, ds_deliverNow = 10, ds_canceled = None, ds_report = sampleReport,
     ds_hook = dagHook sampleTermEnv\<rparr>"

text \<open>One worker with one slot, and the sample task, of normal priority, in its ready queue.\<close>

definition sampleCluster :: cluster where
  "sampleCluster =
     AddExecutor ''w'' (EPool (NewWorker ''w'' ''w'' [''email''] 1 30))
       (NewScheduler \<lparr>co_db = sampleDb, co_q = snd (Enqueue None PriorityNormal ''a'' emptyRedis)\<rparr> (30 * Second) 5)"

lemma sampleCluster_inv: "sched_inv b sampleCluster"
  using redis_inv_steps(2) [OF redis_inv_empty, of None PriorityNormal "''a''"] NewWorker_fits [of 1 "''w''" "''w''" "[''email'']" 30]
  by (simp add: sampleCluster_def AddExecutor_def NewScheduler_def sched_inv_def core_inv_def sampleDb_inv cluster_fits_def emptyManager_def)

text \<open>
  C10: a pass of the scheduler is bounded and safe. Whatever the store, the queue and the
  executors answer, it hands out at most 129 tasks, keeps every executor within its slots, and
  keeps the store and the ready queues well formed.
\<close>

theorem Tick_safe:
  assumes "\<And>n. terminal_hook (ds_hook (env n))" "sched_inv True cl" "Tick env cl = Some ((er, n), cl')"
  shows "n \<le> 129 \<and> cluster_fits True cl' \<and> db_inv (co_db (cl_core cl')) \<and> redis_inv (co_q (cl_core cl'))"
proof -
  have "tickLoop (totalSlots * 2 + 1) env 0 cl = Some ((er, n), cl')" using assms(3) by (simp add: Tick_def)
  from tickLoop_inv [OF assms(1,2) this] show ?thesis by (simp add: totalSlots_def sched_inv_def core_inv_def)
qed

theorem Tick_safe_witness:
  "\<exists>n cl'. Tick (\<lambda>_. sampleDispatch) sampleCluster = Some ((None, n), cl') \<and> n = 1 \<and> cluster_fits True cl' \<and>
     map c_status (tasks (co_db (cl_core cl'))) = [StatusRunning]"
proof -
  have "map_option (\<lambda>x. (fst (fst x), snd (fst x), map c_status (tasks (co_db (cl_core (snd x))))))
      (Tick (\<lambda>_. sampleDispatch) sampleCluster) = Some (None, 1, [StatusRunning])" by code_simp
  then obtain cl' where t: "Tick (\<lambda>_. sampleDispatch) sampleCluster = Some ((None, 1), cl')"
    "map c_status (tasks (co_db (cl_core cl'))) = [StatusRunning]" by auto
  have "terminal_hook (ds_hook sampleDispatch)" by (simp add: sampleDispatch_def dag.terminal_hook_axioms)
  from Tick_safe [OF this sampleCluster_inv t(1)] t show ?thesis by auto
qed

text \<open>
  C28: the choice of the priority. None is chosen exactly when no queue has work the cluster can
  run. Otherwise the chosen queue has such work, and it is the highest one that has, unless the
  streak of high deliveries has reached the watermark and low or bulk work can be run: then it
  is one of those two.
\<close>

theorem choosePriority_correct:
  shows "case choosePriority d cl of
     (None, _) \<Rightarrow> \<forall>p \<in> set PriorityOrder. \<not> availableFor p d cl
   | (Some p, _) \<Rightarrow> availableFor p d cl \<and>
       (if cl_highWatermark cl \<le> cl_highStreak cl \<and> lowAvailable d cl then p = PriorityLow \<or> p = PriorityBulk
        else \<forall>q \<in> set PriorityOrder. availableFor q d cl \<longrightarrow> Rank p \<le> Rank q)"
proof (cases "choosePriority d cl")
  case (Pair x cl')
  show ?thesis
  proof (cases x)
    case None
    then show ?thesis using choosePriority_None [of d cl] Pair by simp
  next
    case (Some p)
    then show ?thesis using choosePriority_cases [of d cl p cl'] Pair by (auto simp: set_PriorityOrder split: if_splits)
  qed
qed

theorem choosePriority_correct_witness:
  "fst (choosePriority (\<lambda>p. if p = PriorityNormal then 1 else 0) sampleCluster) = Some PriorityNormal \<and>
   availableFor PriorityNormal (\<lambda>p. if p = PriorityNormal then 1 else 0) sampleCluster"
proof
  show c: "fst (choosePriority (\<lambda>p. if p = PriorityNormal then 1 else 0) sampleCluster) = Some PriorityNormal" by code_simp
  then show "availableFor PriorityNormal (\<lambda>p. if p = PriorityNormal then 1 else 0) sampleCluster"
    using choosePriority_correct [of "\<lambda>p. if p = PriorityNormal then 1 else 0" sampleCluster] by (auto split: prod.splits)
qed

text \<open>
  C8: low and bulk tasks are not starved. While such a task could be run at every dispatch, at
  most as many tasks of normal or higher priority are delivered in a row as the watermark
  allows beyond the current streak.
\<close>

theorem bounded_overtaking:
  assumes "dispatchRun es cl = Some (outs, cl')" "lowWaits es cl"
    and "int (length (deliveries outs)) > max 0 (cl_highWatermark cl - cl_highStreak cl)"
  shows "\<exists>p \<in> set (deliveries outs). p = PriorityLow \<or> p = PriorityBulk"
proof (rule ccontr)
  assume "\<not> ?thesis"
  then have no: "p \<noteq> PriorityLow \<and> p \<noteq> PriorityBulk" if "p \<in> set (deliveries outs)" for p using that by blast
  have "Rank p < Rank PriorityLow" if p: "p \<in> set (deliveries outs)" for p
  proof -
    have "p \<in> set PriorityOrder" by (rule subsetD [OF deliveries_known [OF assms(1)] p])
    then show ?thesis using no [OF p] unfolding set_PriorityOrder by (elim insertE) simp_all
  qed
  then have "int (length (deliveries outs)) \<le> max 0 (cl_highWatermark cl - cl_highStreak cl)"
    by (intro high_run_short [OF assms(1,2)] ballI)
  then show False using assms(3) by simp
qed

definition lowCluster :: cluster where
  "lowCluster =
     AddExecutor ''w'' (EPool (NewWorker ''w'' ''w'' [''email''] 1 30))
       (NewScheduler \<lparr>co_db = sampleDb, co_q = snd (Enqueue None PriorityLow ''a'' (snd (Enqueue None PriorityNormal ''b'' emptyRedis)))\<rparr>
          (30 * Second) 0)"

theorem bounded_overtaking_witness:
  "\<exists>outs cl'. dispatchRun [sampleDispatch] lowCluster = Some (outs, cl') \<and> PriorityLow \<in> set (deliveries outs)"
proof -
  have "map_option fst (dispatchRun [sampleDispatch] lowCluster) = Some [Delivered PriorityLow]" by code_simp
  then obtain cl' where r: "dispatchRun [sampleDispatch] lowCluster = Some ([Delivered PriorityLow], cl')" by auto
  have "lowWaits [sampleDispatch] lowCluster" by code_simp
  moreover have "int (length (deliveries [Delivered PriorityLow])) > max 0 (cl_highWatermark lowCluster - cl_highStreak lowCluster)"
    by code_simp
  ultimately show ?thesis using bounded_overtaking [OF r] r by auto
qed

text \<open>
  C9: preemption. When an executor is freed for a task, the victim ran on it, has strictly
  lower priority than the task, and no running task of any capable executor has lower priority
  than the victim. The victim's row goes from running back to ready without a lease, no other
  row changes, the victim is at the head of its own ready queue (unless it was in it already)
  and no other queue changes; an in-process executor gave up exactly the victim's slot.
\<close>

theorem preempts_lowest_only:
  assumes "sched_inv b cl" "maybePreempt e t cl = (Inr (Some eid), cl')"
  shows "\<exists>v r. (eid, v) \<in> set (runningOn (t_Type t) cl) \<and> Rank (t_Priority t) < Rank (t_Priority v) \<and>
    (\<forall>x \<in> set (runningOn (t_Type t) cl). Rank (t_Priority (snd x)) \<le> Rank (t_Priority v)) \<and>
    lookupRow c_id (t_ID v) (tasks (co_db (cl_core cl))) = Some r \<and> c_status r = StatusRunning \<and>
    lookupRow c_id (t_ID v) (tasks (co_db (cl_core cl'))) = Some (freeRow (k_dbnow (ds_preempt e)) r) \<and>
    (\<forall>x. x \<noteq> t_ID v \<longrightarrow> lookupRow c_id x (tasks (co_db (cl_core cl'))) = lookupRow c_id x (tasks (co_db (cl_core cl)))) \<and>
    ready (co_q (cl_core cl')) =
      (ready (co_q (cl_core cl)))(t_Priority v := addHead (t_ID v) (ready (co_q (cl_core cl)) (t_Priority v))) \<and>
    (\<forall>w. map_of (cl_execs cl) eid = Some (EPool w) \<longrightarrow>
       (\<exists>w'. map_of (cl_execs cl') eid = Some (EPool w') \<and> poolUsed w' = poolUsed w - {t_ID v} \<and> pw_slots w' = pw_slots w))"
proof -
  obtain v where v: "victimScan (Rank (t_Priority t)) (runningOn (t_Type t) cl) None = Some (eid, v)"
    using assms(2) by (auto simp: maybePreempt_def Let_def split: option.splits prod.splits sum.splits if_splits)
  obtain y s1 where p: "Preempt (ds_preempt e) (t_ID v) ''scheduler'' (co_db (cl_core cl)) = (Inr y, s1)"
    using assms(2) v by (auto simp: maybePreempt_def Let_def split: option.splits prod.splits sum.splits if_splits)
  define cl1 where "cl1 = cl\<lparr>cl_core := (cl_core cl)\<lparr>co_db := s1\<rparr>\<rparr>"
  define cl2 where "cl2 = ReleaseSlot eid (t_ID v) (PreemptOn eid (t_ID v) cl1)"
  obtain z where q: "EnqueueHeadOf (ds_victim e) v cl2 = (Inr z, cl')"
    using assms(2) v p by (auto simp: maybePreempt_def Let_def cl1_def cl2_def split: prod.splits sum.splits)
  have inv: "db_inv (co_db (cl_core cl))" "redis_inv (co_q (cl_core cl))" "cluster_fits b cl1"
    using assms(1) by (simp_all add: sched_inv_def core_inv_def cl1_def)
  have core2: "cl_core cl2 = (cl_core cl)\<lparr>co_db := s1\<rparr>" by (simp add: cl2_def cl1_def)
  have fr: "cl_execs cl' = cl_execs cl2" "co_db (cl_core cl') = s1" using EnqueueHeadOf_sel [of "ds_victim e" v cl2] q core2 by simp_all
  have rd: "ready (co_q (cl_core cl')) =
      (ready (co_q (cl_core cl)))(t_Priority v := addHead (t_ID v) (ready (co_q (cl_core cl)) (t_Priority v)))"
    using q core2 EnqueueHead_ok [OF inv(2)] by (auto simp: EnqueueHeadOf_def split: prod.splits)
  have pool: "\<exists>w'. map_of (cl_execs cl') eid = Some (EPool w') \<and> poolUsed w' = poolUsed w - {t_ID v} \<and> pw_slots w' = pw_slots w"
    if "map_of (cl_execs cl) eid = Some (EPool w)" for w
    using released_slot [OF inv(3), of eid w cl2 "t_ID v"] that fr by (simp add: cl1_def cl2_def)
  have vs: "(eid, v) \<in> set (runningOn (t_Type t) cl)" "Rank (t_Priority t) < Rank (t_Priority v)"
    "\<forall>x \<in> set (runningOn (t_Type t) cl). Rank (t_Priority (snd x)) \<le> Rank (t_Priority v)"
    using victimScan_spec [OF v] by (auto simp: not_less intro: leI dest: less_imp_le)
  show ?thesis
    by (rule Preempt_ok [OF inv(1) p]) (use vs rd pool fr in blast)
qed

text \<open>The sample cluster after a pass: its one slot is taken by a task of normal priority.\<close>

definition busyCluster :: cluster where
  "busyCluster = (case Tick (\<lambda>_. sampleDispatch) sampleCluster of None \<Rightarrow> sampleCluster | Some (_, cl) \<Rightarrow> cl)"

lemma busyCluster_inv: "sched_inv b busyCluster"
proof (cases "Tick (\<lambda>_. sampleDispatch) sampleCluster")
  case (Some x)
  obtain er n cl where x: "x = ((er, n), cl)" by (metis prod.collapse)
  have "terminal_hook (ds_hook sampleDispatch)" by (simp add: sampleDispatch_def dag.terminal_hook_axioms)
  then show ?thesis using tickLoop_inv [OF _ sampleCluster_inv, of "\<lambda>_. sampleDispatch" "totalSlots * 2 + 1" 0 er n cl] Some x
    by (simp add: busyCluster_def Tick_def)
qed (simp add: busyCluster_def sampleCluster_inv)

theorem preempts_lowest_only_witness:
  "\<exists>cl' (v :: Task) r. maybePreempt sampleDispatch ((sampleTask ''c'')\<lparr>t_Priority := PriorityCritical\<rparr>) busyCluster = (Inr (Some ''w''), cl') \<and>
     lookupRow c_id (t_ID v) (tasks (co_db (cl_core cl'))) = Some (freeRow 10 r)"
proof -
  let ?m = "maybePreempt sampleDispatch ((sampleTask ''c'')\<lparr>t_Priority := PriorityCritical\<rparr>) busyCluster"
  have "fst ?m = Inr (Some ''w'')" by code_simp
  then have m: "?m = (Inr (Some ''w''), snd ?m)" by (metis prod.collapse)
  have k: "k_dbnow (ds_preempt sampleDispatch) = 10" by (simp add: sampleDispatch_def sampleCall_def)
  obtain v :: Task and r where "lookupRow c_id (t_ID v) (tasks (co_db (cl_core (snd ?m)))) = Some (freeRow 10 r)"
    using preempts_lowest_only [OF busyCluster_inv m] unfolding k by (elim exE conjE) (rule that; assumption)
  with m show ?thesis by (intro exI conjI)
qed

subsection \<open>No task is lost\<close>



















end
