(* ===== verification/Background.thy ===== *)
theory Background
  imports Scheduler
begin

text \<open>
  The loops that run beside the scheduler, one pass of each: \<open>internal/delayscheduler\<close>
  (promotion of due tasks, rebuilding the waiting sets), \<open>internal/reaper\<close> (lost workers and
  expired leases), and the recovery at startup and the shutdown of \<open>internal/runtime\<close>. The
  tickers that repeat the passes are not timed.
\<close>

section \<open>Promotion of due tasks\<close>

record promoteEnv =
  po_now :: time
  po_pop :: "WaitKind \<Rightarrow> err option"
  po_mark :: "WaitKind \<Rightarrow> call"
  po_readd :: "string \<Rightarrow> err option"
  po_enqueue :: "string \<Rightarrow> err option"

definition promoteBatch :: nat where "promoteBatch = 500"

text \<open>Putting the popped ids back after a failed update; the errors are ignored.\<close>

definition readd :: "promoteEnv \<Rightarrow> WaitKind \<Rightarrow> string list \<Rightarrow> RedisQueue \<Rightarrow> RedisQueue" where
  "readd e kind ids q = fold (\<lambda>tid q. snd (AddWaiting (po_readd e tid) kind tid (po_now e) q)) ids q"

text \<open>The loop over the confirmed tasks: it stops at the first error, with the count so far.\<close>

fun enqueueReady :: "(string \<Rightarrow> err option) \<Rightarrow> Task list \<Rightarrow> nat \<Rightarrow> RedisQueue \<Rightarrow> (err option \<times> nat) \<times> RedisQueue" where
  "enqueueReady f [] tot q = ((None, tot), q)"
| "enqueueReady f (t # ts) tot q =
     (case Enqueue (f (t_ID t)) (t_Priority t) (t_ID t) q of
        (Inl er, q1) \<Rightarrow> ((Some er, tot), q1)
      | (Inr _, q1) \<Rightarrow> enqueueReady f ts (tot + 1) q1)"

definition promoteKind :: "promoteEnv \<Rightarrow> WaitKind \<Rightarrow> nat \<Rightarrow> core \<Rightarrow> (err option \<times> nat) \<times> core" where
  "promoteKind e kind tot st =
     (case PopDue (po_pop e kind) kind (po_now e) promoteBatch (co_q st) of
        (Inl er, q1) \<Rightarrow> ((Some er, tot), st\<lparr>co_q := q1\<rparr>)
      | (Inr ids, q1) \<Rightarrow>
          if ids = [] then ((None, tot), st\<lparr>co_q := q1\<rparr>)
          else (case MarkReadyByIDs (po_mark e kind) ids (po_now e) (co_db st) of
                  (Inl er, s1) \<Rightarrow> ((Some er, tot), st\<lparr>co_db := s1, co_q := readd e kind ids q1\<rparr>)
                | (Inr rdy, s1) \<Rightarrow>
                    (case enqueueReady (po_enqueue e) rdy tot q1 of
                       (res, q2) \<Rightarrow> (res, st\<lparr>co_db := s1, co_q := q2\<rparr>))))"

definition promoteOnce :: "promoteEnv \<Rightarrow> core \<Rightarrow> (err option \<times> nat) \<times> core" where
  "promoteOnce e st =
     (case promoteKind e WaitDelay 0 st of
        ((Some er, tot), st1) \<Rightarrow> ((Some er, tot), st1)
      | ((None, tot), st1) \<Rightarrow> promoteKind e WaitRetry tot st1)"

text \<open>Rebuilding the retry set from the waiting rows of the store.\<close>

fun rebuildLoop :: "(string \<Rightarrow> err option) \<Rightarrow> time \<Rightarrow> PendingEntry list \<Rightarrow> RedisQueue \<Rightarrow> unit res \<times> RedisQueue" where
  "rebuildLoop f now [] q = (Inr (), q)"
| "rebuildLoop f now (e # es) q =
     (case AddWaiting (f (pe_ID e)) WaitRetry (pe_ID e) (case pe_ExecuteAfter e of None \<Rightarrow> now | Some t \<Rightarrow> t) q of
        (Inl er, q1) \<Rightarrow> (Inl er, q1)
      | (Inr _, q1) \<Rightarrow> rebuildLoop f now es q1)"

definition RebuildWaitSets :: "call \<Rightarrow> time \<Rightarrow> (string \<Rightarrow> err option) \<Rightarrow> core \<Rightarrow> unit res \<times> core" where
  "RebuildWaitSets c now f st =
     (case ListPending c (co_db st) of
        Inl er \<Rightarrow> (Inl er, st)
      | Inr entries \<Rightarrow> (case rebuildLoop f now entries (co_q st) of (r, q1) \<Rightarrow> (r, st\<lparr>co_q := q1\<rparr>)))"

section \<open>The reaper\<close>

record reapEnv =
  ra_now :: time
  ra_ttl :: duration
  ra_mark :: call
  ra_accepts :: "string list \<Rightarrow> bool"
  ra_reclaim :: call
  ra_enqueue :: "string \<Rightarrow> err option"

text \<open>
  \<open>WorkerOffline\<close> with the callback the runtime installs (\<open>OnRemove\<close>): the id leaves the
  scheduler's registry, whatever kind of executor it names. \<open>None\<close> is a panic.
\<close>

definition notifyOffline :: "string \<Rightarrow> cluster \<Rightarrow> cluster option" where
  "notifyOffline wid cl =
     map_option (\<lambda>m. RemoveExecutor wid (cl\<lparr>cl_mgr := m\<rparr>)) (WorkerOffline wid (cl_mgr cl))"

fun notifyAll :: "string list \<Rightarrow> cluster \<Rightarrow> cluster option" where
  "notifyAll [] cl = Some cl"
| "notifyAll (wid # ws) cl = (case notifyOffline wid cl of None \<Rightarrow> None | Some cl1 \<Rightarrow> notifyAll ws cl1)"

fun enqueueReclaimed :: "(string \<Rightarrow> err option) \<Rightarrow> ReclaimedTask list \<Rightarrow> nat \<Rightarrow> RedisQueue \<Rightarrow> (err option \<times> nat) \<times> RedisQueue" where
  "enqueueReclaimed f [] n q = ((None, n), q)"
| "enqueueReclaimed f (rc # rcs) n q =
     (case EnqueueHead (f (t_ID (rc_Task rc))) (t_Priority (rc_Task rc)) (t_ID (rc_Task rc)) q of
        (Inl er, q1) \<Rightarrow> ((Some er, n), q1)
      | (Inr _, q1) \<Rightarrow> enqueueReclaimed f rcs (n + 1) q1)"

definition ReapOnce :: "reapEnv \<Rightarrow> cluster \<Rightarrow> ((err option \<times> nat) \<times> cluster) option" where
  "ReapOnce e cl =
     (case MarkWorkersOffline (ra_mark e) (ra_now e - ra_ttl e) (co_db (cl_core cl)) of
        (Inl er, s1) \<Rightarrow> Some ((Some er, 0), cl\<lparr>cl_core := (cl_core cl)\<lparr>co_db := s1\<rparr>\<rparr>)
      | (Inr offline, s1) \<Rightarrow>
          (case notifyAll offline (cl\<lparr>cl_core := (cl_core cl)\<lparr>co_db := s1\<rparr>\<rparr>) of
             None \<Rightarrow> None
           | Some cl1 \<Rightarrow>
               (case ReclaimExpired (ra_accepts e) (ra_reclaim e) (ra_now e) s1 of
                  (Inl er, s2) \<Rightarrow> Some ((Some er, 0), cl1\<lparr>cl_core := (cl_core cl1)\<lparr>co_db := s2\<rparr>\<rparr>)
                | (Inr reclaimed, s2) \<Rightarrow>
                    (case enqueueReclaimed (ra_enqueue e) reclaimed 0 (co_q (cl_core cl1)) of
                       (res, q2) \<Rightarrow> Some (res, cl1\<lparr>cl_core := \<lparr>co_db = s2, co_q = q2\<rparr>\<rparr>)))))"

section \<open>Startup and shutdown\<close>

record startEnv =
  sa_recover :: call
  sa_late :: "err option"
  sa_audit :: call
  sa_enqueue :: "string \<Rightarrow> err option"
  sa_pending :: call
  sa_now :: time
  sa_waiting :: "string \<Rightarrow> err option"

text \<open>The recovery of \<open>Start\<close>, up to the launch of the loops; the enqueue errors are ignored.\<close>

definition Start :: "startEnv \<Rightarrow> core \<Rightarrow> unit res \<times> core" where
  "Start e st =
     (case RecoverInflight (sa_recover e) (sa_late e) (sa_audit e) (co_db st) of
        (Inl er, s1) \<Rightarrow> (Inl er, st\<lparr>co_db := s1\<rparr>)
      | (Inr (readyTasks, reclaimed), s1) \<Rightarrow>
          RebuildWaitSets (sa_pending e) (sa_now e) (sa_waiting e)
            (st\<lparr>co_db := s1, co_q := fold (\<lambda>t q. snd (Enqueue (sa_enqueue e (t_ID t)) (t_Priority t) (t_ID t) q)) readyTasks (co_q st)\<rparr>))"

text \<open>\<open>Stop\<close>: the embedded workers are drained one after the other.\<close>

definition drainExec :: "Executor \<Rightarrow> Executor" where
  "drainExec x = (case x of EPool w \<Rightarrow> EPool (drainEnd (drainBegin w)) | EExt \<Rightarrow> EExt)"

definition Stop :: "cluster \<Rightarrow> cluster" where
  "Stop cl = cl\<lparr>cl_execs := map (\<lambda>x. (fst x, drainExec (snd x))) (cl_execs cl)\<rparr>"

section \<open>Lemmas on the queue loops\<close>

lemma waiting_Enqueue [simp]: "waiting (snd (Enqueue f p tid q)) = waiting q" "waiting (snd (EnqueueHead f p tid q)) = waiting q"
  by (cases f; simp add: Enqueue_def EnqueueHead_def runEnqueue_def enqueueScript_def waiting_def SADD_def LPUSH_def RPUSH_def fun_eq_iff)+

lemma Enqueue_ready:
  assumes "redis_inv q" "Enqueue f p tid q = (r, q')"
  shows "redis_inv q'" "set (ready q x) \<subseteq> set (ready q' x)" "waiting q' = waiting q" "r = Inr u \<Longrightarrow> tid \<in> set (ready q' p)"
    "f = None \<Longrightarrow> r = Inr ()"
proof -
  show "redis_inv q'" "set (ready q x) \<subseteq> set (ready q' x)" "waiting q' = waiting q"
    using redis_inv_steps(2) [OF assms(1), of f p tid] ready_Enqueue [OF assms(1), of x f p tid] waiting_Enqueue(1) [of f p tid q] assms(2)
    by simp_all
  show "r = Inr u \<Longrightarrow> tid \<in> set (ready q' p)" using rq.enq_member [OF assms(1), of f p tid q'] assms(2) by (simp add: old.unit.exhaust)
  show "f = None \<Longrightarrow> r = Inr ()" using Enqueue_None [of p tid q] assms(2) by (metis prod.inject)
qed

lemma EnqueueHead_ready:
  assumes "redis_inv q" "EnqueueHead f p tid q = (r, q')"
  shows "redis_inv q'" "set (ready q x) \<subseteq> set (ready q' x)" "r = Inr u \<Longrightarrow> tid \<in> set (ready q' p)" "f = None \<Longrightarrow> r = Inr ()"
proof -
  show "redis_inv q'" using redis_inv_steps(3) [OF assms(1), of f p tid] assms(2) by simp
  have ok: "r = Inr u' \<Longrightarrow> ready q' = (ready q)(p := addHead tid (ready q p))" for u'
    using EnqueueHead_ok [OF assms(1)] assms(2) by blast
  then show "r = Inr u \<Longrightarrow> tid \<in> set (ready q' p)" by simp
  show "set (ready q x) \<subseteq> set (ready q' x)"
    using ok rq.enqh_err [of f p tid q _ q'] assms(2) by (cases r) auto
  show "f = None \<Longrightarrow> r = Inr ()" using assms(2) by (auto simp: EnqueueHead_def runEnqueue_def)
qed

lemma enqueueReady_ok:
  assumes "redis_inv q" "enqueueReady f ts n q = ((er, m), q')"
  shows "redis_inv q' \<and> (\<forall>p. set (ready q p) \<subseteq> set (ready q' p)) \<and> waiting q' = waiting q \<and>
    (er = None \<longrightarrow> m = n + length ts \<and> (\<forall>t \<in> set ts. t_ID t \<in> set (ready q' (t_Priority t)))) \<and>
    ((\<forall>x. f x = None) \<longrightarrow> er = None)"
  using assms
proof (induction ts arbitrary: n q)
  case (Cons t ts)
  obtain r q1 where e: "Enqueue (f (t_ID t)) (t_Priority t) (t_ID t) q = (r, q1)" by fastforce
  note f = Enqueue_ready [OF Cons.prems(1) e]
  show ?case
  proof (cases r)
    case (Inl x)
    then show ?thesis using Cons.prems(2) e f by auto
  next
    case (Inr u)
    then have "enqueueReady f ts (n + 1) q1 = ((er, m), q')" using Cons.prems(2) e by simp
    from Cons.IH [OF f(1) this] show ?thesis using f(2,3) f(4) [OF Inr] by (auto simp: subset_iff)
  qed
qed simp

lemma readd_ok: "redis_inv q \<Longrightarrow> redis_inv (readd e k ids q) \<and> ready (readd e k ids q) = ready q"
  unfolding readd_def by (induction ids arbitrary: q) (simp_all add: redis_inv_steps(1))

section \<open>Promotion\<close>

lemma finite_waiting: "finite {x. \<exists>s. waiting q k x = Some s \<and> P s}"
proof -
  have "finite (dom (waiting q k))" by (simp add: waiting_def finite_dom_map_of)
  then show ?thesis by (rule rev_finite_subset) auto
qed

definition dueCount :: "RedisQueue \<Rightarrow> WaitKind \<Rightarrow> time \<Rightarrow> nat" where
  "dueCount q k now = card {x. \<exists>s. waiting q k x = Some s \<and> s \<le> UnixMilli now}"

lemma PopDue_all:
  assumes "redis_inv q" "PopDue f k now lim q = (Inr ids, q')" "dueCount q k now < lim" "waiting q k tid = Some sc" "sc \<le> UnixMilli now"
  shows "tid \<in> set ids"
proof -
  have "set ids \<subseteq> {x. \<exists>s. waiting q k x = Some s \<and> s \<le> UnixMilli now}" using rq.popd_due [OF assms(1,2)] by blast
  then have "card (set ids) \<le> dueCount q k now" unfolding dueCount_def by (rule card_mono [OF finite_waiting])
  then have "length ids < lim" using rq.popd_ok [OF assms(1,2)] assms(3) by (simp add: distinct_card)
  then show ?thesis using rq.popd_complete [OF assms(1,2)] assms(4,5) by blast
qed

text \<open>What one pass over one waiting set does to a task and to the queues.\<close>

lemma MarkReadyByIDs_row:
  assumes "MarkReadyByIDs c ids now s = (Inr ts, s')" "lookupRow c_id tid (tasks s) = Some r"
  shows "lookupRow c_id tid (tasks s') = Some (if tid \<in> set ids \<and> dueRow now r then readyRow (k_dbnow c) r else r)"
    "tid \<in> set ids \<Longrightarrow> dueRow now r \<Longrightarrow> scanTask (readyRow (k_dbnow c) r) \<in> set ts"
proof -
  let ?P = "\<lambda>r. c_id r \<in> set ids \<and> dueRow now r" and ?f = "readyRow (k_dbnow c)"
  have "ids = [] \<and> s' = s \<or> tasks s' = updateWhere ?P ?f (tasks s) \<and> ts = map (scanTask \<circ> ?f) (selectWhere ?P (tasks s))"
    using assms(1) by (auto simp: MarkReadyByIDs_def withTx_Inr Let_def split: if_splits)
  then show "lookupRow c_id tid (tasks s') = Some (if tid \<in> set ids \<and> dueRow now r then readyRow (k_dbnow c) r else r)"
    "tid \<in> set ids \<Longrightarrow> dueRow now r \<Longrightarrow> scanTask (readyRow (k_dbnow c) r) \<in> set ts"
    using assms(2) lookupRow_Some [OF assms(2)] by (auto simp: lookupRow_updateWhere set_selectWhere)
qed

lemma promoteKind_ok:
  assumes "core_inv st" "promoteKind e k n st = ((None, m), st')" "lookupRow c_id tid (tasks (co_db st)) = Some r"
  shows "core_grow st st' \<and> (\<forall>k'. k' \<noteq> k \<longrightarrow> waiting (co_q st') k' = waiting (co_q st) k') \<and>
    (\<exists>r'. lookupRow c_id tid (tasks (co_db st')) = Some r' \<and>
       (r' = r \<or> c_status r' = StatusReady \<and> c_priority r' = c_priority r \<and> tid \<in> set (ready (co_q st') (c_priority r))) \<and>
       (\<forall>sc. dueCount (co_q st) k (po_now e) < promoteBatch \<longrightarrow> waiting (co_q st) k tid = Some sc \<longrightarrow> sc \<le> UnixMilli (po_now e) \<longrightarrow>
          dueRow (po_now e) r \<longrightarrow> c_status r' = StatusReady \<and> tid \<in> set (ready (co_q st') (c_priority r))))"
proof -
  have inv: "db_inv (co_db st)" "redis_inv (co_q st)" using assms(1) by (simp_all add: core_inv_def)
  obtain ids q1 where pop: "PopDue (po_pop e k) k (po_now e) promoteBatch (co_q st) = (Inr ids, q1)"
    using assms(2) by (auto simp: promoteKind_def split: prod.splits sum.splits)
  have q1: "redis_inv q1" "ready q1 = ready (co_q st)" "k' \<noteq> k \<Longrightarrow> waiting q1 k' = waiting (co_q st) k'" for k'
    using rq.popd_ok [OF inv(2) pop] by simp_all
  show ?thesis
  proof (cases "ids = []")
    case True
    then have st': "st' = st\<lparr>co_q := q1\<rparr>" using assms(2) pop by (simp add: promoteKind_def)
    then show ?thesis using q1 inv assms(3) PopDue_all [OF inv(2) pop] True by (auto simp: core_grow_def core_inv_def)
  next
    case False
    obtain ts s1 where mk: "MarkReadyByIDs (po_mark e k) ids (po_now e) (co_db st) = (Inr ts, s1)"
      using assms(2) pop False by (auto simp: promoteKind_def split: prod.splits sum.splits)
    obtain q2 where en: "enqueueReady (po_enqueue e) ts n q1 = ((None, m), q2)" and st': "st' = st\<lparr>co_db := s1, co_q := q2\<rparr>"
      using assms(2) pop False mk by (auto simp: promoteKind_def split: prod.splits)
    note en = enqueueReady_ok [OF q1(1) en]
    note row = MarkReadyByIDs_row [OF mk assms(3)]
    have "db_inv s1" using MarkReadyByIDs_inv [OF inv(1), of "po_mark e k" ids "po_now e"] mk by simp
    moreover have "rows_live (co_db st) s1" using MarkReadyByIDs_live [of "co_db st" "po_mark e k" ids "po_now e"] mk by simp
    ultimately have g: "core_grow st st'" using en q1(2) by (auto simp: st' core_grow_def core_inv_def)
    have tid: "c_id r = tid" using lookupRow_Some [OF assms(3)] by simp
    have all: "\<forall>t \<in> set ts. t_ID t \<in> set (ready q2 (t_Priority t))" using en by simp
    have "tid \<in> set (ready q2 (c_priority r))" if "tid \<in> set ids" "dueRow (po_now e) r"
      using bspec [OF all row(2) [OF that]] tid by (simp add: readyRow_def)
    then show ?thesis using g en q1(3) row(1) PopDue_all [OF inv(2) pop] by (auto simp: st' readyRow_def)
  qed
qed

lemma promoteKind_returns:
  assumes "core_inv st" "po_pop e k = None" "k_fault (po_mark e k) = None" "\<forall>x. po_enqueue e x = None"
  shows "fst (fst (promoteKind e k n st)) = None"
proof -
  have q: "redis_inv (co_q st)" using assms(1) by (simp add: core_inv_def)
  obtain r q1 where pop: "PopDue (po_pop e k) k (po_now e) promoteBatch (co_q st) = (r, q1)" by fastforce
  obtain ids where ids: "r = Inr ids" using pop assms(2) by (auto simp: PopDue_def split: prod.splits)
  have q1: "redis_inv q1" using rq.popd_ok [OF q pop [unfolded ids]] by simp
  obtain x s1 where mk: "MarkReadyByIDs (po_mark e k) ids (po_now e) (co_db st) = (x, s1)" by fastforce
  obtain ts where ts: "x = Inr ts" using mk assms(3) by (auto simp: MarkReadyByIDs_def withTx_def Let_def split: if_splits)
  obtain er m q2 where en: "enqueueReady (po_enqueue e) ts n q1 = ((er, m), q2)" by (metis prod.collapse)
  then have "er = None" using enqueueReady_ok [OF q1 en] assms(4) by blast
  then show ?thesis using pop ids mk ts en by (simp add: promoteKind_def)
qed

section \<open>Rebuilding and startup\<close>

definition dueOf :: "time \<Rightarrow> PendingEntry \<Rightarrow> time" where
  "dueOf now e = (case pe_ExecuteAfter e of None \<Rightarrow> now | Some t \<Rightarrow> t)"

lemma rebuildLoop_ok:
  assumes "redis_inv q" "\<forall>x. f x = None" "distinct (map pe_ID es)"
  shows "\<exists>q'. rebuildLoop f now es q = (Inr (), q') \<and> redis_inv q' \<and> ready q' = ready q \<and>
    (\<forall>x. x \<notin> pe_ID ` set es \<longrightarrow> waiting q' WaitRetry x = waiting q WaitRetry x) \<and>
    (\<forall>e \<in> set es. waiting q' WaitRetry (pe_ID e) = Some (UnixMilli (dueOf now e)))"
  using assms
proof (induction es arbitrary: q)
  case (Cons e es)
  obtain q1 where a: "AddWaiting None WaitRetry (pe_ID e) (dueOf now e) q = (Inr (), q1)" using AddWaiting_None by blast
  note w = rq.addw_ok [OF Cons.prems(1) a]
  have "redis_inv q1" using w by simp
  from Cons.IH [OF this Cons.prems(2)] obtain q' where q': "rebuildLoop f now es q1 = (Inr (), q')" "redis_inv q'" "ready q' = ready q1"
    "\<forall>x. x \<notin> pe_ID ` set es \<longrightarrow> waiting q' WaitRetry x = waiting q1 WaitRetry x"
    "\<forall>e \<in> set es. waiting q' WaitRetry (pe_ID e) = Some (UnixMilli (dueOf now e))" using Cons.prems(3) by auto
  have "rebuildLoop f now (e # es) q = (Inr (), q')" using a q'(1) Cons.prems(2) by (simp add: dueOf_def)
  then show ?case using q' w Cons.prems(3) by auto
qed simp

lemma fold_Enqueue_ok:
  assumes "redis_inv q" "\<forall>x. f x = None"
  shows "redis_inv (fold (\<lambda>t q. snd (Enqueue (f (t_ID t)) (t_Priority t) (t_ID t) q)) ts q) \<and>
    (\<forall>p. set (ready q p) \<subseteq> set (ready (fold (\<lambda>t q. snd (Enqueue (f (t_ID t)) (t_Priority t) (t_ID t) q)) ts q) p)) \<and>
    (\<forall>t \<in> set ts. t_ID t \<in> set (ready (fold (\<lambda>t q. snd (Enqueue (f (t_ID t)) (t_Priority t) (t_ID t) q)) ts q) (t_Priority t)))"
  using assms(1)
proof (induction ts arbitrary: q)
  case (Cons t ts)
  obtain r q1 where e: "Enqueue (f (t_ID t)) (t_Priority t) (t_ID t) q = (r, q1)" by fastforce
  note en = Enqueue_ready [OF Cons.prems e]
  have "r = Inr ()" using en(5) assms(2) by simp
  then have "t_ID t \<in> set (ready q1 (t_Priority t))" using en(4) by blast
  then show ?case using Cons.IH [OF en(1)] en(2) e by (auto simp: subset_iff)
qed simp

section \<open>Reaping\<close>

lemma enqueueReclaimed_ok:
  assumes "redis_inv q" "enqueueReclaimed f rcs n q = ((er, m), q')"
  shows "redis_inv q' \<and> (\<forall>p. set (ready q p) \<subseteq> set (ready q' p)) \<and>
    (er = None \<longrightarrow> m = n + length rcs \<and> (\<forall>rc \<in> set rcs. t_ID (rc_Task rc) \<in> set (ready q' (t_Priority (rc_Task rc)))))"
  using assms
proof (induction rcs arbitrary: n q)
  case (Cons rc rcs)
  obtain r q1 where e: "EnqueueHead (f (t_ID (rc_Task rc))) (t_Priority (rc_Task rc)) (t_ID (rc_Task rc)) q = (r, q1)" by fastforce
  note f = EnqueueHead_ready [OF Cons.prems(1) e]
  show ?case
  proof (cases r)
    case (Inl x)
    then show ?thesis using Cons.prems(2) e f by auto
  next
    case (Inr u)
    then have "enqueueReclaimed f rcs (n + 1) q1 = ((er, m), q')" using Cons.prems(2) e by simp
    from Cons.IH [OF f(1) this] show ?thesis using f(2) f(3) [OF Inr] by (auto simp: subset_iff)
  qed
qed simp

lemma notifyOffline_ok:
  assumes "notifyOffline wid cl = Some cl'"
  shows "cl_core cl' = cl_core cl \<and> map_of (cl_execs cl') = (map_of (cl_execs cl))(wid := None) \<and> (cluster_fits b cl \<longrightarrow> cluster_fits b cl') \<and>
    map_of (em_workers (cl_mgr cl')) wid = None"
  using assms by (auto simp: notifyOffline_def RemoveExecutor_def WorkerOffline_def Let_def cluster_fits_def split: option.splits if_splits)

lemma notifyAll_ok: "notifyAll ws cl = Some cl' \<Longrightarrow> cl_core cl' = cl_core cl \<and> (cluster_fits b cl \<longrightarrow> cluster_fits b cl') \<and>
  (\<forall>wid. map_of (cl_execs cl') wid = (if wid \<in> set ws then None else map_of (cl_execs cl) wid))"
proof (induction ws arbitrary: cl)
  case (Cons wid ws)
  obtain cl1 where c: "notifyOffline wid cl = Some cl1" using Cons.prems by (auto split: option.splits)
  then have "notifyAll ws cl1 = Some cl'" using Cons.prems by simp
  from Cons.IH [OF this] notifyOffline_ok [OF c] show ?case by auto
qed simp

section \<open>Properties\<close>

text \<open>
  C16: a due task is promoted by the next pass. When the queue and the store answer, and fewer
  tasks than a batch are due in each waiting set, a waiting task that is due and listed under a
  past millisecond in one of the sets is ready after the pass and in the ready queue of its
  priority; the pass reports no error.
\<close>

theorem promotes_due:
  assumes "core_inv st" "promoteOnce e st = (res, st')"
    and "\<forall>k x. po_pop e k = None \<and> k_fault (po_mark e k) = None \<and> po_enqueue e x = None"
    and "\<forall>k. dueCount (co_q st) k (po_now e) < promoteBatch"
    and "lookupRow c_id tid (tasks (co_db st)) = Some r" "dueRow (po_now e) r"
    and "k \<in> {WaitDelay, WaitRetry}" "waiting (co_q st) k tid = Some sc" "sc \<le> UnixMilli (po_now e)"
  shows "fst res = None \<and> (\<exists>r'. lookupRow c_id tid (tasks (co_db st')) = Some r' \<and> c_status r' = StatusReady \<and>
    tid \<in> set (ready (co_q st') (c_priority r)))"
proof -
  obtain m st1 where p1: "promoteKind e WaitDelay 0 st = ((None, m), st1)"
    using promoteKind_returns [OF assms(1), of e WaitDelay 0] assms(3) by (metis prod.collapse)
  note k1 = promoteKind_ok [OF assms(1) p1 assms(5)]
  then obtain r1 where r1: "lookupRow c_id tid (tasks (co_db st1)) = Some r1"
      "r1 = r \<or> c_status r1 = StatusReady \<and> c_priority r1 = c_priority r \<and> tid \<in> set (ready (co_q st1) (c_priority r))"
      "k = WaitDelay \<Longrightarrow> c_status r1 = StatusReady \<and> tid \<in> set (ready (co_q st1) (c_priority r))"
    using assms(4,6,8,9) by blast
  have inv1: "core_inv st1" and w1: "waiting (co_q st1) WaitRetry = waiting (co_q st) WaitRetry"
    using k1 by (auto dest: core_grow_inv)
  obtain m2 st2 where p2: "promoteKind e WaitRetry m st1 = ((None, m2), st2)"
    using promoteKind_returns [OF inv1, of e WaitRetry m] assms(3) by (metis prod.collapse)
  have st': "res = (None, m2)" "st' = st2" using assms(2) p1 p2 by (simp_all add: promoteOnce_def)
  have dc: "dueCount (co_q st1) WaitRetry (po_now e) < promoteBatch" using assms(4) by (simp add: dueCount_def w1)
  note k2 = promoteKind_ok [OF inv1 p2 r1(1)]
  then obtain r2 where r2: "lookupRow c_id tid (tasks (co_db st2)) = Some r2"
      "r2 = r1 \<or> c_status r2 = StatusReady \<and> c_priority r2 = c_priority r1 \<and> tid \<in> set (ready (co_q st2) (c_priority r1))"
      "k = WaitRetry \<Longrightarrow> dueRow (po_now e) r1 \<Longrightarrow> c_status r2 = StatusReady \<and> tid \<in> set (ready (co_q st2) (c_priority r1))"
    using dc assms(8,9) w1 by metis
  have g: "set (ready (co_q st1) p) \<subseteq> set (ready (co_q st2) p)" for p using k2 by (simp add: core_grow_def)
  show ?thesis
  proof (cases "r1 = r \<and> k = WaitRetry")
    case True
    then show ?thesis using r2 assms(6) st' by auto
  next
    case False
    then have "c_status r1 = StatusReady" "tid \<in> set (ready (co_q st1) (c_priority r))" using r1(2,3) assms(7) by auto
    then show ?thesis using r2(1,2) st' g by auto
  qed
qed

text \<open>
  C18: startup. When the store and the queue answer, \<open>Start\<close> leaves no task running, every
  ready task in the ready queue of its priority, and every waiting task in the retry set under
  its due time (or the present, when it has none).
\<close>

theorem Start_restores:
  assumes "core_inv st" "Start e st = (res, st')"
    and "k_fault (sa_recover e) = None" "sa_late e = None" "k_fault (sa_pending e) = None"
      "\<forall>x. sa_enqueue e x = None \<and> sa_waiting e x = None"
  shows "res = Inr () \<and> core_inv st' \<and> (\<forall>r \<in> set (tasks (co_db st')).
    c_status r \<noteq> StatusRunning \<and>
    (c_status r = StatusReady \<longrightarrow> c_id r \<in> set (ready (co_q st') (c_priority r))) \<and>
    (c_status r = StatusPending \<longrightarrow>
       waiting (co_q st') WaitRetry (c_id r) = Some (UnixMilli (case c_execute_after r of None \<Rightarrow> sa_now e | Some t \<Rightarrow> t))))"
proof -
  have inv: "db_inv (co_db st)" "redis_inv (co_q st)" using assms(1) by (simp_all add: core_inv_def)
  obtain x s1 where rc: "RecoverInflight (sa_recover e) (sa_late e) (sa_audit e) (co_db st) = (x, s1)" by fastforce
  have s1: "tasks s1 = updateWhere (\<lambda>r. c_status r = StatusRunning) (freeRow (k_dbnow (sa_recover e))) (tasks (co_db st))"
    and inv1: "db_inv s1"
    using RecoverInflight_tables(2) [of "sa_recover e" "sa_late e" "sa_audit e" "co_db st"]
      RecoverInflight_inv [OF inv(1), of "sa_recover e" "sa_late e" "sa_audit e"] assms(3,4) rc by simp_all
  obtain ts n where x: "x = Inr (ts, n)" and ts: "set ts = scanTask ` {r \<in> set (tasks s1). c_status r = StatusReady}"
    using rc assms(3,4) by (auto simp: RecoverInflight_def Let_def s1 set_selectWhere split: if_splits)
  define q1 where "q1 = fold (\<lambda>t q. snd (Enqueue (sa_enqueue e (t_ID t)) (t_Priority t) (t_ID t) q)) ts (co_q st)"
  have q1: "redis_inv q1" "\<forall>t \<in> set ts. t_ID t \<in> set (ready q1 (t_Priority t))"
    using fold_Enqueue_ok [OF inv(2), of "sa_enqueue e" ts] assms(6) by (simp_all add: q1_def)
  define es where "es = map (\<lambda>r. \<lparr>pe_ID = c_id r, pe_ExecuteAfter = c_execute_after r\<rparr>)
    (selectWhere (\<lambda>r. c_status r = StatusPending) (tasks s1))"
  have "distinct (map pe_ID es)" using inv1 by (simp add: es_def db_inv_def selectWhere_def o_def distinct_map_filter)
  from rebuildLoop_ok [OF q1(1) _ this, of "sa_waiting e" "sa_now e"] assms(6) obtain q2 where
    q2: "rebuildLoop (sa_waiting e) (sa_now e) es q1 = (Inr (), q2)" "redis_inv q2" "ready q2 = ready q1"
      "\<forall>x \<in> set es. waiting q2 WaitRetry (pe_ID x) = Some (UnixMilli (dueOf (sa_now e) x))" by auto
  have st': "res = Inr ()" "st' = st\<lparr>co_db := s1, co_q := q2\<rparr>"
    using assms(2,5) rc x q2(1) by (auto simp: Start_def RebuildWaitSets_def ListPending_def poolQuery_def q1_def [symmetric] es_def [symmetric])
  have "c_status r \<noteq> StatusRunning" if "r \<in> set (tasks s1)" for r using that by (auto simp: s1 set_updateWhere)
  moreover have "c_id r \<in> set (ready q2 (c_priority r))" if "r \<in> set (tasks s1)" "c_status r = StatusReady" for r
    using q1(2) ts that q2(3) by auto
  moreover have "waiting q2 WaitRetry (c_id r) = Some (UnixMilli (case c_execute_after r of None \<Rightarrow> sa_now e | Some t \<Rightarrow> t))"
    if "r \<in> set (tasks s1)" "c_status r = StatusPending" for r
    using q2(4) that by (force simp: es_def set_selectWhere dueOf_def)
  ultimately show ?thesis using inv1 q2(2) by (simp add: st' core_inv_def)
qed

definition samplePromote :: promoteEnv where
  "samplePromote = \<lparr>po_now = 5000, po_pop = (\<lambda>_. None), po_mark = (\<lambda>_. sampleCall), po_readd = (\<lambda>_. None), po_enqueue = (\<lambda>_. None)\<rparr>"

text \<open>The sample task, waiting until the given instant, in the delay set.\<close>

definition waitingCore :: "time \<Rightarrow> core" where
  "waitingCore due = \<lparr>co_db = sampleDb\<lparr>tasks := map (\<lambda>r. r\<lparr>c_status := StatusPending, c_execute_after := Some due\<rparr>) (tasks sampleDb)\<rparr>,
     co_q = snd (AddWaiting None WaitDelay ''a'' due emptyRedis)\<rparr>"

lemma waitingCore_inv: "core_inv (waitingCore due)"
proof -
  have "db_inv (co_db (waitingCore due))"
    by (simp add: waitingCore_def db_inv_def sampleDb_def emptyDb_def sampleTask_def idem_unique_def row_ok_def
        attempts_numbered_def running_open_def)
  then show ?thesis using redis_inv_steps(1) [OF redis_inv_empty] by (simp add: core_inv_def waitingCore_def)
qed

lemma waitingCore_waiting: "waiting (co_q (waitingCore due)) k x = (if k = WaitDelay \<and> x = ''a'' then Some (UnixMilli due) else None)"
  by (simp add: waitingCore_def AddWaiting_def waiting_def ZADD_def emptyRedis_def)

theorem promotes_due_witness:
  "\<exists>r'. lookupRow c_id ''a'' (tasks (co_db (snd (promoteOnce samplePromote (waitingCore 4000))))) = Some r' \<and> c_status r' = StatusReady"
proof -
  let ?st = "waitingCore 4000"
  have "{x. \<exists>s. waiting (co_q ?st) k x = Some s \<and> s \<le> UnixMilli (po_now samplePromote)} \<subseteq> {''a''}" for k
    by (auto simp: waitingCore_waiting split: if_splits)
  then have "dueCount (co_q ?st) k (po_now samplePromote) \<le> card {''a''}" for k
    unfolding dueCount_def by (intro card_mono) auto
  then have d: "\<forall>k. dueCount (co_q ?st) k (po_now samplePromote) < promoteBatch" by (fastforce simp: promoteBatch_def intro: le_less_trans)
  define r where "r = (taskArgs (sampleTask ''a''))\<lparr>c_status := StatusPending, c_execute_after := Some 4000\<rparr>"
  have l: "lookupRow c_id ''a'' (tasks (co_db ?st)) = Some r" "dueRow (po_now samplePromote) r"
    by (simp_all add: waitingCore_def sampleDb_def sampleTask_def r_def dueRow_def samplePromote_def)
  have w: "waiting (co_q ?st) WaitDelay ''a'' = Some 4" "4 \<le> UnixMilli (po_now samplePromote)"
    by (simp_all add: waitingCore_waiting UnixMilli_def samplePromote_def)
  have f: "\<forall>k x. po_pop samplePromote k = None \<and> k_fault (po_mark samplePromote k) = None \<and> po_enqueue samplePromote x = None"
    by (simp add: samplePromote_def sampleCall_def)
  show ?thesis using promotes_due [OF waitingCore_inv surjective_pairing f d l _ w] by blast
qed

text \<open>
  The two clocks differ in granularity: the waiting set counts in milliseconds, the row in
  microseconds. A pass that runs in the millisecond a task is due in, but before its instant,
  takes the id out of the set without promoting the row, and nothing puts it back.
\<close>

lemma promotion_drops_early_pop:
  "case promoteOnce samplePromote (waitingCore 5900) of
     (res, st') \<Rightarrow> res = (None, 0) \<and> map c_status (tasks (co_db st')) = [StatusPending] \<and>
       map_of (r_zset (co_q st') (waitKey WaitDelay)) ''a'' = None \<and> map_of (r_zset (co_q st') (waitKey WaitRetry)) ''a'' = None"
  by code_simp

definition sampleStart :: startEnv where
  "sampleStart = \<lparr>sa_recover = sampleCall, sa_late = None, sa_audit = sampleCall, sa_enqueue = (\<lambda>_. None), sa_pending = sampleCall,
     sa_now = 100, sa_waiting = (\<lambda>_. None)\<rparr>"

theorem Start_restores_witness:
  "fst (Start sampleStart \<lparr>co_db = runOps [OpBegin sampleCall ''a'' ''w'' 90] sampleDb, co_q = emptyRedis\<rparr>) = Inr () \<and>
   StatusRunning \<notin> c_status `
     set (tasks (co_db (snd (Start sampleStart \<lparr>co_db = runOps [OpBegin sampleCall ''a'' ''w'' 90] sampleDb, co_q = emptyRedis\<rparr>))))"
proof -
  let ?st = "\<lparr>co_db = runOps [OpBegin sampleCall ''a'' ''w'' 90] sampleDb, co_q = emptyRedis\<rparr>"
  have "db_inv (co_db ?st)" using runOps_inv [OF sampleDb_inv, of "[OpBegin sampleCall ''a'' ''w'' 90]"] by (simp add: op_ok_def)
  then have "core_inv ?st" by (simp add: core_inv_def redis_inv_empty)
  moreover have "k_fault (sa_recover sampleStart) = None" "sa_late sampleStart = None" "k_fault (sa_pending sampleStart) = None"
      "\<forall>x. sa_enqueue sampleStart x = None \<and> sa_waiting sampleStart x = None" by (simp_all add: sampleStart_def sampleCall_def)
  ultimately show ?thesis using Start_restores [OF _ surjective_pairing, of ?st sampleStart] by (auto simp: image_iff)
qed

text \<open>
  What a pass of the reaper is written to do, on a server that accepts the statement of \<open>ReclaimExpired\<close>: a pass that
  reports no error returns every running task whose lease ran out, or whose worker is lost or has missed its
  heartbeats, to ready and to the ready queue of its priority, and none of them is left running.
\<close>

lemma reap_recovers:
  assumes "sched_inv b cl" "ReapOnce e cl = Some ((None, n), cl')"
    and "s1 = snd (MarkWorkersOffline (ra_mark e) (ra_now e - ra_ttl e) (co_db (cl_core cl)))"
  shows "sched_inv b cl' \<and> n = length (victims (ra_now e) s1) \<and> victims (ra_now e) (co_db (cl_core cl')) = [] \<and>
    (\<forall>rc \<in> set (victims (ra_now e) s1). t_ID (rc_Task rc) \<in> set (ready (co_q (cl_core cl')) (t_Priority (rc_Task rc))) \<and>
       (\<exists>r. lookupRow c_id (t_ID (rc_Task rc)) (tasks (co_db (cl_core cl'))) = Some r \<and> c_status r = StatusReady)) \<and>
    (\<forall>w \<in> set (workers (co_db (cl_core cl))). w_Status w \<noteq> Offline \<and> w_LastHeartbeat w < ra_now e - ra_ttl e \<longrightarrow>
       map_of (cl_execs cl') (w_ID w) = None)"
proof -
  have inv: "db_inv (co_db (cl_core cl))" "redis_inv (co_q (cl_core cl))" "cluster_fits b cl"
    using assms(1) by (simp_all add: sched_inv_def core_inv_def)
  obtain off where off: "MarkWorkersOffline (ra_mark e) (ra_now e - ra_ttl e) (co_db (cl_core cl)) = (Inr off, s1)"
    using assms(2,3) by (auto simp: ReapOnce_def split: prod.splits sum.splits)
  have ids: "w_ID w \<in> set off" if "w \<in> set (workers (co_db (cl_core cl)))" "w_Status w \<noteq> Offline" "w_LastHeartbeat w < ra_now e - ra_ttl e" for w
    using off that by (auto simp: MarkWorkersOffline_def Let_def poolExec_Inr set_selectWhere)
  have inv1: "db_inv s1" using inv(1) db_inv_cong [of s1 "co_db (cl_core cl)"] assms(3) by simp
  obtain cl1 where nt: "notifyAll off (cl\<lparr>cl_core := (cl_core cl)\<lparr>co_db := s1\<rparr>\<rparr>) = Some cl1"
    using assms(2) off by (auto simp: ReapOnce_def split: option.splits)
  note no = notifyAll_ok [OF nt]
  obtain vs s2 where rc: "ReclaimExpired (ra_accepts e) (ra_reclaim e) (ra_now e) s1 = (Inr vs, s2)"
    using assms(2) off nt by (auto simp: ReapOnce_def split: prod.splits sum.splits)
  note rce = ReclaimExpired_effect [OF inv1 rc]
  obtain q2 where en: "enqueueReclaimed (ra_enqueue e) vs 0 (co_q (cl_core cl1)) = ((None, n), q2)"
    and cl': "cl' = cl1\<lparr>cl_core := \<lparr>co_db = s2, co_q = q2\<rparr>\<rparr>"
    using assms(2) off nt rc by (auto simp: ReapOnce_def split: prod.splits)
  have q1: "redis_inv (co_q (cl_core cl1))" using no inv(2) by simp
  note eq = enqueueReclaimed_ok [OF q1 en]
  have "db_inv s2" using ReclaimExpired_inv [OF inv1, of "ra_accepts e" "ra_reclaim e" "ra_now e"] rc by simp
  then have sched: "sched_inv b cl'" using no inv(3) eq by (simp add: cl' sched_inv_def core_inv_def)
  have row: "\<exists>r. lookupRow c_id (t_ID (rc_Task v)) (tasks s2) = Some r \<and> c_status r = StatusReady" if v: "v \<in> set (victims (ra_now e) s1)" for v
  proof -
    obtain r where r: "r \<in> set (tasks s1)" "c_status r = StatusRunning" "leaseExpired (ra_now e) r \<or> workerLost (workers s1) (c_worker_id r)"
      "rc_Task v = scanTask r" using v by (auto simp: victims_def set_selectWhere)
    have "lookupRow c_id (c_id r) (tasks s1) = Some r" using lookupRow_unique [of c_id "tasks s1" r] inv1 r(1) by (simp add: db_inv_def)
    then show ?thesis using rce r by (auto simp: lookupRow_updateWhere)
  qed
  show ?thesis using sched rce eq row no ids by (auto simp: cl')
qed

definition sampleReap :: reapEnv where
  "sampleReap = \<lparr>ra_now = 100000000, ra_ttl = 10 * Second, ra_mark = sampleCall, ra_accepts = (\<lambda>_. True), ra_reclaim = sampleCall,
     ra_enqueue = (\<lambda>_. None)\<rparr>"

lemma reap_recovers_sample:
  "\<exists>cl'. ReapOnce sampleReap busyCluster = Some ((None, 1), cl') \<and> victims 100000000 (co_db (cl_core cl')) = []"
proof -
  have "map_option fst (ReapOnce sampleReap busyCluster) = Some (None, 1)" by code_simp
  then obtain cl' where r: "ReapOnce sampleReap busyCluster = Some ((None, 1), cl')" by auto
  have "ra_now sampleReap = 100000000" by (simp add: sampleReap_def)
  then show ?thesis using reap_recovers [OF busyCluster_inv r refl] r by simp
qed

text \<open>
  C17: what a pass of the reaper does on Postgres, which rejects an ambiguous column name. It marks offline
  exactly the workers that have missed their heartbeats and drops exactly their executors from the scheduler's registry,
  whatever kind of executor they are. Then the statement of \<open>ReclaimExpired\<close> is rejected: the pass reports an error and
  has returned no task, every task row and every queue is as it was, so the tasks of a lost worker stay
  running under it. When the first step is faulted, nothing changes at all.
\<close>

theorem reap_strands_tasks:
  assumes "\<And>items i. ra_accepts e items \<Longrightarrow> i \<in> set items \<Longrightarrow>
      \<not> (i \<in> set (selectItems taskColumns) \<and> i \<in> set (selectItems workerColumns))"
    and "ReapOnce e cl = Some ((er, n), cl')"
  defines "silent \<equiv> (\<lambda>w. k_fault (ra_mark e) = None \<and> w_Status w \<noteq> Offline \<and> w_LastHeartbeat w < ra_now e - ra_ttl e)"
    and "s \<equiv> co_db (cl_core cl)" and "s' \<equiv> co_db (cl_core cl')"
  shows "er \<noteq> None \<and> n = 0 \<and> tasks s' = tasks s \<and> task_attempts s' = task_attempts s \<and> co_q (cl_core cl') = co_q (cl_core cl) \<and>
    workers s' = updateWhere silent (\<lambda>w. w\<lparr>w_Status := Offline\<rparr>) (workers s) \<and>
    (\<forall>i. map_of (cl_execs cl') i = (if i \<in> w_ID ` {w \<in> set (workers s). silent w} then None else map_of (cl_execs cl) i))"
proof (cases "k_fault (ra_mark e)")
  case (Some f)
  then have "ReapOnce e cl = Some ((Some f, 0), cl)" by (simp add: ReapOnce_def MarkWorkersOffline_def Let_def poolExec_def)
  then show ?thesis using assms(2) Some by (auto simp: silent_def s_def s'_def updateWhere_none)
next
  case None
  let ?P = "\<lambda>w. w_Status w \<noteq> Offline \<and> w_LastHeartbeat w < ra_now e - ra_ttl e"
  define s1 where "s1 = s\<lparr>workers := updateWhere ?P (\<lambda>w. w\<lparr>w_Status := Offline\<rparr>) (workers s)\<rparr>"
  have off: "MarkWorkersOffline (ra_mark e) (ra_now e - ra_ttl e) s = (Inr (map w_ID (selectWhere ?P (workers s))), s1)"
    using None by (simp add: MarkWorkersOffline_def Let_def poolExec_def s1_def)
  obtain cl1 where nt: "notifyAll (map w_ID (selectWhere ?P (workers s))) (cl\<lparr>cl_core := (cl_core cl)\<lparr>co_db := s1\<rparr>\<rparr>) = Some cl1"
    using assms(2) off by (auto simp: ReapOnce_def s_def split: option.splits)
  note no = notifyAll_ok [OF nt]
  obtain f where "ReclaimExpired (ra_accepts e) (ra_reclaim e) (ra_now e) s1 = (Inl f, s1)"
    using reclaim_rejected assms(1) by blast
  then have r: "er = Some f" "n = 0" "cl' = cl1\<lparr>cl_core := (cl_core cl1)\<lparr>co_db := s1\<rparr>\<rparr>"
    using assms(2) off nt by (auto simp: ReapOnce_def s_def)
  have silent: "silent = ?P" using None by (simp add: silent_def fun_eq_iff)
  have "set (map w_ID (selectWhere ?P (workers s))) = w_ID ` {w \<in> set (workers s). ?P w}" by (simp add: set_selectWhere)
  then show ?thesis using r no unfolding silent s'_def by (simp add: s1_def)
qed

definition strictReap :: reapEnv where
  "strictReap = sampleReap\<lparr>ra_accepts := (\<lambda>items. list_all (\<lambda>i. \<not> (i \<in> set (selectItems taskColumns) \<and> i \<in> set (selectItems workerColumns))) items)\<rparr>"

theorem reap_strands_tasks_witness:
  "\<exists>er cl'. ReapOnce strictReap busyCluster = Some ((Some er, 0), cl') \<and>
     tasks (co_db (cl_core cl')) = tasks (co_db (cl_core busyCluster)) \<and> map c_status (tasks (co_db (cl_core cl'))) = [StatusRunning]"
proof -
  have a: "\<not> (i \<in> set (selectItems taskColumns) \<and> i \<in> set (selectItems workerColumns))"
    if "ra_accepts strictReap items" "i \<in> set items" for items i
    using that unfolding strictReap_def list_all_iff by auto
  have "ReapOnce strictReap busyCluster \<noteq> None" by code_simp
  then obtain er n cl' where r: "ReapOnce strictReap busyCluster = Some ((er, n), cl')" by (metis option.exhaust prod.exhaust)
  have "map c_status (tasks (co_db (cl_core busyCluster))) = [StatusRunning]" by code_simp
  then show ?thesis using reap_strands_tasks [OF a r] r by auto
qed

end
