(* ===== verification/Metrics.thy ===== *)
theory Metrics
  imports Store_Workers Queues Complex_Main
begin

text \<open>
  \<open>internal/metrics/collector.go\<close> and \<open>internal/runtime/metrics_adapter.go\<close>: the outcome
  counters, the ring of per-second throughput, the dead-letter history and the snapshot the
  dashboard reads. The two interfaces the collector draws on, \<open>DepthSource\<close> and
  \<open>StatsSource\<close>, are its arguments: the answers their methods give during one snapshot. A
  \<open>float64\<close> ratio is the exact rational. An index out of the ring's range, which panics, is
  \<open>None\<close>.
\<close>

section \<open>Go arithmetic\<close>

text \<open>Integer division and remainder truncate towards zero; the divisors here are positive.\<close>

definition goDiv :: "int \<Rightarrow> int \<Rightarrow> int" where
  "goDiv a n = (if a < 0 then - ((- a) div n) else a div n)"

definition goMod :: "int \<Rightarrow> int \<Rightarrow> int" where
  "goMod a n = a - goDiv a n * n"

definition Truncate :: "time \<Rightarrow> time" where
  "Truncate t = t - t mod Second"

definition Milliseconds :: "duration \<Rightarrow> int" where
  "Milliseconds d = goDiv d 1000"

section \<open>The collector\<close>

record WorkerStat =
  ws_Online :: bool
  ws_TotalSlots :: int
  ws_UsedSlots :: int

record latencyAgg =
  la_sumMS :: int
  la_n :: int

record ringPoint =
  rg_at :: time
  rg_completed :: int
  rg_failed :: int
  rg_latencySumMS :: int
  rg_latencyN :: int

record DLQPoint =
  dl_T :: time
  dl_Count :: int

record Collector =
  mc_startedAt :: time
  mc_completed :: "(Priority, int) amap"
  mc_failed :: "(Priority, int) amap"
  mc_latency :: "(Priority, latencyAgg) amap"
  mc_ringStart :: time
  mc_ring :: "ringPoint list"
  mc_dlqHistory :: "DLQPoint list"

definition zeroPoint :: ringPoint where
  "zeroPoint = \<lparr>rg_at = zeroTime, rg_completed = 0, rg_failed = 0, rg_latencySumMS = 0, rg_latencyN = 0\<rparr>"

definition NewCollector :: "time \<Rightarrow> Collector" where
  "NewCollector now =
     \<lparr>mc_startedAt = Truncate now, mc_completed = [], mc_failed = [], mc_latency = [],
      mc_ringStart = Truncate now, mc_ring = replicate 600 zeroPoint, mc_dlqHistory = []\<rparr>"

text \<open>Reading a missing key of a Go map gives the zero value.\<close>

definition countAt :: "(Priority, int) amap \<Rightarrow> Priority \<Rightarrow> int" where
  "countAt m p = (case map_of m p of None \<Rightarrow> 0 | Some n \<Rightarrow> n)"

definition latencyAt :: "(Priority, latencyAgg) amap \<Rightarrow> Priority \<Rightarrow> latencyAgg" where
  "latencyAt m p = (case map_of m p of None \<Rightarrow> \<lparr>la_sumMS = 0, la_n = 0\<rparr> | Some a \<Rightarrow> a)"

definition ringIdx :: "time \<Rightarrow> Collector \<Rightarrow> int" where
  "ringIdx t c = goMod (goDiv (Truncate t - mc_ringStart c) Second) (int (length (mc_ring c)))"

definition bumpPoint :: "time \<Rightarrow> bool \<Rightarrow> duration \<Rightarrow> ringPoint \<Rightarrow> ringPoint" where
  "bumpPoint now success lat r =
     \<lparr>rg_at = Truncate now,
      rg_completed = rg_completed r + (if success then 1 else 0),
      rg_failed = rg_failed r + (if success then 0 else 1),
      rg_latencySumMS = rg_latencySumMS r + Milliseconds lat,
      rg_latencyN = rg_latencyN r + 1\<rparr>"

definition RecordCompletion :: "time \<Rightarrow> Priority \<Rightarrow> bool \<Rightarrow> duration \<Rightarrow> Collector \<Rightarrow> Collector option" where
  "RecordCompletion now p success lat c =
     (let c1 = (if success then c\<lparr>mc_completed := aput p (countAt (mc_completed c) p + 1) (mc_completed c)\<rparr>
                else c\<lparr>mc_failed := aput p (countAt (mc_failed c) p + 1) (mc_failed c)\<rparr>);
          la = latencyAt (mc_latency c1) p;
          c2 = c1\<lparr>mc_latency := aput p \<lparr>la_sumMS = la_sumMS la + Milliseconds lat, la_n = la_n la + 1\<rparr> (mc_latency c1)\<rparr>;
          i = ringIdx now c2
      in if i < 0 \<or> i \<ge> int (length (mc_ring c2)) then None
         else Some (c2\<lparr>mc_ring := (mc_ring c2)[nat i := bumpPoint now success lat (mc_ring c2 ! nat i)]\<rparr>))"

section \<open>Snapshots\<close>

record ThroughputPoint =
  tp_T :: time
  tp_Completed :: int
  tp_Failed :: int
  tp_AvgLatencyMS :: rat

record PriorityMetric =
  pm_Completed :: int
  pm_Failed :: int
  pm_SuccessRate :: rat
  pm_FailureRate :: rat

record WorkerMetrics =
  wm_Online :: int
  wm_Offline :: int
  wm_TotalSlots :: int
  wm_UsedSlots :: int
  wm_Utilization :: rat

record MetricsSnapshot =
  sn_TakenAt :: time
  sn_QueueDepths :: "(string, int) amap"
  sn_WaitingDelay :: int
  sn_WaitingRetry :: int
  sn_Throughput :: "ThroughputPoint list"
  sn_CompletionsPerSec :: rat
  sn_PriorityStats :: "(string, PriorityMetric) amap"
  sn_AvgLatencyMS :: "(string, rat) amap"
  sn_Workers :: WorkerMetrics
  sn_DLQCount :: int
  sn_DLQGrowth :: "DLQPoint list"

definition countWorker :: "WorkerStat \<Rightarrow> WorkerMetrics \<Rightarrow> WorkerMetrics" where
  "countWorker w m =
     m\<lparr>wm_Online := wm_Online m + (if ws_Online w then 1 else 0),
       wm_Offline := wm_Offline m + (if ws_Online w then 0 else 1),
       wm_TotalSlots := wm_TotalSlots m + ws_TotalSlots w,
       wm_UsedSlots := wm_UsedSlots m + (if ws_Online w then ws_UsedSlots w else 0)\<rparr>"

definition workerMetrics :: "WorkerStat list \<Rightarrow> WorkerMetrics" where
  "workerMetrics wstats =
     (let m = fold countWorker wstats
            \<lparr>wm_Online = 0, wm_Offline = 0, wm_TotalSlots = 0, wm_UsedSlots = 0, wm_Utilization = 0\<rparr>
      in if wm_TotalSlots m > 0
         then m\<lparr>wm_Utilization := of_int (wm_UsedSlots m) / of_int (wm_TotalSlots m)\<rparr> else m)"

definition priorityMetric :: "Collector \<Rightarrow> Priority \<Rightarrow> PriorityMetric" where
  "priorityMetric c p =
     (let ok = countAt (mc_completed c) p; fail = countAt (mc_failed c) p; n = ok + fail in
      \<lparr>pm_Completed = ok, pm_Failed = fail,
       pm_SuccessRate = (if n > 0 then of_int ok / of_int n else 0),
       pm_FailureRate = (if n > 0 then of_int fail / of_int n else 0)\<rparr>)"

definition avgLatency :: "Collector \<Rightarrow> (string, rat) amap" where
  "avgLatency c =
     map (\<lambda>p. (p, of_int (la_sumMS (latencyAt (mc_latency c) p)) / of_int (la_n (latencyAt (mc_latency c) p))))
       (filter (\<lambda>p. la_n (latencyAt (mc_latency c) p) > 0) PriorityOrder)"

definition throughputPoint :: "ringPoint \<Rightarrow> ThroughputPoint" where
  "throughputPoint r =
     \<lparr>tp_T = rg_at r, tp_Completed = rg_completed r, tp_Failed = rg_failed r,
      tp_AvgLatencyMS = (if rg_latencyN r > 0 then of_int (rg_latencySumMS r) / of_int (rg_latencyN r) else 0)\<rparr>"

definition throughput :: "time \<Rightarrow> ringPoint list \<Rightarrow> ThroughputPoint list" where
  "throughput now ring =
     map throughputPoint (filter (\<lambda>r. \<not> IsZero (rg_at r) \<and> \<not> Truncate now - rg_at r > 10 * Minute) ring)"

text \<open>The answers of one snapshot: the sources' and the three readings of the clock.\<close>

record snapshotEnv =
  sq_taken :: time
  sq_depths :: "(Priority \<Rightarrow> int) res"
  sq_waitDelay :: "int res"
  sq_waitRetry :: "int res"
  sq_workers :: "WorkerStat list res"
  sq_dead :: "int res"
  sq_now :: time
  sq_cutoffNow :: time

definition okOr :: "'a \<Rightarrow> 'a res \<Rightarrow> 'a" where
  "okOr d r = (case r of Inl _ \<Rightarrow> d | Inr x \<Rightarrow> x)"

definition collectorSnapshot :: "snapshotEnv \<Rightarrow> Collector \<Rightarrow> MetricsSnapshot res" where
  "collectorSnapshot e c =
     (case sq_depths e of
        Inl er \<Rightarrow> Inl er
      | Inr depths \<Rightarrow>
          (case sq_workers e of
             Inl er \<Rightarrow> Inl er
           | Inr wstats \<Rightarrow>
               let pts = throughput (sq_now e) (mc_ring c) in
               Inr \<lparr>sn_TakenAt = sq_taken e,
                    sn_QueueDepths = map (\<lambda>p. (p, depths p)) PriorityOrder,
                    sn_WaitingDelay = okOr 0 (sq_waitDelay e),
                    sn_WaitingRetry = okOr 0 (sq_waitRetry e),
                    sn_Throughput = pts,
                    sn_CompletionsPerSec =
                      of_int (sum_list (map tp_Completed (filter (\<lambda>t. tp_T t > sq_cutoffNow e - 60 * Second) pts))) / 60,
                    sn_PriorityStats = map (\<lambda>p. (p, priorityMetric c p)) PriorityOrder,
                    sn_AvgLatencyMS = avgLatency c,
                    sn_Workers = workerMetrics wstats,
                    sn_DLQCount = okOr 0 (sq_dead e),
                    sn_DLQGrowth = mc_dlqHistory c\<rparr>))"

definition SampleDLQ :: "int res \<Rightarrow> time \<Rightarrow> Collector \<Rightarrow> Collector" where
  "SampleDLQ deadCount now c =
     (case deadCount of
        Inl _ \<Rightarrow> c
      | Inr n \<Rightarrow>
          let h = mc_dlqHistory c @ [\<lparr>dl_T = now, dl_Count = n\<rparr>]
          in c\<lparr>mc_dlqHistory := (if length h > 720 then drop (length h - 720) h else h)\<rparr>)"

section \<open>The adapter of the runtime\<close>

definition WorkerStats :: "(string \<Rightarrow> bool) \<Rightarrow> call \<Rightarrow> db \<Rightarrow> WorkerStat list res" where
  "WorkerStats accepts c s =
     (case ListWorkers accepts c s of
        Inl e \<Rightarrow> Inl e
      | Inr ws \<Rightarrow> Inr (map (\<lambda>w. \<lparr>ws_Online = (w_Status w = Online \<or> w_Status w = Draining),
                                 ws_TotalSlots = w_TotalSlots w, ws_UsedSlots = w_UsedSlots w\<rparr>) ws))"

definition DeadCount :: "call \<Rightarrow> db \<Rightarrow> int res" where
  "DeadCount c s = (case CountDead c s of Inl e \<Rightarrow> Inl e | Inr n \<Rightarrow> Inr (int n))"

section \<open>What the counters mean\<close>

text \<open>
  The reference: the log of what was reported, each entry with its instant, priority, outcome
  and latency. \<open>inSecond\<close> is the part of the log that falls into one second after the start.
\<close>

record completion =
  cm_at :: time
  cm_prio :: Priority
  cm_ok :: bool
  cm_latency :: duration

fun recordAll :: "completion list \<Rightarrow> Collector \<Rightarrow> Collector option" where
  "recordAll [] c = Some c"
| "recordAll (x # xs) c =
     (case RecordCompletion (cm_at x) (cm_prio x) (cm_ok x) (cm_latency x) c of
        None \<Rightarrow> None
      | Some c' \<Rightarrow> recordAll xs c')"

definition inSecond :: "time \<Rightarrow> nat \<Rightarrow> completion list \<Rightarrow> completion list" where
  "inSecond start k lg = filter (\<lambda>x. (cm_at x - start) div Second = int k) lg"

definition countWhere :: "(completion \<Rightarrow> bool) \<Rightarrow> completion list \<Rightarrow> int" where
  "countWhere P lg = int (length (filter P lg))"

definition sumMS :: "completion list \<Rightarrow> int" where
  "sumMS lg = sum_list (map (\<lambda>x. Milliseconds (cm_latency x)) lg)"

definition tallyPoint :: "time \<Rightarrow> completion list \<Rightarrow> nat \<Rightarrow> ringPoint" where
  "tallyPoint start lg k =
     (let xs = inSecond start k lg in
      \<lparr>rg_at = (if xs = [] then zeroTime else start + int k * Second),
       rg_completed = countWhere cm_ok xs, rg_failed = countWhere (\<lambda>x. \<not> cm_ok x) xs,
       rg_latencySumMS = sumMS xs, rg_latencyN = int (length xs)\<rparr>)"

definition tallies :: "time \<Rightarrow> completion list \<Rightarrow> Collector \<Rightarrow> bool" where
  "tallies start lg c \<longleftrightarrow>
     mc_ringStart c = start \<and> mc_ring c = map (tallyPoint start lg) [0..<600] \<and>
     (\<forall>p. countAt (mc_completed c) p = countWhere (\<lambda>x. cm_prio x = p \<and> cm_ok x) lg) \<and>
     (\<forall>p. countAt (mc_failed c) p = countWhere (\<lambda>x. cm_prio x = p \<and> \<not> cm_ok x) lg) \<and>
     (\<forall>p. latencyAt (mc_latency c) p =
        \<lparr>la_sumMS = sumMS (filter (\<lambda>x. cm_prio x = p) lg), la_n = countWhere (\<lambda>x. cm_prio x = p) lg\<rparr>)"

lemma count_simps [simp]:
  "countWhere P [] = 0" "countWhere P (lg @ [x]) = countWhere P lg + (if P x then 1 else 0)"
  "sumMS [] = 0" "sumMS (lg @ [x]) = sumMS lg + Milliseconds (cm_latency x)"
  by (simp_all add: countWhere_def sumMS_def)

lemma inSecond_simps [simp]:
  "inSecond start k [] = []"
  "inSecond start k (lg @ [x]) = inSecond start k lg @ (if (cm_at x - start) div Second = int k then [x] else [])"
  by (simp_all add: inSecond_def)

lemma countAt_aput [simp]: "countAt (aput p n m) q = (if q = p then n else countAt m q)"
  by (simp add: countAt_def)

lemma latencyAt_aput [simp]: "latencyAt (aput p a m) q = (if q = p then a else latencyAt m q)"
  by (simp add: latencyAt_def)

lemma tallies_New: "tallies (Truncate now) [] (NewCollector now)"
proof -
  have "map (tallyPoint (Truncate now) []) [0..<600] = replicate 600 zeroPoint"
    by (rule nth_equalityI) (simp_all add: tallyPoint_def zeroPoint_def)
  then show ?thesis by (simp add: tallies_def NewCollector_def countAt_def latencyAt_def)
qed

text \<open>Within the first 600 seconds every second has a slot of its own.\<close>

lemma ringIdx_window:
  assumes "start mod Second = 0" "start \<le> t" "t < start + 600 * Second" "mc_ringStart c = start" "length (mc_ring c) = 600"
  shows "ringIdx t c = (t - start) div Second" "0 \<le> (t - start) div Second" "(t - start) div Second < 600"
    "Truncate t = start + (t - start) div Second * Second"
proof -
  obtain s where s: "start = Second * s" using assms(1) by (auto simp: mod_eq_0_iff_dvd dvd_def)
  have "(Second * (- s) + t) div Second = - s + t div Second" by (rule div_mult_self4) simp
  then have t: "(t - start) div Second = t div Second - s" by (simp add: s algebra_simps)
  show k: "0 \<le> (t - start) div Second" "(t - start) div Second < 600" using assms(2,3) by simp_all
  show tr: "Truncate t = start + (t - start) div Second * Second"
    unfolding t using div_mult_mod_eq [of t Second] by (simp add: Truncate_def s algebra_simps)
  have "goDiv (Truncate t - start) Second = (t - start) div Second"
    using tr k(1) by (simp add: goDiv_def)
  then show "ringIdx t c = (t - start) div Second"
    using assms(4,5) k by (simp add: ringIdx_def goMod_def goDiv_def)
qed

lemma RecordCompletion_tallies:
  assumes "start mod Second = 0" "tallies start lg c" "start \<le> cm_at x" "cm_at x < start + 600 * Second"
  shows "\<exists>c'. RecordCompletion (cm_at x) (cm_prio x) (cm_ok x) (cm_latency x) c = Some c' \<and> tallies start (lg @ [x]) c'"
proof -
  define k where "k = nat ((cm_at x - start) div Second)"
  have len: "length (mc_ring c) = 600" "mc_ringStart c = start" using assms(2) by (simp_all add: tallies_def)
  note w = ringIdx_window [OF assms(1,3,4)]
  have k: "int k = (cm_at x - start) div Second" "k < 600" using w(2,3) [OF len(2,1)] by (simp_all add: k_def)
  have "(map (tallyPoint start lg) [0..<600])[k := bumpPoint (cm_at x) (cm_ok x) (cm_latency x) (tallyPoint start lg k)] =
      map (tallyPoint start (lg @ [x])) [0..<600]"
  proof (rule nth_equalityI)
    fix j assume "j < length ((map (tallyPoint start lg) [0..<600])[k := bumpPoint (cm_at x) (cm_ok x) (cm_latency x) (tallyPoint start lg k)])"
    then have j: "j < 600" by simp
    show "(map (tallyPoint start lg) [0..<600])[k := bumpPoint (cm_at x) (cm_ok x) (cm_latency x) (tallyPoint start lg k)] ! j =
        map (tallyPoint start (lg @ [x])) [0..<600] ! j"
    proof (cases "j = k")
      case True
      then show ?thesis using j w(4) [OF len(2,1)] k(1) [symmetric] by (simp add: bumpPoint_def tallyPoint_def Let_def)
    next
      case False
      then have "(cm_at x - start) div Second \<noteq> int j" using k(1) by simp
      with False j show ?thesis by (simp add: tallyPoint_def)
    qed
  qed simp
  moreover have "ringIdx (cm_at x) c' = int k" if "mc_ring c' = mc_ring c" "mc_ringStart c' = mc_ringStart c" for c'
    using w(1) [of c'] that len k(1) by simp
  ultimately show ?thesis using assms(2) k(2) by (auto simp: RecordCompletion_def Let_def tallies_def)
qed

lemma recordAll_tallies:
  assumes "start mod Second = 0"
  shows "\<forall>x \<in> set xs. start \<le> cm_at x \<and> cm_at x < start + 600 * Second \<Longrightarrow> tallies start lg c \<Longrightarrow>
    \<exists>c'. recordAll xs c = Some c' \<and> tallies start (lg @ xs) c'"
proof (induction xs arbitrary: lg c)
  case (Cons x xs)
  from RecordCompletion_tallies [OF assms Cons.prems(2), of x] Cons.prems(1) obtain c1 where
    c1: "RecordCompletion (cm_at x) (cm_prio x) (cm_ok x) (cm_latency x) c = Some c1" "tallies start (lg @ [x]) c1" by auto
  with Cons.IH [OF _ c1(2)] Cons.prems(1) show ?case by simp
qed simp

lemma Truncate_whole: "Truncate now mod Second = 0"
  by (simp add: Truncate_def minus_mod_eq_mult_div)

lemma throughput_tally:
  assumes "start mod Second = 0" "zeroTime < start" "start \<le> now" "now < start + 600 * Second"
  shows "throughput now (map (tallyPoint start lg) [0..<600]) =
    map (\<lambda>k. throughputPoint (tallyPoint start lg k)) (filter (\<lambda>k. inSecond start k lg \<noteq> []) [0..<600])"
proof -
  have "Truncate now < start + 600 * Second" 
    using assms(4) pos_mod_sign [of Second now] by (simp add: Truncate_def)
  then have "(\<not> IsZero (rg_at (tallyPoint start lg k)) \<and> \<not> Truncate now - rg_at (tallyPoint start lg k) > 10 * Minute) \<longleftrightarrow>
      inSecond start k lg \<noteq> []" for k
    using assms(2) by (auto simp: tallyPoint_def Let_def IsZero_def)
  then show ?thesis by (simp add: throughput_def filter_map o_def)
qed

section \<open>The dead-letter history\<close>

definition lastN :: "nat \<Rightarrow> 'a list \<Rightarrow> 'a list" where
  "lastN n xs = drop (length xs - n) xs"

definition samplePoints :: "(int res \<times> time) list \<Rightarrow> DLQPoint list" where
  "samplePoints samples = concat (map (\<lambda>(n, t). case n of Inl _ \<Rightarrow> [] | Inr k \<Rightarrow> [\<lparr>dl_T = t, dl_Count = k\<rparr>]) samples)"

lemma lastN_short: "length xs \<le> n \<Longrightarrow> lastN n xs = xs"
  by (simp add: lastN_def)

lemma length_lastN: "length (lastN n xs) = min n (length xs)"
  by (simp add: lastN_def)

lemma lastN_append: "lastN n (lastN n xs @ ys) = lastN n (xs @ ys)"
  by (cases "length xs \<le> n") (simp_all add: lastN_def drop_append add.commute)

lemma SampleDLQ_history:
  "mc_dlqHistory (fold (\<lambda>(n, t). SampleDLQ n t) samples c) =
    (if samples = [] then mc_dlqHistory c else lastN 720 (mc_dlqHistory c @ samplePoints samples))"
  if "length (mc_dlqHistory c) \<le> 720"
  using that
proof (induction samples arbitrary: c)
  case (Cons x samples)
  obtain n t where x: "x = (n, t)" by fastforce
  have h: "mc_dlqHistory (SampleDLQ n t c) = lastN 720 (mc_dlqHistory c @ samplePoints [x])"
    using Cons.prems by (cases n) (simp_all add: x SampleDLQ_def Let_def samplePoints_def lastN_def)
  then have "length (mc_dlqHistory (SampleDLQ n t c)) \<le> 720" by (simp add: length_lastN)
  from Cons.IH [OF this] show ?case
    using h by (auto simp: x lastN_append samplePoints_def)
qed simp

section \<open>Properties\<close>

text \<open>
  C35: the counters and the throughput are exact in the first 600 seconds of the process.
  Whatever completions are reported in them, in any order, recording does not panic; per
  priority the collector counts the successes, the failures and the total latency of exactly
  those reports; and a throughput taken in those 600 seconds has one point for each second in
  which something completed, with that second's instant, successes, failures and mean latency.
\<close>

theorem throughput_exact:
  assumes "zeroTime < Truncate start" "\<forall>x \<in> set xs. Truncate start \<le> cm_at x \<and> cm_at x < Truncate start + 600 * Second"
    "Truncate start \<le> now" "now < Truncate start + 600 * Second"
  shows "\<exists>c. recordAll xs (NewCollector start) = Some c \<and>
    (\<forall>p. countAt (mc_completed c) p = countWhere (\<lambda>x. cm_prio x = p \<and> cm_ok x) xs \<and>
         countAt (mc_failed c) p = countWhere (\<lambda>x. cm_prio x = p \<and> \<not> cm_ok x) xs \<and>
         la_sumMS (latencyAt (mc_latency c) p) = sumMS (filter (\<lambda>x. cm_prio x = p) xs)) \<and>
    throughput now (mc_ring c) =
      map (\<lambda>k. let ys = inSecond (Truncate start) k xs in
             \<lparr>tp_T = Truncate start + int k * Second, tp_Completed = countWhere cm_ok ys,
              tp_Failed = countWhere (\<lambda>x. \<not> cm_ok x) ys,
              tp_AvgLatencyMS = of_int (sumMS ys) / of_int (int (length ys))\<rparr>)
        (filter (\<lambda>k. inSecond (Truncate start) k xs \<noteq> []) [0..<600])"
proof -
  from recordAll_tallies [OF Truncate_whole assms(2) tallies_New] obtain c where
    c: "recordAll xs (NewCollector start) = Some c" "tallies (Truncate start) xs c" by auto
  have "throughputPoint (tallyPoint (Truncate start) xs k) =
      (let ys = inSecond (Truncate start) k xs in
         \<lparr>tp_T = Truncate start + int k * Second, tp_Completed = countWhere cm_ok ys,
          tp_Failed = countWhere (\<lambda>x. \<not> cm_ok x) ys, tp_AvgLatencyMS = of_int (sumMS ys) / of_int (int (length ys))\<rparr>)"
    if "inSecond (Truncate start) k xs \<noteq> []" for k
    using that by (simp add: throughputPoint_def tallyPoint_def Let_def)
  with throughput_tally [OF Truncate_whole assms(1,3,4), of xs] c show ?thesis
    by (auto simp: tallies_def)
qed

definition sampleCompletion :: "time \<Rightarrow> bool \<Rightarrow> completion" where
  "sampleCompletion t ok = \<lparr>cm_at = t, cm_prio = PriorityHigh, cm_ok = ok, cm_latency = 20000\<rparr>"

theorem throughput_exact_witness:
  "\<exists>c. recordAll [sampleCompletion 7000000 True, sampleCompletion 7500000 False] (NewCollector 5300000) = Some c \<and>
     countAt (mc_completed c) PriorityHigh = 1 \<and> countAt (mc_failed c) PriorityHigh = 1"
proof -
  have "zeroTime < Truncate 5300000" "Truncate 5300000 = 5000000" by (simp_all add: zeroTime_def Truncate_def)
  then show ?thesis
    using throughput_exact [of 5300000 "[sampleCompletion 7000000 True, sampleCompletion 7500000 False]" 8000000]
    by (auto simp: sampleCompletion_def countWhere_def)
qed

text \<open>
  The bound is sharp: a slot is not cleared when its second comes round again 600 seconds
  later, so the point of the later second also counts what completed in the earlier one.
\<close>

lemma ring_slot_reused:
  "\<exists>c. recordAll [sampleCompletion 0 True, sampleCompletion (600 * Second) True] (NewCollector 0) = Some c \<and>
     rg_at (mc_ring c ! 0) = 600 * Second \<and> rg_completed (mc_ring c ! 0) = 2"
  by (simp add: RecordCompletion_def Let_def NewCollector_def ringIdx_def goMod_def goDiv_def Truncate_def sampleCompletion_def
      bumpPoint_def zeroPoint_def)

text \<open>
  The dead-letter history is a window. After any sequence of samples from the start of the
  collector it holds the last 720 counts that could be read, in order; a sample whose count
  failed leaves no point.
\<close>

lemma dlq_history_window:
  "mc_dlqHistory (fold (\<lambda>(n, t). SampleDLQ n t) samples (NewCollector start)) = lastN 720 (samplePoints samples)"
  using SampleDLQ_history [of "NewCollector start" samples]
  by (simp add: NewCollector_def samplePoints_def lastN_def)

end
