(* ===== verification/Api.thy ===== *)
theory Api
  imports Background Metrics Config
begin

text \<open>
  \<open>internal/api\<close>: the HTTP handlers over the whole server, one definition per handler, and the
  \<open>metricReporter\<close> of \<open>internal/runtime\<close>. A handler's answer is a status code and a body. What
  the web framework makes of a request (the parsed body, or the error of parsing it, and the
  query strings) is an argument, as are the faults and clocks of the store and queue calls it
  makes. \<open>None\<close> is a panic. A value of type \<open>any\<close> in a request is told apart as far as
  \<open>jsonMarshal\<close> does; for the values it gives to \<open>json.Marshal\<close> the result of that call is
  carried along.
\<close>

section \<open>The server\<close>

record server =
  sv_cl :: cluster
  sv_mx :: Collector

definition svDb :: "server \<Rightarrow> db" where
  "svDb sv = co_db (cl_core (sv_cl sv))"

definition svQ :: "server \<Rightarrow> RedisQueue" where
  "svQ sv = co_q (cl_core (sv_cl sv))"

definition putCore :: "core \<Rightarrow> server \<Rightarrow> server" where
  "putCore st sv = sv\<lparr>sv_cl := (sv_cl sv)\<lparr>cl_core := st\<rparr>\<rparr>"

definition putDb :: "db \<Rightarrow> server \<Rightarrow> server" where
  "putDb s sv = putCore ((cl_core (sv_cl sv))\<lparr>co_db := s\<rparr>) sv"

definition putQ :: "RedisQueue \<Rightarrow> server \<Rightarrow> server" where
  "putQ q sv = putCore ((cl_core (sv_cl sv))\<lparr>co_q := q\<rparr>) sv"

definition putMgr :: "ExternalManager \<Rightarrow> server \<Rightarrow> server" where
  "putMgr m sv = sv\<lparr>sv_cl := (sv_cl sv)\<lparr>cl_mgr := m\<rparr>\<rparr>"

section \<open>Requests\<close>

datatype anyValue = AnyNil | AnyBytes string | AnyRaw string | AnyString string | AnyOther "string res"

fun jsonMarshal :: "anyValue \<Rightarrow> string res" where
  "jsonMarshal AnyNil = Inr ''{}''"
| "jsonMarshal (AnyBytes x) = Inr x"
| "jsonMarshal (AnyRaw x) = Inr x"
| "jsonMarshal (AnyString x) = Inr x"
| "jsonMarshal (AnyOther r) = r"

record retryPolicyReq =
  rq_Kind :: RetryKind
  rq_BaseInterval :: int
  rq_MaxRetries :: int
  rq_CronExpression :: string

record submitTaskRequest =
  st_Type :: string
  st_Payload :: anyValue
  st_Priority :: Priority
  st_IdempotencyKey :: string
  st_MaxRetries :: int
  st_TimeoutSeconds :: int
  st_DelaySeconds :: int
  st_CallbackURL :: string
  st_RetryPolicy :: "retryPolicyReq option"

definition zeroPolicy :: RetryPolicy where
  "zeroPolicy = \<lparr>rp_Kind = '''', rp_BaseInterval = 0, rp_MaxRetries = 0, rp_CronExpression = ''''\<rparr>"

definition policyOf :: "retryPolicyReq \<Rightarrow> RetryPolicy" where
  "policyOf r = \<lparr>rp_Kind = rq_Kind r, rp_BaseInterval = rq_BaseInterval r, rp_MaxRetries = rq_MaxRetries r,
     rp_CronExpression = rq_CronExpression r\<rparr>"

text \<open>
  The delay in seconds becomes a \<open>time.Duration\<close>, a 64-bit number of nanoseconds; the product
  wraps around.
\<close>

definition delayOf :: "int \<Rightarrow> duration" where
  "delayOf secs = wrap64 (secs * 1000000000) div 1000"

definition toInput :: "time \<Rightarrow> submitTaskRequest \<Rightarrow> SubmitInput res" where
  "toInput now r =
     (case jsonMarshal (st_Payload r) of
        Inl e \<Rightarrow> Inl e
      | Inr payload \<Rightarrow>
          Inr \<lparr>si_Type = st_Type r, si_Payload = payload, si_Priority = st_Priority r,
               si_IDempotencyKey = st_IdempotencyKey r, si_MaxRetries = st_MaxRetries r,
               si_TimeoutSeconds = st_TimeoutSeconds r,
               si_RetryPolicy = (case st_RetryPolicy r of None \<Rightarrow> zeroPolicy | Some p \<Rightarrow> policyOf p),
               si_CallbackURL = st_CallbackURL r,
               si_ExecuteAfter = (if st_DelaySeconds r > 0 then Some (now + delayOf (st_DelaySeconds r)) else None)\<rparr>)"

record dagNodeReq =
  nr_ID :: string
  nr_Type :: string
  nr_Payload :: anyValue
  nr_Priority :: Priority
  nr_TimeoutSecs :: int
  nr_MaxRetries :: int
  nr_RetryPolicy :: "retryPolicyReq option"
  nr_CallbackURL :: string
  nr_Dependencies :: "string list"

record submitDAGRequest =
  sd_Name :: string
  sd_FailurePolicy :: string
  sd_Nodes :: "dagNodeReq list"

definition toNodeDef :: "dagNodeReq \<Rightarrow> string \<Rightarrow> DAGNodeDef" where
  "toNodeDef n payload =
     \<lparr>nd_ID = nr_ID n, nd_Type = nr_Type n, nd_Payload = payload,
      nd_Priority = (if nr_Priority n = '''' then PriorityNormal else nr_Priority n),
      nd_TimeoutSecs = (if nr_TimeoutSecs n \<le> 0 then 60 else nr_TimeoutSecs n),
      nd_MaxRetries = nr_MaxRetries n,
      nd_RetryPolicy = (case nr_RetryPolicy n of
          Some p \<Rightarrow> policyOf p
        | None \<Rightarrow> \<lparr>rp_Kind = RetryExponential, rp_BaseInterval = 5, rp_MaxRetries = nr_MaxRetries n, rp_CronExpression = ''''\<rparr>),
      nd_CallbackURL = nr_CallbackURL n, nd_Dependencies = nr_Dependencies n\<rparr>"

fun toNodeDefs :: "dagNodeReq list \<Rightarrow> DAGNodeDef list \<Rightarrow> DAGNodeDef list res" where
  "toNodeDefs [] acc = Inr acc"
| "toNodeDefs (n # ns) acc =
     (case jsonMarshal (nr_Payload n) of Inl e \<Rightarrow> Inl e | Inr payload \<Rightarrow> toNodeDefs ns (acc @ [toNodeDef n payload]))"

definition toDef :: "submitDAGRequest \<Rightarrow> DAGDef res" where
  "toDef r =
     (case toNodeDefs (sd_Nodes r) [] of
        Inl e \<Rightarrow> Inl e
      | Inr ns \<Rightarrow> Inr \<lparr>dd_Name = sd_Name r,
                       dd_FailurePolicy = (if sd_FailurePolicy r = '''' then DAGAbort else sd_FailurePolicy r),
                       dd_Nodes = ns\<rparr>)"

fun splitLoop :: "string \<Rightarrow> string \<Rightarrow> string list \<Rightarrow> string list" where
  "splitLoop cur [] out = (if cur \<noteq> '''' then out @ [cur] else out)"
| "splitLoop cur (r # s) out =
     (if r = CHR '','' then splitLoop '''' s (if cur \<noteq> '''' then out @ [cur] else out)
      else splitLoop (cur @ [r]) s out)"

definition splitCSV :: "string \<Rightarrow> string list" where
  "splitCSV s = splitLoop '''' s []"

definition atoiDefault :: "string \<Rightarrow> int \<Rightarrow> int" where
  "atoiDefault s def = (if s = '''' then def else (case Atoi s of None \<Rightarrow> def | Some n \<Rightarrow> n))"

section \<open>Views\<close>

record taskView =
  tv_ID :: string
  tv_Type :: string
  tv_Priority :: string
  tv_Status :: string
  tv_Attempts :: int
  tv_MaxRetries :: int
  tv_TimeoutSeconds :: int
  tv_Payload :: string
  tv_CallbackURL :: string
  tv_WorkerID :: string
  tv_LastError :: string
  tv_ErrorCategory :: string
  tv_DAGID :: string
  tv_DAGNodeID :: string
  tv_CreatedAt :: time
  tv_UpdatedAt :: time
  tv_StartedAt :: "time option"
  tv_FinishedAt :: "time option"

definition toTaskView :: "Task \<Rightarrow> taskView" where
  "toTaskView t =
     \<lparr>tv_ID = t_ID t, tv_Type = t_Type t, tv_Priority = t_Priority t, tv_Status = statusStr (t_Status t),
      tv_Attempts = t_Attempts t, tv_MaxRetries = t_MaxRetries t, tv_TimeoutSeconds = t_TimeoutSeconds t,
      tv_Payload = (if t_Payload t = '''' then ''{}'' else t_Payload t), tv_CallbackURL = t_CallbackURL t,
      tv_WorkerID = t_WorkerID t, tv_LastError = t_LastError t, tv_ErrorCategory = t_ErrCategory t,
      tv_DAGID = t_DAGID t, tv_DAGNodeID = t_DAGNodeID t, tv_CreatedAt = t_CreatedAt t, tv_UpdatedAt = t_UpdatedAt t,
      tv_StartedAt = t_StartedAt t, tv_FinishedAt = t_FinishedAt t\<rparr>"

record attemptView =
  av_AttemptNo :: int
  av_WorkerID :: string
  av_StartedAt :: time
  av_EndedAt :: "time option"
  av_Status :: AttemptStatus
  av_Error :: string
  av_ErrorCategory :: string

definition toAttemptViews :: "Attempt list \<Rightarrow> attemptView list" where
  "toAttemptViews as =
     map (\<lambda>a. \<lparr>av_AttemptNo = a_AttemptNo a, av_WorkerID = a_WorkerID a, av_StartedAt = a_StartedAt a,
               av_EndedAt = a_EndedAt a, av_Status = a_Status a, av_Error = a_Error a, av_ErrorCategory = a_ErrCategory a\<rparr>) as"

record deadTaskView =
  dv_Task :: taskView
  dv_Attempts :: "attemptView list"
  dv_DeadAt :: string

record workerView =
  wv_ID :: string
  wv_Name :: string
  wv_Capabilities :: "string list"
  wv_TotalSlots :: int
  wv_UsedSlots :: int
  wv_Status :: string
  wv_Online :: bool
  wv_LastHeartbeat :: time
  wv_CurrentTasks :: "string list"
  wv_Completed :: int
  wv_Failed :: int

definition toWorkerView :: "Worker \<Rightarrow> workerView" where
  "toWorkerView w =
     \<lparr>wv_ID = w_ID w, wv_Name = w_Name w, wv_Capabilities = w_Capabilities w, wv_TotalSlots = w_TotalSlots w,
      wv_UsedSlots = w_UsedSlots w, wv_Status = workerStatusStr (w_Status w),
      wv_Online = (w_Status w = Online \<or> w_Status w = Draining), wv_LastHeartbeat = w_LastHeartbeat w,
      wv_CurrentTasks = w_CurrentTaskIDs w, wv_Completed = w_Completed w, wv_Failed = w_Failed w\<rparr>"

record dagSummaryView =
  ds_id :: string
  ds_name :: string
  ds_failurePolicy :: string
  ds_status :: string
  ds_createdAt :: time
  ds_finishedAt :: "time option"
  ds_nodeCount :: nat

definition dagSummary :: "DAG \<Rightarrow> dagSummaryView" where
  "dagSummary d =
     \<lparr>ds_id = d_ID d, ds_name = d_Name d, ds_failurePolicy = d_FailurePolicy d, ds_status = dagStatusStr (d_Status d),
      ds_createdAt = d_CreatedAt d, ds_finishedAt = d_FinishedAt d, ds_nodeCount = length (dd_Nodes (d_Def d))\<rparr>"

text \<open>The bodies; \<open>BError\<close> carries an error whose text is sent, \<open>BMessage\<close> a text of the code.\<close>

datatype apiBody =
    BError err
  | BMessage string
  | BNothing
  | BOk
  | BTask taskView bool
  | BTasks "taskView list" nat int int
  | BTimeline taskView "attemptView list" "AuditEntry list"
  | BDead "deadTaskView list" nat
  | BAggregates "(string \<times> nat) list"
  | BCount nat
  | BWorkers "workerView list"
  | BWorker workerView "taskView list"
  | BDraining string
  | BValid "string list list"
  | BInvalid err
  | BCycle "string list" err
  | BDagCreated string string
  | BDags "dagSummaryView list"
  | BDag dagSummaryView "string list list" "GraphNode list"
  | BMetrics MetricsSnapshot
  | BAudit "AuditEntry list"
  | BRegistered string

type_synonym response = "int \<times> apiBody"

section \<open>Tasks\<close>

definition submitTask :: "submitEnv \<Rightarrow> time \<Rightarrow> submitTaskRequest res \<Rightarrow> server \<Rightarrow> response \<times> server" where
  "submitTask e now body sv =
     (case body of
        Inl er \<Rightarrow> ((400, BError er), sv)
      | Inr req \<Rightarrow>
          (case toInput now req of
             Inl er \<Rightarrow> ((400, BError er), sv)
           | Inr inp \<Rightarrow>
               (case Submit e inp (cl_core (sv_cl sv)) of
                  (Inl er, st) \<Rightarrow> ((400, BError er), putCore st sv)
                | (Inr (t, duplicated), st) \<Rightarrow>
                    ((if duplicated then 200 else 201, BTask (toTaskView t) duplicated), putCore st sv))))"

text \<open>The query of \<open>GET /api/tasks\<close>; the two instants as \<open>time.Parse\<close> gives them.\<close>

record listQuery =
  lq_priority :: string
  lq_type :: string
  lq_dagID :: string
  lq_status :: string
  lq_from :: "time option"
  lq_to :: "time option"
  lq_limit :: string
  lq_offset :: string

definition taskFilterOf :: "listQuery \<Rightarrow> TaskFilter" where
  "taskFilterOf q =
     \<lparr>f_Statuses = (if lq_status q \<noteq> '''' then splitCSV (lq_status q) else []), f_Priority = lq_priority q,
      f_Type = lq_type q, f_DAGID = lq_dagID q, f_From = lq_from q, f_To = lq_to q,
      f_Limit = atoiDefault (lq_limit q) 100, f_Offset = atoiDefault (lq_offset q) 0\<rparr>"

definition listTasks :: "call \<Rightarrow> listQuery \<Rightarrow> server \<Rightarrow> response" where
  "listTasks c q sv =
     (let f = taskFilterOf q in
      case ListTasks c f (svDb sv) of
        Inl er \<Rightarrow> (500, BError er)
      | Inr (ts, tot) \<Rightarrow> (200, BTasks (map toTaskView ts) tot (f_Limit f) (f_Offset f)))"

definition getTask :: "call \<Rightarrow> string \<Rightarrow> server \<Rightarrow> response" where
  "getTask c tid sv =
     (case GetTask c tid (svDb sv) of
        Inl er \<Rightarrow> (500, BError er)
      | Inr None \<Rightarrow> (404, BMessage ''task not found'')
      | Inr (Some t) \<Rightarrow> (200, BTask (toTaskView t) False))"

definition taskTimeline :: "call \<Rightarrow> call \<Rightarrow> call \<Rightarrow> string \<Rightarrow> server \<Rightarrow> response" where
  "taskTimeline c c' c'' tid sv =
     (case GetTask c tid (svDb sv) of
        Inl er \<Rightarrow> (500, BError er)
      | Inr None \<Rightarrow> (404, BMessage ''task not found'')
      | Inr (Some t) \<Rightarrow>
          (case Attempts c' tid (svDb sv) of
             Inl er \<Rightarrow> (500, BError er)
           | Inr as \<Rightarrow>
               (200, BTimeline (toTaskView t) (toAttemptViews as) (okOr [] (ListAudit c'' ''task'' tid 200 (svDb sv))))))"

record cancelEnv =
  ce_get :: call
  ce_cancel :: call
  ce_delay :: "err option"
  ce_retry :: "err option"
  ce_get2 :: call

text \<open>The view of a task that could not be read again dereferences a nil pointer.\<close>

definition cancelTask :: "cancelEnv \<Rightarrow> string \<Rightarrow> server \<Rightarrow> (response \<times> server) option" where
  "cancelTask e tid sv =
     (case GetTask (ce_get e) tid (svDb sv) of
        Inl er \<Rightarrow> Some ((500, BError er), sv)
      | Inr None \<Rightarrow> Some ((404, BMessage ''task not found''), sv)
      | Inr (Some t) \<Rightarrow>
          (case CancelTask (ce_cancel e) tid (svDb sv) of
             (Inl er, s1) \<Rightarrow> Some ((409, BError er), putDb s1 sv)
           | (Inr _, s1) \<Rightarrow>
               let sv1 = putDb s1 sv;
                   sv2 = putQ (snd (RemoveWaitingKind (ce_delay e) ''delay'' tid (svQ sv1))) sv1;
                   sv3 = putQ (snd (RemoveWaitingKind (ce_retry e) ''retry'' tid (svQ sv2))) sv2
               in (case GetTask (ce_get2 e) tid (svDb sv3) of
                     Inr (Some t2) \<Rightarrow> Some ((200, BTask (toTaskView t2) False), sv3)
                   | _ \<Rightarrow> None)))"

section \<open>Dead letters\<close>

definition listDead :: "call \<Rightarrow> string \<Rightarrow> string \<Rightarrow> server \<Rightarrow> response" where
  "listDead c limit offset sv =
     (case ListDead c (atoiDefault limit 100) (atoiDefault offset 0) (svDb sv) of
        Inl er \<Rightarrow> (500, BError er)
      | Inr (dead, tot) \<Rightarrow>
          (200, BDead (map (\<lambda>d. \<lparr>dv_Task = toTaskView (dl_Task d), dv_Attempts = toAttemptViews (dl_Attempts d),
                               dv_DeadAt = formatRFC3339 (dl_DeadAt d)\<rparr>) dead) tot))"

definition aggregateDead :: "call \<Rightarrow> server \<Rightarrow> response" where
  "aggregateDead c sv =
     (case AggregateDead c (svDb sv) of Inl er \<Rightarrow> (500, BError er) | Inr rows \<Rightarrow> (200, BAggregates rows))"

definition retryDead :: "bool \<Rightarrow> call \<Rightarrow> (string \<Rightarrow> err option) \<Rightarrow> string list res \<Rightarrow> server \<Rightarrow> response \<times> server" where
  "retryDead busy c f body sv =
     (case body of
        Inl er \<Rightarrow> ((400, BMessage ''invalid body''), sv)
      | Inr ids \<Rightarrow>
          if ids = [] then ((400, BMessage ''ids required''), sv)
          else (case RetryDead busy c ids (svDb sv) of
                  (Inl er, s1) \<Rightarrow> ((500, BError er), putDb s1 sv)
                | (Inr (moved, n), s1) \<Rightarrow>
                    ((200, BCount n),
                     putQ (fold (\<lambda>t q. snd (Enqueue (f (t_ID t)) (t_Priority t) (t_ID t) q)) moved (svQ sv)) (putDb s1 sv))))"

definition discardDead :: "call \<Rightarrow> string list res \<Rightarrow> server \<Rightarrow> response \<times> server" where
  "discardDead c body sv =
     (case body of
        Inl er \<Rightarrow> ((400, BMessage ''invalid body''), sv)
      | Inr ids \<Rightarrow>
          (case DiscardDead c ids (svDb sv) of
             (Inl er, s1) \<Rightarrow> ((500, BError er), putDb s1 sv)
           | (Inr n, s1) \<Rightarrow> ((200, BCount n), putDb s1 sv)))"

section \<open>Workers\<close>

definition listWorkers :: "(string \<Rightarrow> bool) \<Rightarrow> call \<Rightarrow> server \<Rightarrow> response" where
  "listWorkers accepts c sv =
     (case ListWorkers accepts c (svDb sv) of
        Inl er \<Rightarrow> (500, BError er)
      | Inr ws \<Rightarrow> (200, BWorkers (map toWorkerView ws)))"

text \<open>\<open>GetWorker\<close> reports a missing row as an error, never as a nil worker.\<close>

definition getWorker :: "(string \<Rightarrow> bool) \<Rightarrow> call \<Rightarrow> (string \<Rightarrow> call) \<Rightarrow> string \<Rightarrow> server \<Rightarrow> response" where
  "getWorker accepts c ct wid sv =
     (case GetWorker accepts c wid (svDb sv) of
        Inl er \<Rightarrow> (500, BError er)
      | Inr w \<Rightarrow>
          (200, BWorker (toWorkerView w)
             (concat (map (\<lambda>tid. case GetTask (ct tid) tid (svDb sv) of Inr (Some t) \<Rightarrow> [toTaskView t] | _ \<Rightarrow> [])
                (w_CurrentTaskIDs w)))))"

definition drainWorker :: "call \<Rightarrow> string \<Rightarrow> server \<Rightarrow> response \<times> server" where
  "drainWorker c wid sv =
     (case MarkWorkerDraining c wid (svDb sv) of
        (Inl er, s1) \<Rightarrow> ((500, BError er), putDb s1 sv)
      | (Inr _, s1) \<Rightarrow> ((200, BDraining wid), putDb s1 sv))"

section \<open>DAGs\<close>

definition validateDAG :: "submitDAGRequest res \<Rightarrow> response" where
  "validateDAG body =
     (case body of
        Inl er \<Rightarrow> (400, BError er)
      | Inr req \<Rightarrow>
          (case toDef req of
             Inl er \<Rightarrow> (400, BError er)
           | Inr def \<Rightarrow>
               (case Validate def of
                  Inl (CycleError cyc) \<Rightarrow> (422, BCycle cyc (CycleError cyc))
                | Inl er \<Rightarrow> (400, BInvalid er)
                | Inr layers \<Rightarrow> (200, BValid layers))))"

definition submitDAG :: "dagEnv \<Rightarrow> submitDAGRequest res \<Rightarrow> server \<Rightarrow> response \<times> server" where
  "submitDAG e body sv =
     (case body of
        Inl er \<Rightarrow> ((400, BError er), sv)
      | Inr req \<Rightarrow>
          (case toDef req of
             Inl er \<Rightarrow> ((400, BError er), sv)
           | Inr def \<Rightarrow>
               (case SubmitDAG e def (cl_core (sv_cl sv)) of
                  (Inl (CycleError cyc), st) \<Rightarrow> ((422, BCycle cyc (CycleError cyc)), putCore st sv)
                | (Inl er, st) \<Rightarrow> ((400, BError er), putCore st sv)
                | (Inr d, st) \<Rightarrow> ((201, BDagCreated (d_ID d) (dagStatusStr (d_Status d))), putCore st sv))))"

definition listDAGs :: "call \<Rightarrow> string \<Rightarrow> server \<Rightarrow> response" where
  "listDAGs c limit sv =
     (case ListDAGs c (atoiDefault limit 50) (svDb sv) of
        Inl er \<Rightarrow> (500, BError er)
      | Inr ds \<Rightarrow> (200, BDags (map dagSummary ds)))"

definition getDAG :: "call \<Rightarrow> call \<Rightarrow> string \<Rightarrow> server \<Rightarrow> response" where
  "getDAG c c' did sv =
     (case GetDAG c did (svDb sv) of
        Inl er \<Rightarrow> (500, BError er)
      | Inr None \<Rightarrow> (404, BMessage ''dag not found'')
      | Inr (Some d) \<Rightarrow>
          (case ListDAGNodes c' did (svDb sv) of
             Inl er \<Rightarrow> (500, BError er)
           | Inr nodes \<Rightarrow>
               (case BuildGraph d nodes of
                  Inl er \<Rightarrow> (500, BError er)
                | Inr g \<Rightarrow> (200, BDag (dagSummary d) (gv_Layers g) (gv_Nodes g)))))"

section \<open>Metrics and audit\<close>

record metricsEnv =
  me_depths :: "err option"
  me_waitDelay :: "err option"
  me_waitRetry :: "err option"
  me_workers :: call
  me_dead :: call
  me_taken :: time
  me_now :: time
  me_cutoffNow :: time

definition metricsOf :: "(string \<Rightarrow> bool) \<Rightarrow> metricsEnv \<Rightarrow> server \<Rightarrow> MetricsSnapshot res" where
  "metricsOf accepts e sv =
     collectorSnapshot
       \<lparr>sq_taken = me_taken e, sq_depths = AllDepths (me_depths e) (svQ sv),
        sq_waitDelay = WaitingDepth (me_waitDelay e) WaitDelay (svQ sv),
        sq_waitRetry = WaitingDepth (me_waitRetry e) WaitRetry (svQ sv),
        sq_workers = WorkerStats accepts (me_workers e) (svDb sv), sq_dead = DeadCount (me_dead e) (svDb sv),
        sq_now = me_now e, sq_cutoffNow = me_cutoffNow e\<rparr> (sv_mx sv)"

definition metricsHandler :: "(string \<Rightarrow> bool) \<Rightarrow> metricsEnv \<Rightarrow> server \<Rightarrow> response" where
  "metricsHandler accepts e sv =
     (case metricsOf accepts e sv of Inl er \<Rightarrow> (500, BError er) | Inr snap \<Rightarrow> (200, BMetrics snap))"

definition listAudit :: "call \<Rightarrow> string \<Rightarrow> string \<Rightarrow> string \<Rightarrow> server \<Rightarrow> response" where
  "listAudit c entity entityID limit sv =
     (case ListAudit c entity entityID (atoiDefault limit 200) (svDb sv) of
        Inl er \<Rightarrow> (500, BError er)
      | Inr entries \<Rightarrow> (200, BAudit entries))"

section \<open>The external worker protocol\<close>

record registerWorkerReq =
  rw_WorkerID :: string
  rw_Name :: string
  rw_Capabilities :: "string list"
  rw_Slots :: int

text \<open>A successful registration runs \<open>OnRegister\<close>, which adds the worker to the scheduler.\<close>

definition registerExternalWorker :: "call \<Rightarrow> registerWorkerReq res \<Rightarrow> server \<Rightarrow> response \<times> server" where
  "registerExternalWorker c body sv =
     (case body of
        Inl er \<Rightarrow> ((400, BMessage ''invalid body''), sv)
      | Inr req \<Rightarrow>
          if rw_WorkerID req = '''' then ((400, BMessage ''worker_id required''), sv)
          else
            let slots = (if rw_Slots req \<le> 0 then 1 else rw_Slots req);
                caps = (if rw_Capabilities req = [] then [''*''] else rw_Capabilities req)
            in (case Register c (rw_WorkerID req) (rw_Name req) caps slots (cl_mgr (sv_cl sv)) (svDb sv) of
                  (Inl er, m, s1) \<Rightarrow> ((500, BError er), putDb s1 (putMgr m sv))
                | (Inr w, m, s1) \<Rightarrow>
                    ((201, BRegistered (ew_id w)),
                     (putDb s1 (putMgr m sv))\<lparr>sv_cl := AddExecutor (ew_id w) EExt (sv_cl (putDb s1 (putMgr m sv)))\<rparr>)))"

text \<open>A heartbeat of the manager, on the server.\<close>

definition beat :: "call \<Rightarrow> call \<Rightarrow> string \<Rightarrow> string list \<Rightarrow> server \<Rightarrow> unit res \<times> server" where
  "beat c c' wid ids sv =
     (case extHeartbeat c c' wid ids (cl_mgr (sv_cl sv)) (svDb sv) of
        (r, m, s1) \<Rightarrow> (r, putDb s1 (putMgr m sv)))"

definition externalHeartbeat :: "call \<Rightarrow> call \<Rightarrow> (string \<times> string list) res \<Rightarrow> server \<Rightarrow> response \<times> server" where
  "externalHeartbeat c c' body sv =
     (case body of
        Inl er \<Rightarrow> ((400, BMessage ''invalid body''), sv)
      | Inr (wid, ids) \<Rightarrow>
          (case beat c c' wid ids sv of
             (Inl er, sv1) \<Rightarrow> ((404, BError er), sv1)
           | (Inr _, sv1) \<Rightarrow> ((200, BOk), sv1)))"

text \<open>
  The test for nil on the value of \<open>Get\<close> fails for a missing worker too; the poll then
  dereferences a nil pointer.
\<close>

definition claimTask :: "call \<Rightarrow> call \<Rightarrow> string \<Rightarrow> server \<Rightarrow> (response \<times> server) option" where
  "claimTask c c' wid sv =
     (case Get wid (cl_mgr (sv_cl sv)) of
        None \<Rightarrow> Some ((404, BMessage ''worker not registered''), sv)
      | Some None \<Rightarrow> None
      | Some (Some w) \<Rightarrow>
          (case PollClaim w of
             (None, w1) \<Rightarrow> Some ((204, BNothing), sv\<lparr>sv_cl := putExt wid w1 (sv_cl sv)\<rparr>)
           | (Some t, w1) \<Rightarrow>
               let sv1 = sv\<lparr>sv_cl := putExt wid w1 (sv_cl sv)\<rparr>;
                   sv2 = putMgr (TaskStarted wid t (cl_mgr (sv_cl sv1))) sv1;
                   sv3 = snd (beat c c' wid (SnapshotIDs wid (cl_mgr (sv_cl sv2))) sv2)
               in Some ((200, BTask (toTaskView t) False), sv3)))"

record completeReq =
  cq_TaskID :: string
  cq_Success :: bool
  cq_Error :: string
  cq_Category :: string
  cq_Result :: string

record completeEnv =
  cc_get :: call
  cc_report :: reportEnv
  cc_hook :: hook
  cc_stats :: call
  cc_beat :: call
  cc_beat2 :: call

definition completeTask :: "completeEnv \<Rightarrow> string \<Rightarrow> completeReq res \<Rightarrow> server \<Rightarrow> (response \<times> server) option" where
  "completeTask e wid body sv =
     (case body of
        Inl er \<Rightarrow> Some ((400, BMessage ''invalid body''), sv)
      | Inr req \<Rightarrow>
          (case GetTask (cc_get e) (cq_TaskID req) (svDb sv) of
             Inl er \<Rightarrow> Some ((500, BError er), sv)
           | Inr None \<Rightarrow> Some ((404, BMessage ''task not found''), sv)
           | Inr (Some t) \<Rightarrow>
               (case ReportResult (cc_hook e) (cc_report e) (t\<lparr>t_WorkerID := wid\<rparr>) (cq_Success req) (cq_Result req)
                       (cq_Error req) (cq_Category req) (cl_core (sv_cl sv)) of
                  None \<Rightarrow> None
                | Some (posts, st) \<Rightarrow>
                    let sv1 = putCore st sv;
                        sv2 = sv1\<lparr>sv_cl := (sv_cl sv1)\<lparr>cl_posts := cl_posts (sv_cl sv1) @ posts\<rparr>\<rparr>;
                        sv3 = putMgr (TaskFinished wid (cq_TaskID req) (cl_mgr (sv_cl sv2))) sv2
                    in (case Get wid (cl_mgr (sv_cl sv3)) of
                          Some None \<Rightarrow> None
                        | w \<Rightarrow>
                            let sv4 = (case w of
                                         Some (Some x) \<Rightarrow> sv3\<lparr>sv_cl := putExt wid (extReleaseSlot (cq_TaskID req) x) (sv_cl sv3)\<rparr>
                                       | _ \<Rightarrow> sv3);
                                sv5 = putDb (snd (IncWorkerStats (cc_stats e) wid (cq_Success req) (\<not> cq_Success req) (svDb sv4))) sv4;
                                sv6 = snd (beat (cc_beat e) (cc_beat2 e) wid (SnapshotIDs wid (cl_mgr (sv_cl sv5))) sv5)
                            in Some ((200, BOk), sv6)))))"

section \<open>The reporter of the in-process worker\<close>

record metricReportEnv =
  mr_report :: reportEnv
  mr_hook :: hook
  mr_start :: time
  mr_end :: time
  mr_now :: time

definition metricReport :: "metricReportEnv \<Rightarrow> Task \<Rightarrow> runReport \<Rightarrow> server \<Rightarrow> server option" where
  "metricReport e t r sv =
     (case ReportResult (mr_hook e) (mr_report e) t (rr_success r) (rr_result r) (rr_error r) (rr_category r) (cl_core (sv_cl sv)) of
        None \<Rightarrow> None
      | Some (posts, st) \<Rightarrow>
          let sv1 = putCore st sv;
              sv2 = sv1\<lparr>sv_cl := (sv_cl sv1)\<lparr>cl_posts := cl_posts (sv_cl sv1) @ posts\<rparr>\<rparr>;
              lat = (case t_StartedAt t of None \<Rightarrow> mr_end e - mr_start e | Some s \<Rightarrow> mr_end e - s)
          in map_option (\<lambda>mx. sv2\<lparr>sv_mx := mx\<rparr>) (RecordCompletion (mr_now e) (t_Priority t) (rr_success r) lat (sv_mx sv2)))"

text \<open>
  The end of a run on the in-process worker registered under \<open>eid\<close>: the report first, then the
  slot is released. A worker that has left the registry in the meantime still reports.
\<close>

definition runEnds :: "metricReportEnv \<Rightarrow> HandlerOut \<Rightarrow> bool \<Rightarrow> string \<Rightarrow> Task \<Rightarrow> PoolWorker \<Rightarrow> server \<Rightarrow> server option" where
  "runEnds e h deadlineExceeded eid t w sv =
     (case runOneEnd h deadlineExceeded t w of
        (rep, w') \<Rightarrow>
          map_option (\<lambda>sv1. if map_of (cl_execs (sv_cl sv)) eid = Some (EPool w) then sv1\<lparr>sv_cl := putPool eid w' (sv_cl sv1)\<rparr> else sv1)
            (case rep of None \<Rightarrow> Some sv | Some r \<Rightarrow> metricReport e t r sv))"

section \<open>Properties\<close>

lemma splitLoop_eq: "splitLoop cur s out = out @ filter (\<lambda>w. w \<noteq> []) (case splitChar (CHR '','') s of w # ws \<Rightarrow> (cur @ w) # ws)"
  by (induction cur s out rule: splitLoop.induct) (auto split: list.splits)

text \<open>Splitting at commas, against \<open>strings.Split\<close>: the same pieces, without the empty ones.\<close>

lemma splitCSV_eq: "splitCSV s = filter (\<lambda>w. w \<noteq> []) (splitChar (CHR '','') s)"
  using splitChar_nonempty [of "CHR '',''" s] by (auto simp: splitCSV_def splitLoop_eq split: list.splits)

text \<open>A delay of more than 292 years wraps around: the task runs at once instead of never.\<close>

lemma delay_wraps: "delayOf 10000000000 < 0"
  by (simp add: delayOf_def wrap64_def)

lemma canceled_not_leased:
  assumes "distinct (map c_id (tasks s))" "lookupRow c_id tid (tasks s) = Some r" "c_status r \<noteq> StatusReady"
  shows "\<exists>er. BeginAttempt c tid w l s = (Inl er, s)"
proof -
  have "selectWhere (\<lambda>r. c_id r = tid \<and> c_status r = StatusReady) (tasks s) = []"
    using selectWhere_key [OF assms(1), of tid "\<lambda>r. c_status r = StatusReady"] assms(2,3) by simp
  then show ?thesis by (simp add: BeginAttempt_def withTx_def split: option.splits)
qed

lemma putDb_same: "putDb (svDb sv) sv = sv"
  by (simp add: putDb_def putCore_def svDb_def)

lemma waiting_ZREM: "waiting (ZREM (waitKey k) [tid] q) k' x = (if k' = k \<and> x = tid then None else waiting q k' x)"
  by (simp add: waiting_def ZREM_def)

text \<open>
  C33: cancelling over HTTP, when no call fails. An unknown id is answered with 404 and a finished
  task with 409, and nothing changes. Any other task is canceled, whatever it was doing: the
  answer shows the canceled task, it waits in neither set any more, and no worker is granted a
  lease on it.
\<close>

theorem cancelTask_correct:
  assumes "db_inv (svDb sv)" "k_fault (ce_get e) = None" "k_fault (ce_cancel e) = None" "k_fault (ce_get2 e) = None"
    "ce_delay e = None" "ce_retry e = None"
  shows "case lookupRow c_id tid (tasks (svDb sv)) of
      None \<Rightarrow> cancelTask e tid sv = Some ((404, BMessage ''task not found''), sv)
    | Some r \<Rightarrow>
        if TerminalStatuses (c_status r) then cancelTask e tid sv = Some ((409, BError ErrConflict), sv)
        else \<exists>sv' r'. cancelTask e tid sv = Some ((200, BTask (toTaskView (scanTask r')) False), sv') \<and>
          lookupRow c_id tid (tasks (svDb sv')) = Some r' \<and> c_status r' = StatusCanceled \<and>
          waiting (svQ sv') WaitDelay tid = None \<and> waiting (svQ sv') WaitRetry tid = None \<and>
          (\<forall>c w l. \<exists>er. BeginAttempt c tid w l (svDb sv') = (Inl er, svDb sv'))"
proof (cases "lookupRow c_id tid (tasks (svDb sv))")
  case None
  then show ?thesis using assms(2) by (simp add: cancelTask_def GetTask_def poolQuery_def)
next
  case (Some r)
  show ?thesis
  proof (cases "TerminalStatuses (c_status r)")
    case True
    then show ?thesis using Some assms(2,3)
      by (simp add: cancelTask_def GetTask_def poolQuery_def CancelTask_def withTx_def putDb_same)
  next
    case False
    define s1 where "s1 = snd (CancelTask (ce_cancel e) tid (svDb sv))"
    define r' where "r' = cancelRow (k_dbnow (ce_cancel e)) r"
    define q1 where "q1 = ZREM (waitKey ''retry'') [tid] (ZREM (waitKey ''delay'') [tid] (svQ sv))"
    define sv' where "sv' = putQ q1 (putDb s1 sv)"
    have c: "CancelTask (ce_cancel e) tid (svDb sv) = (Inr (), s1)"
      using Some False assms(3) by (simp add: s1_def CancelTask_def withTx_def)
    have t: "tasks s1 = updateWhere (\<lambda>r. c_id r = tid) (cancelRow (k_dbnow (ce_cancel e))) (tasks (svDb sv))"
      using Some False assms(3) by (simp add: s1_def CancelTask_def withTx_def)
    have r': "lookupRow c_id tid (tasks s1) = Some r'" "c_status r' = StatusCanceled"
      using Some lookupRow_Some [OF Some] by (simp_all add: t r'_def lookupRow_updateWhere cancelRow_def)
    have d: "distinct (map c_id (tasks s1))"
      using assms(1) by (simp add: t db_inv_def map_key_updateWhere cancelRow_def)
    have "svDb sv' = s1" "svQ sv' = q1" by (simp_all add: sv'_def putQ_def putDb_def putCore_def svDb_def svQ_def)
    moreover have "cancelTask e tid sv = Some ((200, BTask (toTaskView (scanTask r')) False), sv')"
      using Some r'(1) assms(2,4-6) c
      by (simp add: cancelTask_def GetTask_def poolQuery_def RemoveWaitingKind_def sv'_def q1_def putQ_def putDb_def putCore_def svDb_def svQ_def)
    ultimately show ?thesis using Some False r' canceled_not_leased [OF d r'(1)] by (auto simp: q1_def waiting_ZREM)
  qed
qed

definition sampleServer :: server where
  "sampleServer = \<lparr>sv_cl = NewScheduler \<lparr>co_db = sampleDb, co_q = emptyRedis\<rparr> 0 5, sv_mx = NewCollector 0\<rparr>"

definition sampleCancel :: cancelEnv where
  "sampleCancel = \<lparr>ce_get = sampleCall, ce_cancel = sampleCall, ce_delay = None, ce_retry = None, ce_get2 = sampleCall\<rparr>"

theorem cancelTask_correct_witness:
  "\<exists>sv' r'. cancelTask sampleCancel ''a'' sampleServer = Some ((200, BTask (toTaskView (scanTask r')) False), sv') \<and>
     c_status r' = StatusCanceled"
proof -
  have db: "svDb sampleServer = sampleDb" by (simp add: sampleServer_def svDb_def NewScheduler_def)
  have r: "lookupRow c_id ''a'' (tasks sampleDb) = Some (taskArgs (sampleTask ''a''))" "\<not> TerminalStatuses (c_status (taskArgs (sampleTask ''a'')))"
    by (simp_all add: sampleDb_def sampleTask_def TerminalStatuses_def)
  show ?thesis using cancelTask_correct [of sampleServer sampleCancel "''a''"] r
    by (simp add: db sampleDb_inv sampleCancel_def sampleCall_def) blast
qed

text \<open>
  C40: the endpoints that look at workers are out of order. With a server that parses no text
  beginning with a word that is not a command, listing workers, fetching one and the metrics
  all answer 500, whatever the state, because the queries on workers lack their \<open>SELECT\<close>.
\<close>

theorem worker_endpoints_fail:
  assumes "\<And>q. accepts q \<Longrightarrow> firstWord q \<noteq> '''' \<Longrightarrow> firstWord q \<in> set sqlCommands"
  shows "fst (listWorkers accepts c sv) = 500 \<and> fst (getWorker accepts c ct wid sv) = 500 \<and> fst (metricsHandler accepts e sv) = 500"
proof -
  have l: "\<exists>er. ListWorkers accepts c s = Inl er" "\<exists>er. GetWorker accepts c w s = Inl er" for c w s
    using worker_queries_fail [of accepts c s w] assms by blast+
  obtain er where "ListWorkers accepts (me_workers e) (svDb sv) = Inl er" using l(1) by blast
  then have "\<exists>er. metricsOf accepts e sv = Inl er"
    by (simp add: metricsOf_def collectorSnapshot_def WorkerStats_def split: sum.split)
  then show ?thesis using l(1) [of c "svDb sv"] l(2) [of c wid "svDb sv"]
    by (auto simp: listWorkers_def getWorker_def metricsHandler_def)
qed

theorem worker_endpoints_fail_witness:
  "fst (listWorkers (\<lambda>q. firstWord q \<in> set sqlCommands) sampleCall sampleServer) = 500"
  using worker_endpoints_fail [of "\<lambda>q. firstWord q \<in> set sqlCommands" sampleCall sampleServer] by blast

end
