(* ===== verification/Startup.thy ===== *)
theory Startup
  imports Store_Base
begin

text \<open>
  Connecting to the store and applying its migrations, \<open>New\<close> and \<open>Migrate\<close> of
  \<open>internal/storage/postgres.go\<close>. The answers of the driver (opening the pool, each ping), the end
  of the context during a wait, the directory listing and the contents of the files are arguments;
  what a script does to the database is the parameter \<open>exec\<close>. The lemmas show when the store is
  reached and that exactly the scripts of the directory run, in name order, up to the first
  that fails.
\<close>

section \<open>Waiting for the server\<close>

datatype ConnectErr = ParseDSN err | PoolErr err | ContextDone err | Unreachable "err option"

text \<open>
  The loop of \<open>New\<close>: \<open>n\<close> rounds are left, the next one is number \<open>i\<close>. \<open>ping i\<close> is the error of
  the ping, \<open>ctxDone i\<close> that of a context that ends during the wait after it.
\<close>

primrec pingLoop :: "(nat \<Rightarrow> err option) \<Rightarrow> (nat \<Rightarrow> err option) \<Rightarrow> nat \<Rightarrow> nat \<Rightarrow> err option \<Rightarrow> ConnectErr option" where
  "pingLoop ping ctxDone 0 i lastErr = Some (Unreachable lastErr)"
| "pingLoop ping ctxDone (Suc n) i lastErr =
     (case ping i of
        None \<Rightarrow> None
      | Some e \<Rightarrow> (case ctxDone i of Some d \<Rightarrow> Some (ContextDone d) | None \<Rightarrow> pingLoop ping ctxDone n (Suc i) (Some e)))"

definition New :: "err option \<Rightarrow> err option \<Rightarrow> (nat \<Rightarrow> err option) \<Rightarrow> (nat \<Rightarrow> err option) \<Rightarrow> ConnectErr option" where
  "New parseErr poolErr ping ctxDone =
     (case parseErr of
        Some e \<Rightarrow> Some (ParseDSN e)
      | None \<Rightarrow> (case poolErr of Some e \<Rightarrow> Some (PoolErr e) | None \<Rightarrow> pingLoop ping ctxDone 60 0 None))"

lemma pingLoop_None:
  "pingLoop ping ctxDone n i e = None \<longleftrightarrow> (\<exists>k < n. ping (i + k) = None \<and> (\<forall>j < k. ctxDone (i + j) = None))"
proof (induction n arbitrary: i e)
  case (Suc n)
  show ?case
  proof (cases "ping i")
    case None
    then show ?thesis by (auto intro!: exI [of _ 0])
  next
    case (Some er)
    have "(\<exists>k < Suc n. ping (i + k) = None \<and> (\<forall>j < k. ctxDone (i + j) = None)) \<longleftrightarrow>
        ctxDone i = None \<and> (\<exists>k < n. ping (Suc i + k) = None \<and> (\<forall>j < k. ctxDone (Suc i + j) = None))"
      using Some by (subst Ex_less_Suc2) (auto simp: All_less_Suc2)
    then show ?thesis using Some Suc.IH [of "Suc i" "Some er"] by (auto split: option.splits)
  qed
qed simp

lemma New_reaches:
  "New None None ping ctxDone = None \<longleftrightarrow> (\<exists>k < 60. ping k = None \<and> (\<forall>j < k. ctxDone j = None))"
  by (simp add: New_def pingLoop_None)

section \<open>Migrations\<close>

text \<open>\<open>filepath.Ext\<close>: from the end to the last dot, unless a separator comes first.\<close>

fun extScan :: "string \<Rightarrow> string \<Rightarrow> string" where
  "extScan [] suf = ''''"
| "extScan (c # cs) suf = (if c = CHR ''/'' then '''' else if c = CHR ''.'' then c # suf else extScan cs (c # suf))"

definition Ext :: "string \<Rightarrow> string" where
  "Ext path = extScan (rev path) ''''"

datatype MigrateErr = ReadDir err | ReadFile err | Apply string err

primrec applyAll :: "(string \<Rightarrow> err + string) \<Rightarrow> (string \<Rightarrow> 's \<Rightarrow> err option \<times> 's) \<Rightarrow> string list \<Rightarrow> 's \<Rightarrow> MigrateErr option \<times> 's" where
  "applyAll readFile exec [] s = (None, s)"
| "applyAll readFile exec (name # names) s =
     (case readFile name of
        Inl e \<Rightarrow> (Some (ReadFile e), s)
      | Inr sql \<Rightarrow> (case exec sql s of (Some e, s1) \<Rightarrow> (Some (Apply name e), s1) | (None, s1) \<Rightarrow> applyAll readFile exec names s1))"

definition Migrate :: "err + string list \<Rightarrow> (string \<Rightarrow> err + string) \<Rightarrow> (string \<Rightarrow> 's \<Rightarrow> err option \<times> 's) \<Rightarrow> 's \<Rightarrow> MigrateErr option \<times> 's" where
  "Migrate readDir readFile exec s =
     (case readDir of
        Inl e \<Rightarrow> (Some (ReadDir e), s)
      | Inr entries \<Rightarrow> applyAll readFile exec (sort (filter (\<lambda>n. Ext n = ''.sql'') entries)) s)"

text \<open>
  The part of \<open>Build\<close> that precedes the assembly: connect, then migrate. The wait for Redis that
  follows sends up to thirty pings and goes on whatever they answer, so it has no effect here.
\<close>

datatype PrepareErr = ConnectFailed ConnectErr | MigrateFailed MigrateErr

definition prepare :: "ConnectErr option \<Rightarrow> err + string list \<Rightarrow> (string \<Rightarrow> err + string) \<Rightarrow> (string \<Rightarrow> 's \<Rightarrow> err option \<times> 's) \<Rightarrow> 's
    \<Rightarrow> PrepareErr option \<times> 's" where
  "prepare connected readDir readFile exec s =
     (case connected of
        Some e \<Rightarrow> (Some (ConnectFailed e), s)
      | None \<Rightarrow> (case Migrate readDir readFile exec s of (Some e, s1) \<Rightarrow> (Some (MigrateFailed e), s1) | (None, s1) \<Rightarrow> (None, s1)))"

lemma extScan_suffix: "extScan cs suf = '''' \<or> suffix (extScan cs suf) (rev cs @ suf)"
proof (induction cs arbitrary: suf)
  case (Cons c cs)
  then show ?case using Cons.IH [of "c # suf"] by (auto simp: suffix_def)
qed simp

text \<open>The test of \<open>Migrate\<close> picks the names that end in \<open>.sql\<close>.\<close>

lemma Ext_sql: "Ext name = ''.sql'' \<longleftrightarrow> suffix ''.sql'' name"
  using extScan_suffix [of "rev name" "''''"] by (auto simp: Ext_def suffix_def)

text \<open>
  A migration runs scripts of the directory in name order, from the first one on and each once;
  it succeeds exactly when it has run them all and none has failed. The scripts that ran are read
  off a database that logs them.
\<close>

lemma applyAll_log:
  "applyAll readFile (\<lambda>sql log. (f sql, log @ [sql])) names log0 = (r, log1) \<Longrightarrow>
    \<exists>k applied. k \<le> length names \<and> log1 = log0 @ applied \<and> map Inr applied = map readFile (take k names) \<and>
      (r = None \<longleftrightarrow> k = length names \<and> (\<forall>sql \<in> set applied. f sql = None))"
proof (induction names arbitrary: log0)
  case (Cons name names)
  show ?case
  proof (cases "readFile name")
    case (Inl e)
    then show ?thesis using Cons.prems by (auto intro!: exI [of _ 0])
  next
    case (Inr sql)
    show ?thesis
    proof (cases "f sql")
      case None
      then obtain k applied where "k \<le> length names" "log1 = (log0 @ [sql]) @ applied" "map Inr applied = map readFile (take k names)"
          "r = None \<longleftrightarrow> k = length names \<and> (\<forall>sql \<in> set applied. f sql = None)"
        using Cons.IH [of "log0 @ [sql]"] Cons.prems Inr by auto
      then show ?thesis using None Inr by (intro exI [of _ "Suc k"] exI [of _ "sql # applied"]) simp
    next
      case (Some e)
      then show ?thesis using Cons.prems Inr by (intro exI [of _ 1] exI [of _ "[sql]"]) auto
    qed
  qed
qed auto

lemma Migrate_in_order:
  assumes "Migrate (Inr entries) readFile (\<lambda>sql log. (f sql, log @ [sql])) [] = (r, applied)"
  defines "scripts \<equiv> sort (filter (\<lambda>n. suffix ''.sql'' n) entries)"
  shows "\<exists>k \<le> length scripts. map Inr applied = map readFile (take k scripts) \<and>
    (r = None \<longleftrightarrow> k = length scripts \<and> (\<forall>sql \<in> set applied. f sql = None))"
  using applyAll_log [of readFile f scripts "[]" r applied] assms(1) by (auto simp: Migrate_def Ext_sql scripts_def)

lemma applyAll_iff:
  "fst (applyAll readFile (\<lambda>sql log. (f sql, log @ [sql])) names log0) = None \<longleftrightarrow>
     (\<forall>name \<in> set names. \<exists>sql. readFile name = Inr sql \<and> f sql = None)"
  by (induction names arbitrary: log0) (auto split: sum.splits option.splits)

text \<open>
  C30: what has to hold before the server is assembled. The start gets past connecting and migrating exactly
  when the configuration is accepted, one of the first 60 pings is answered with the context alive
  until then, and every script in the directory (the names that end in \<open>.sql\<close>) can be read and runs without an
  error. The scripts run in name order, each once; those that ran are an initial part of that order, and all of
  them when the start gets past.
\<close>

theorem prepare_correct:
  defines "scripts \<equiv> \<lambda>entries. sort (filter (\<lambda>n. suffix ''.sql'' n) entries)"
  shows "\<exists>res applied. prepare (New parseErr poolErr ping ctxDone) (Inr entries) readFile (\<lambda>sql log. (f sql, log @ [sql])) [] = (res, applied) \<and>
    (\<exists>k \<le> length (scripts entries). map Inr applied = map readFile (take k (scripts entries)) \<and> (res = None \<longrightarrow> k = length (scripts entries))) \<and>
    (res = None \<longleftrightarrow> parseErr = None \<and> poolErr = None \<and> (\<exists>k < 60. ping k = None \<and> (\<forall>j < k. ctxDone j = None)) \<and>
       (\<forall>name \<in> set (scripts entries). \<exists>sql. readFile name = Inr sql \<and> f sql = None))"
proof -
  have new: "New parseErr poolErr ping ctxDone = None \<longleftrightarrow> parseErr = None \<and> poolErr = None \<and> (\<exists>k < 60. ping k = None \<and> (\<forall>j < k. ctxDone j = None))"
    by (auto simp: New_def pingLoop_None split: option.splits)
  obtain r applied where m: "Migrate (Inr entries) readFile (\<lambda>sql log. (f sql, log @ [sql])) [] = (r, applied)" by fastforce
  have iff: "r = None \<longleftrightarrow> (\<forall>name \<in> set (scripts entries). \<exists>sql. readFile name = Inr sql \<and> f sql = None)"
    using m applyAll_iff [of readFile f "scripts entries" "[]"] by (simp add: Migrate_def Ext_sql scripts_def)
  show ?thesis
  proof (cases "New parseErr poolErr ping ctxDone")
    case None
    then show ?thesis using Migrate_in_order [OF m] m new iff unfolding scripts_def
      by (cases r) (auto simp: prepare_def)
  next
    case (Some er)
    then show ?thesis using new by (auto simp: prepare_def intro!: exI [of _ 0])
  qed
qed

theorem prepare_correct_witness:
  "prepare (New None None (\<lambda>i. if i = 2 then None else Some ErrConflict) (\<lambda>_. None)) (Inr [''002_b.sql'', ''readme.md'', ''001_a.sql''])
     (\<lambda>name. Inr name) (\<lambda>sql log. (None, log @ [sql])) [] = (None, [''001_a.sql'', ''002_b.sql''])"
proof -
  let ?ping = "\<lambda>i :: nat. if i = 2 then None else Some ErrConflict"
  have s: "sort (filter (\<lambda>n. suffix ''.sql'' n) [''002_b.sql'', ''readme.md'', ''001_a.sql'']) = [''001_a.sql'', ''002_b.sql'']"
    by code_simp
  have p: "\<exists>k < 60. ?ping k = None \<and> (\<forall>j < k. (\<lambda>_. None) j = None)" by (intro exI [of _ 2]) simp
  show ?thesis
    using prepare_correct [of None None ?ping "\<lambda>_. None" "[''002_b.sql'', ''readme.md'', ''001_a.sql'']" "\<lambda>name. Inr name" "\<lambda>_. None"] p
    unfolding s by auto
qed

end
