(* ===== verification/Fake_Store.thy ===== *)
theory Fake_Store
  imports Metrics
begin

text \<open>
  \<open>internal/testutil/fakestore.go\<close>: the in-memory store that stands in for Postgres in the tests of
  the scheduling and fault-tolerance code. Its state is a handful of Go maps; every method locks
  the store, so each is one atomic operation. A pointer kept in a map is the value it points to, and
  writing through it is \<open>amod\<close>. The clock a method reads is an argument; \<open>time.Now()\<close> gives the same
  instant throughout one call. The methods never report a driver error. Fields that no method uses
  (\<open>Audit\<close>, \<open>nextAttempt\<close>) are left out, and so is the creation time of an audit entry.
\<close>

section \<open>State\<close>

record FakeStore =
  fs_Tasks :: "(string, Task) amap"
  fs_Idem :: "(string, string) amap"
  fs_attemptRows :: "(string, Attempt list) amap"
  fs_Workers :: "(string, Worker) amap"
  fs_DAGs :: "(string, DAG) amap"
  fs_Nodes :: "(string, (string, DAGNode) amap) amap"
  fs_auditRows :: "AuditEntry list"

definition NewFakeStore :: FakeStore where
  "NewFakeStore = \<lparr>fs_Tasks = [], fs_Idem = [], fs_attemptRows = [], fs_Workers = [], fs_DAGs = [], fs_Nodes = [],
     fs_auditRows = []\<rparr>"

text \<open>Writing through the pointer stored under a key, if there is one.\<close>

definition amod :: "'k \<Rightarrow> ('v \<Rightarrow> 'v) \<Rightarrow> ('k, 'v) amap \<Rightarrow> ('k, 'v) amap" where
  "amod k f m = (case map_of m k of None \<Rightarrow> m | Some v \<Rightarrow> aput k (f v) m)"

lemma map_of_amod [amap_simps, simp]: "map_of (amod k f m) = (map_of m)(k := map_option f (map_of m k))"
  by (auto simp: amod_def fun_eq_iff split: option.splits)

lemma keys_amod [amap_simps, simp]: "map fst (amod k f m) = map fst m"
proof -
  have "map_of m k = Some v \<Longrightarrow> map fst (aput k w m) = map fst m" for v w
    by (induction m) (auto split: if_splits)
  then show ?thesis by (auto simp: amod_def split: option.splits)
qed

definition fakeRecord :: "string \<Rightarrow> string \<Rightarrow> string \<Rightarrow> string \<Rightarrow> string \<Rightarrow> string \<Rightarrow> string \<Rightarrow> FakeStore \<Rightarrow> FakeStore" where
  "fakeRecord entity entityID action from to actor detail s =
     s\<lparr>fs_auditRows := fs_auditRows s @
        [\<lparr>au_Entity = entity, au_EntityID = entityID, au_Action = action, au_From = from, au_To = to,
          au_Actor = actor, au_Detail = detail\<rparr>]\<rparr>"

lemma fakeRecord_sel [simp]:
  "fs_Tasks (fakeRecord a b c d e f g s) = fs_Tasks s" "fs_Idem (fakeRecord a b c d e f g s) = fs_Idem s"
  "fs_Workers (fakeRecord a b c d e f g s) = fs_Workers s" "fs_attemptRows (fakeRecord a b c d e f g s) = fs_attemptRows s"
  "fs_DAGs (fakeRecord a b c d e f g s) = fs_DAGs s" "fs_Nodes (fakeRecord a b c d e f g s) = fs_Nodes s"
  by (simp_all add: fakeRecord_def)

section \<open>Tasks\<close>

text \<open>The idempotency key is taken before the id is checked, and stays taken when that fails.\<close>

definition fakeCreateTask :: "time \<Rightarrow> Task \<Rightarrow> FakeStore \<Rightarrow> Task res \<times> FakeStore" where
  "fakeCreateTask now t s =
     (if t_IDempotencyKey t \<noteq> '''' \<and> map_of (fs_Idem s) (t_IDempotencyKey t) \<noteq> None then (Inl ErrConflict, s)
      else
        let s1 = (if t_IDempotencyKey t \<noteq> '''' then s\<lparr>fs_Idem := aput (t_IDempotencyKey t) (t_ID t) (fs_Idem s)\<rparr> else s) in
        if map_of (fs_Tasks s1) (t_ID t) \<noteq> None then (Inl ErrConflict, s1)
        else
          let t1 = (if IsZero (t_CreatedAt t) then t\<lparr>t_CreatedAt := now\<rparr> else t);
              t2 = t1\<lparr>t_UpdatedAt := t_CreatedAt t1\<rparr>
          in (Inr t2, fakeRecord ''task'' (t_ID t) ''created'' '''' (statusStr (t_Status t)) ''api'' (t_Type t)
                        (s1\<lparr>fs_Tasks := aput (t_ID t) t2 (fs_Tasks s1)\<rparr>)))"

definition fakeGetTask :: "string \<Rightarrow> FakeStore \<Rightarrow> Task option" where
  "fakeGetTask tid s = map_of (fs_Tasks s) tid"

text \<open>A key whose task is missing makes \<open>clone\<close> dereference nil: \<open>None\<close>.\<close>

definition fakeGetTaskByIdem :: "string \<Rightarrow> FakeStore \<Rightarrow> Task option option" where
  "fakeGetTaskByIdem key s =
     (case map_of (fs_Idem s) key of
        None \<Rightarrow> Some None
      | Some i \<Rightarrow> (case map_of (fs_Tasks s) i of None \<Rightarrow> None | Some t \<Rightarrow> Some (Some t)))"

section \<open>Compare-and-swap transitions\<close>

definition fakeLease :: "time \<Rightarrow> string \<Rightarrow> time \<Rightarrow> Task \<Rightarrow> Task" where
  "fakeLease now workerID lease t =
     t\<lparr>t_Status := StatusRunning, t_WorkerID := workerID, t_LeaseExpiresAt := Some lease, t_Attempts := t_Attempts t + 1,
       t_StartedAt := (case t_StartedAt t of None \<Rightarrow> Some now | Some x \<Rightarrow> Some x), t_UpdatedAt := now\<rparr>"

definition fakeBeginAttempt :: "time \<Rightarrow> string \<Rightarrow> string \<Rightarrow> time \<Rightarrow> FakeStore \<Rightarrow> Task res \<times> FakeStore" where
  "fakeBeginAttempt now taskID workerID lease s =
     (case map_of (fs_Tasks s) taskID of
        None \<Rightarrow> (Inl ErrConflict, s)
      | Some t \<Rightarrow>
          if t_Status t \<noteq> StatusReady then (Inl ErrConflict, s)
          else
            let t' = fakeLease now workerID lease t;
                rows = (case map_of (fs_attemptRows s) taskID of None \<Rightarrow> [] | Some as \<Rightarrow> as)
            in (Inr t', fakeRecord ''task'' taskID ''leased'' ''ready'' ''running'' workerID ''''
                  (s\<lparr>fs_Tasks := aput taskID t' (fs_Tasks s),
                     fs_attemptRows := aput taskID (rows @ [newAttempt taskID (t_Attempts t') workerID now]) (fs_attemptRows s)\<rparr>)))"

definition fakeRenewLease :: "string \<Rightarrow> string \<Rightarrow> time \<Rightarrow> FakeStore \<Rightarrow> bool \<times> FakeStore" where
  "fakeRenewLease taskID workerID expiry s =
     (case map_of (fs_Tasks s) taskID of
        None \<Rightarrow> (False, s)
      | Some t \<Rightarrow>
          if t_Status t \<noteq> StatusRunning \<or> t_WorkerID t \<noteq> workerID then (False, s)
          else (True, s\<lparr>fs_Tasks := aput taskID (t\<lparr>t_LeaseExpiresAt := Some expiry\<rparr>) (fs_Tasks s)\<rparr>))"

text \<open>The loops over the attempts of a task, from the newest down to the first open one.\<close>

fun closeNewest :: "(Attempt \<Rightarrow> Attempt) \<Rightarrow> Attempt list \<Rightarrow> Attempt list" where
  "closeNewest f [] = []"
| "closeNewest f (a # as) = (if a_EndedAt a = None then f a # as else a # closeNewest f as)"

definition closeOpen :: "(Attempt \<Rightarrow> Attempt) \<Rightarrow> string \<Rightarrow> FakeStore \<Rightarrow> FakeStore" where
  "closeOpen f taskID s = s\<lparr>fs_attemptRows := amod taskID (\<lambda>as. rev (closeNewest f (rev as))) (fs_attemptRows s)\<rparr>"

lemma closeOpen_sel [simp]:
  "fs_Tasks (closeOpen f i s) = fs_Tasks s" "fs_Idem (closeOpen f i s) = fs_Idem s"
  "fs_Workers (closeOpen f i s) = fs_Workers s"
  by (simp_all add: closeOpen_def)

text \<open>The three ends of an attempt, with the entry each records.\<close>

definition fakeOutcome :: "time \<Rightarrow> CompleteResult \<Rightarrow> Task \<Rightarrow> CompletionOutcome \<times> Task" where
  "fakeOutcome now inp t =
     (if cr_Success inp then (OutcomeSucceeded, t\<lparr>t_Status := StatusSucceeded, t_FinishedAt := Some now\<rparr>)
      else if \<not> IsZero (cr_RetryAfter inp) then
        (OutcomeRetrying, t\<lparr>t_Status := StatusPending, t_ExecuteAfter := Some (cr_RetryAfter inp)\<rparr>)
      else (OutcomeDead, t\<lparr>t_Status := StatusDead, t_FinishedAt := Some now\<rparr>))"

definition fakeOutcomeRecord :: "CompleteResult \<Rightarrow> CompletionOutcome \<Rightarrow> FakeStore \<Rightarrow> FakeStore" where
  "fakeOutcomeRecord inp outcome =
     (case outcome of
        OutcomeSucceeded \<Rightarrow> fakeRecord ''task'' (cr_TaskID inp) ''succeeded'' ''running'' ''succeeded'' (cr_WorkerID inp) ''''
      | OutcomeRetrying \<Rightarrow> fakeRecord ''task'' (cr_TaskID inp) ''retry_scheduled'' ''running'' ''pending'' (cr_WorkerID inp) ''''
      | OutcomeDead \<Rightarrow> fakeRecord ''task'' (cr_TaskID inp) ''dead_letter'' ''running'' ''dead'' (cr_WorkerID inp) (cr_Category inp))"

definition fakeEnded :: "time \<Rightarrow> CompleteResult \<Rightarrow> Task \<Rightarrow> Task" where
  "fakeEnded now inp t =
     (snd (fakeOutcome now inp t))\<lparr>t_LastError := cr_Error inp, t_ErrCategory := cr_Category inp, t_WorkerID := '''',
        t_LeaseExpiresAt := None, t_UpdatedAt := now\<rparr>"

definition fakeCompleteAttempt :: "time \<Rightarrow> CompleteResult \<Rightarrow> FakeStore \<Rightarrow> (Task \<times> CompletionOutcome) res \<times> FakeStore" where
  "fakeCompleteAttempt now inp s =
     (case map_of (fs_Tasks s) (cr_TaskID inp) of
        None \<Rightarrow> (Inl ErrConflict, s)
      | Some t \<Rightarrow>
          if t_Status t \<noteq> StatusRunning \<or> t_WorkerID t \<noteq> cr_WorkerID inp then (Inl ErrConflict, s)
          else
            let s1 = closeOpen (endAttempt (if cr_Success inp then AttSucceeded else AttFailed) (cr_Error inp)
                                  (cr_Category inp) (nullableBytes (cr_Result inp)) now) (cr_TaskID inp) s;
                outcome = fst (fakeOutcome now inp t);
                t2 = fakeEnded now inp t
            in (Inr (t2, outcome), fakeOutcomeRecord inp outcome (s1\<lparr>fs_Tasks := aput (cr_TaskID inp) t2 (fs_Tasks s1)\<rparr>)))"

definition fakeFree :: "time \<Rightarrow> Task \<Rightarrow> Task" where
  "fakeFree now t = t\<lparr>t_Status := StatusReady, t_WorkerID := '''', t_LeaseExpiresAt := None, t_UpdatedAt := now\<rparr>"

definition fakePreempt :: "time \<Rightarrow> string \<Rightarrow> FakeStore \<Rightarrow> Task res \<times> FakeStore" where
  "fakePreempt now taskID s =
     (case map_of (fs_Tasks s) taskID of
        None \<Rightarrow> (Inl ErrConflict, s)
      | Some t \<Rightarrow>
          if t_Status t \<noteq> StatusRunning then (Inl ErrConflict, s)
          else (Inr (fakeFree now t),
                closeOpen (\<lambda>a. a\<lparr>a_EndedAt := Some now, a_Status := AttInterrupted, a_Error := ''preempted'',
                                 a_ErrCategory := ''preempted''\<rparr>) taskID
                  (s\<lparr>fs_Tasks := aput taskID (fakeFree now t) (fs_Tasks s)\<rparr>)))"

section \<open>Waiting and reclaiming\<close>

text \<open>A loop over ids that changes the tasks which pass a test, and collects them.\<close>

primrec changeTasks :: "(Task \<Rightarrow> bool) \<Rightarrow> (Task \<Rightarrow> Task) \<Rightarrow> string list \<Rightarrow> (string, Task) amap \<Rightarrow> Task list \<times> (string, Task) amap" where
  "changeTasks P f [] m = ([], m)"
| "changeTasks P f (i # ids) m =
     (case map_of m i of
        None \<Rightarrow> changeTasks P f ids m
      | Some t \<Rightarrow>
          if \<not> P t then changeTasks P f ids m
          else (case changeTasks P f ids (aput i (f t) m) of (out, m') \<Rightarrow> (f t # out, m')))"

definition fakeDue :: "time \<Rightarrow> Task \<Rightarrow> bool" where
  "fakeDue now t \<longleftrightarrow> t_Status t = StatusPending \<and> (case t_ExecuteAfter t of None \<Rightarrow> True | Some x \<Rightarrow> \<not> x > now)"

definition fakeMarkReadyByIDs :: "string list \<Rightarrow> time \<Rightarrow> FakeStore \<Rightarrow> Task list \<times> FakeStore" where
  "fakeMarkReadyByIDs ids now s =
     (case changeTasks (fakeDue now) (\<lambda>t. t\<lparr>t_Status := StatusReady, t_UpdatedAt := now\<rparr>) ids (fs_Tasks s) of
        (out, m) \<Rightarrow> (out, s\<lparr>fs_Tasks := m\<rparr>))"

definition fakeListPending :: "FakeStore \<Rightarrow> PendingEntry list" where
  "fakeListPending s =
     map (\<lambda>e. \<lparr>pe_ID = t_ID (snd e), pe_ExecuteAfter = t_ExecuteAfter (snd e)\<rparr>)
       (filter (\<lambda>e. t_Status (snd e) = StatusPending) (fs_Tasks s))"

definition fakeMarkWorkersOffline :: "time \<Rightarrow> FakeStore \<Rightarrow> string list \<times> FakeStore" where
  "fakeMarkWorkersOffline cutoff s =
     (let P = (\<lambda>w. w_Status w \<noteq> Offline \<and> w_LastHeartbeat w < cutoff)
      in (sort (map fst (filter (\<lambda>e. P (snd e)) (fs_Workers s))),
          s\<lparr>fs_Workers := map (\<lambda>(i, w). (i, if P w then w\<lparr>w_Status := Offline\<rparr> else w)) (fs_Workers s)\<rparr>))"

definition fakeOffline :: "FakeStore \<Rightarrow> string \<Rightarrow> bool" where
  "fakeOffline s wid =
     (case map_of (fs_Workers s) wid of Some w \<Rightarrow> w_Status w = Offline | None \<Rightarrow> wid \<noteq> '''')"

definition fakeExpired :: "time \<Rightarrow> FakeStore \<Rightarrow> Task \<Rightarrow> bool" where
  "fakeExpired now s t \<longleftrightarrow> t_Status t = StatusRunning \<and>
     ((case t_LeaseExpiresAt t of None \<Rightarrow> False | Some l \<Rightarrow> l < now) \<or> fakeOffline s (t_WorkerID t))"

text \<open>\<open>now\<close> is the argument of the call, \<open>ts\<close> the clock it reads.\<close>

primrec reclaimLoop :: "time \<Rightarrow> time \<Rightarrow> string list \<Rightarrow> FakeStore \<Rightarrow> ReclaimedTask list \<times> FakeStore" where
  "reclaimLoop now ts [] s = ([], s)"
| "reclaimLoop now ts (i # ids) s =
     (case map_of (fs_Tasks s) i of
        None \<Rightarrow> reclaimLoop now ts ids s
      | Some t \<Rightarrow>
          let t' = fakeFree now t;
              reason = (case map_of (fs_Workers s) (t_WorkerID t) of
                          Some w \<Rightarrow> if w_Status w = Offline then ''worker_offline'' else ''lease_expired''
                        | None \<Rightarrow> ''lease_expired'');
              s1 = closeOpen (\<lambda>a. a\<lparr>a_EndedAt := Some ts, a_Status := AttTimeout, a_Error := ''lease expired / worker lost'',
                                     a_ErrCategory := ''timeout''\<rparr>) i
                     (s\<lparr>fs_Tasks := aput i t' (fs_Tasks s)\<rparr>)
          in (case reclaimLoop now ts ids s1 of
                (out, s2) \<Rightarrow> (\<lparr>rc_Task = t', rc_OldWorker = t_WorkerID t, rc_Reason = reason\<rparr> # out, s2)))"

definition fakeReclaimExpired :: "time \<Rightarrow> time \<Rightarrow> FakeStore \<Rightarrow> ReclaimedTask list \<times> FakeStore" where
  "fakeReclaimExpired now ts s =
     reclaimLoop now ts (sort (map fst (filter (\<lambda>e. fakeExpired now s (snd e)) (fs_Tasks s)))) s"

section \<open>Workers\<close>

definition fakeUpsertWorker :: "time \<Rightarrow> Worker \<Rightarrow> FakeStore \<Rightarrow> FakeStore" where
  "fakeUpsertWorker now w s =
     (case map_of (fs_Workers s) (w_ID w) of
        Some c \<Rightarrow>
          let c1 = c\<lparr>w_TotalSlots := w_TotalSlots w, w_Capabilities := w_Capabilities w\<rparr>;
              c2 = (if w_Status c1 = Offline then c1\<lparr>w_Status := Online\<rparr> else c1);
              c3 = (if w_LastHeartbeat w > w_LastHeartbeat c2 then c2\<lparr>w_LastHeartbeat := w_LastHeartbeat w\<rparr> else c2)
          in s\<lparr>fs_Workers := aput (w_ID w) c3 (fs_Workers s)\<rparr>
      | None \<Rightarrow>
          let nw = (if IsZero (w_LastHeartbeat w) then w\<lparr>w_LastHeartbeat := now\<rparr> else w)
          in s\<lparr>fs_Workers := aput (w_ID w) nw (fs_Workers s)\<rparr>)"

definition fakeHeartbeat :: "time \<Rightarrow> Worker \<Rightarrow> FakeStore \<Rightarrow> FakeStore" where
  "fakeHeartbeat now w s =
     (case map_of (fs_Workers s) (w_ID w) of
        None \<Rightarrow> s\<lparr>fs_Workers := aput (w_ID w) (w\<lparr>w_LastHeartbeat := now\<rparr>) (fs_Workers s)\<rparr>
      | Some cur \<Rightarrow>
          s\<lparr>fs_Workers := aput (w_ID w) (cur\<lparr>w_LastHeartbeat := now, w_UsedSlots := w_UsedSlots w,
               w_CurrentTaskIDs := w_CurrentTaskIDs w, w_Status := Online\<rparr>) (fs_Workers s)\<rparr>)"

definition fakeMarkWorkerDraining :: "string \<Rightarrow> FakeStore \<Rightarrow> FakeStore" where
  "fakeMarkWorkerDraining wid s = s\<lparr>fs_Workers := amod wid (\<lambda>w. w\<lparr>w_Status := Draining\<rparr>) (fs_Workers s)\<rparr>"

definition fakeListWorkers :: "FakeStore \<Rightarrow> Worker list" where
  "fakeListWorkers s = map snd (fs_Workers s)"

definition fakeIncWorkerStats :: "string \<Rightarrow> bool \<Rightarrow> bool \<Rightarrow> FakeStore \<Rightarrow> FakeStore" where
  "fakeIncWorkerStats wid completed failed s =
     s\<lparr>fs_Workers := amod wid (\<lambda>w.
        let w1 = (if completed then w\<lparr>w_Completed := w_Completed w + 1\<rparr> else w)
        in if failed then w1\<lparr>w_Failed := w_Failed w1 + 1\<rparr> else w1) (fs_Workers s)\<rparr>"

definition fakeGetWorker :: "string \<Rightarrow> FakeStore \<Rightarrow> Worker option" where
  "fakeGetWorker wid s = map_of (fs_Workers s) wid"

definition fakeWorkerStats :: "FakeStore \<Rightarrow> WorkerStat list" where
  "fakeWorkerStats s =
     map (\<lambda>e. \<lparr>ws_Online = (w_Status (snd e) = Online \<or> w_Status (snd e) = Draining),
               ws_TotalSlots = w_TotalSlots (snd e), ws_UsedSlots = w_UsedSlots (snd e)\<rparr>) (fs_Workers s)"

section \<open>Dead letters and cancelling\<close>

definition fakeRetryDead :: "time \<Rightarrow> string list \<Rightarrow> FakeStore \<Rightarrow> (Task list \<times> nat) \<times> FakeStore" where
  "fakeRetryDead now ids s =
     (case changeTasks (\<lambda>t. t_Status t = StatusDead)
             (\<lambda>t. t\<lparr>t_Status := StatusReady, t_LastError := '''', t_ErrCategory := '''', t_FinishedAt := None,
                    t_ExecuteAfter := None, t_UpdatedAt := now\<rparr>) ids (fs_Tasks s) of
        (moved, m) \<Rightarrow> ((moved, length moved), s\<lparr>fs_Tasks := m\<rparr>))"

definition fakeDiscardDead :: "string list \<Rightarrow> FakeStore \<Rightarrow> nat \<times> FakeStore" where
  "fakeDiscardDead ids s =
     (case changeTasks (\<lambda>t. t_Status t = StatusDead) (\<lambda>t. t\<lparr>t_Status := StatusCanceled\<rparr>) ids (fs_Tasks s) of
        (out, m) \<Rightarrow> (length out, s\<lparr>fs_Tasks := m\<rparr>))"

definition fakeCountDead :: "FakeStore \<Rightarrow> nat" where
  "fakeCountDead s = length (filter (\<lambda>e. t_Status (snd e) = StatusDead) (fs_Tasks s))"

definition fakeAttempts :: "string \<Rightarrow> FakeStore \<Rightarrow> Attempt list" where
  "fakeAttempts tid s = (case map_of (fs_attemptRows s) tid of None \<Rightarrow> [] | Some as \<Rightarrow> as)"

definition fakeListDead :: "FakeStore \<Rightarrow> DeadLetter list \<times> nat" where
  "fakeListDead s =
     (map (\<lambda>e. \<lparr>dl_Task = snd e, dl_Attempts = fakeAttempts (t_ID (snd e)) s, dl_DeadAt = t_UpdatedAt (snd e)\<rparr>)
        (filter (\<lambda>e. t_Status (snd e) = StatusDead) (fs_Tasks s)), fakeCountDead s)"

definition fakeAggregateDead :: "FakeStore \<Rightarrow> (string \<times> nat) list" where
  "fakeAggregateDead s =
     (let cats = map (\<lambda>e. if t_ErrCategory (snd e) = '''' then ''unknown'' else t_ErrCategory (snd e))
                   (filter (\<lambda>e. t_Status (snd e) = StatusDead) (fs_Tasks s))
      in sort_key (\<lambda>b. - int (snd b)) (map (\<lambda>k. (k, count_list cats k)) (remdups cats)))"

definition fakeCancelTask :: "string \<Rightarrow> FakeStore \<Rightarrow> unit res \<times> FakeStore" where
  "fakeCancelTask tid s =
     (case map_of (fs_Tasks s) tid of
        None \<Rightarrow> (Inl ErrConflict, s)
      | Some t \<Rightarrow>
          if TerminalStatuses (t_Status t) then (Inl ErrConflict, s)
          else (Inr (), s\<lparr>fs_Tasks := aput tid (t\<lparr>t_Status := StatusCanceled\<rparr>) (fs_Tasks s)\<rparr>))"

section \<open>DAGs\<close>

text \<open>
  The store keeps the caller's own pointer to the DAG. The model keeps its value, so that a later
  change of the caller's object is not seen through the store.
\<close>

definition fakeNode :: "string \<Rightarrow> DAGNodeDef \<Rightarrow> DAGNode" where
  "fakeNode dagID n =
     \<lparr>n_DAGID = dagID, n_NodeID = nd_ID n, n_TaskID = '''', n_State = NodeWaiting, n_Dependencies = nd_Dependencies n,
      n_Attempts = 0, n_UpdatedAt = zeroTime\<rparr>"

definition fakeCreateDAG :: "time \<Rightarrow> DAG \<Rightarrow> FakeStore \<Rightarrow> unit res \<times> FakeStore" where
  "fakeCreateDAG now d s =
     (if map_of (fs_DAGs s) (d_ID d) \<noteq> None then (Inl (DriverErr ''dag exists''), s)
      else
        let d1 = (if IsZero (d_CreatedAt d) then d\<lparr>d_CreatedAt := now\<rparr> else d)
        in (Inr (), s\<lparr>fs_DAGs := aput (d_ID d) d1 (fs_DAGs s),
              fs_Nodes := aput (d_ID d) (fold (\<lambda>n. aput (nd_ID n) (fakeNode (d_ID d) n)) (dd_Nodes (d_Def d)) []) (fs_Nodes s)\<rparr>))"

definition fakeGetDAG :: "string \<Rightarrow> FakeStore \<Rightarrow> DAG option" where
  "fakeGetDAG did s = map_of (fs_DAGs s) did"

definition fakeListDAGs :: "FakeStore \<Rightarrow> DAG list" where
  "fakeListDAGs s = map snd (fs_DAGs s)"

definition nodesOf :: "string \<Rightarrow> FakeStore \<Rightarrow> (string, DAGNode) amap" where
  "nodesOf dagID s = (case map_of (fs_Nodes s) dagID of None \<Rightarrow> [] | Some ns \<Rightarrow> ns)"

definition fakeListDAGNodes :: "string \<Rightarrow> FakeStore \<Rightarrow> DAGNode list" where
  "fakeListDAGNodes dagID s = sort_key n_NodeID (map snd (nodesOf dagID s))"

definition fakeUpdateNode :: "time \<Rightarrow> DAGNodeUpdate \<Rightarrow> DAGNode \<Rightarrow> DAGNode" where
  "fakeUpdateNode now u n =
     (let n1 = n\<lparr>n_State := du_State u\<rparr>;
          n2 = (if du_TaskID u \<noteq> '''' then n1\<lparr>n_TaskID := du_TaskID u\<rparr> else n1);
          n3 = (if du_Bump u then n2\<lparr>n_Attempts := n_Attempts n2 + 1\<rparr> else n2)
      in n3\<lparr>n_UpdatedAt := now\<rparr>)"

definition fakeUpdateDAGNodes :: "time \<Rightarrow> string \<Rightarrow> DAGStatus option \<Rightarrow> DAGNodeUpdate list \<Rightarrow> FakeStore \<Rightarrow> FakeStore" where
  "fakeUpdateDAGNodes now dagID agg updates s =
     (let s1 = s\<lparr>fs_Nodes := amod dagID (fold (\<lambda>u. amod (du_NodeID u) (fakeUpdateNode now u)) updates) (fs_Nodes s)\<rparr>
      in case agg of
           None \<Rightarrow> s1
         | Some st \<Rightarrow>
             s1\<lparr>fs_DAGs := amod dagID (\<lambda>d.
                  let d1 = d\<lparr>d_Status := st\<rparr>
                  in if st = DAGSucceeded \<or> st = DAGFailed then d1\<lparr>d_FinishedAt := Some now\<rparr> else d1) (fs_DAGs s1)\<rparr>)"

definition fakeLinkDAGNode :: "string \<Rightarrow> string \<Rightarrow> string \<Rightarrow> FakeStore \<Rightarrow> FakeStore" where
  "fakeLinkDAGNode taskID dagID nodeID s =
     s\<lparr>fs_Tasks := amod taskID (\<lambda>t. t\<lparr>t_DAGID := dagID, t_DAGNodeID := nodeID\<rparr>) (fs_Tasks s)\<rparr>"

section \<open>Listings\<close>

text \<open>A status the store does not know is the empty string.\<close>

definition fakeSnapshotStatus :: "string \<Rightarrow> FakeStore \<Rightarrow> string" where
  "fakeSnapshotStatus tid s = (case map_of (fs_Tasks s) tid of None \<Rightarrow> '''' | Some t \<Rightarrow> statusStr (t_Status t))"

definition fakeSnapshotWorkerStatus :: "string \<Rightarrow> FakeStore \<Rightarrow> string" where
  "fakeSnapshotWorkerStatus wid s = (case map_of (fs_Workers s) wid of None \<Rightarrow> '''' | Some w \<Rightarrow> workerStatusStr (w_Status w))"

definition fakeListAllTasks :: "FakeStore \<Rightarrow> Task list \<times> nat" where
  "fakeListAllTasks s = (let out = sort_key t_ID (map snd (fs_Tasks s)) in (out, length out))"

definition fakeFilter :: "TaskFilter \<Rightarrow> Task \<Rightarrow> bool" where
  "fakeFilter f t =
     (if f_Statuses f \<noteq> [] \<and> statusStr (t_Status t) \<notin> set (f_Statuses f) then False
      else if f_Priority f \<noteq> '''' \<and> t_Priority t \<noteq> f_Priority f then False
      else if f_Type f \<noteq> '''' \<and> t_Type t \<noteq> f_Type f then False
      else if f_DAGID f \<noteq> '''' \<and> t_DAGID t \<noteq> f_DAGID f then False
      else if (case f_From f of None \<Rightarrow> False | Some x \<Rightarrow> t_CreatedAt t < x) then False
      else if (case f_To f of None \<Rightarrow> False | Some x \<Rightarrow> t_CreatedAt t > x) then False
      else True)"

text \<open>A negative offset is a slice bound out of range, which panics.\<close>

definition fakeListTasks :: "TaskFilter \<Rightarrow> FakeStore \<Rightarrow> (Task list \<times> nat) option" where
  "fakeListTasks f s =
     (let out = sort_key (\<lambda>t. - t_CreatedAt t) (filter (fakeFilter f) (map snd (fs_Tasks s)));
          total = int (length out);
          start = (if f_Offset f > total then total else f_Offset f);
          end0 = (if f_Limit f \<le> 0 then total else start + f_Limit f);
          end1 = (if end0 > total then total else end0)
      in if start < 0 then None else Some (take (nat (end1 - start)) (drop (nat start) out), length out))"

definition fakeListAudit :: "string \<Rightarrow> string \<Rightarrow> FakeStore \<Rightarrow> AuditEntry list" where
  "fakeListAudit entity entityID s =
     filter (\<lambda>a. \<not> (entity \<noteq> '''' \<and> au_Entity a \<noteq> entity) \<and> \<not> (entityID \<noteq> '''' \<and> au_EntityID a \<noteq> entityID)) (fs_auditRows s)"

end
