(* ===== verification/Fake_Sim.thy ===== *)
theory Fake_Sim
  imports Fake_Store
begin

text \<open>
  The comment of \<open>internal/testutil/fakestore.go\<close> promises that the fake mirrors the
  compare-and-swap semantics of the Postgres store. This theory says within which limits (\<open>mirrored\<close>) that
  holds and proves it there: the two stores, started empty and given the same calls, give the same answers. Compared is what
  the callers act on (\<open>taskView\<close>: identity, status, owner, lease, attempts, due time, and what
  submission fixed); timestamps and the last error are not, since there the two differ. The
  simulation is the locale \<open>mirror\<close>, which lifts a relation kept by single calls to whole runs.
\<close>

section \<open>Mirroring, in general\<close>

primrec runCalls :: "('op \<Rightarrow> 's \<Rightarrow> 'ans \<times> 's) \<Rightarrow> 'op list \<Rightarrow> 's \<Rightarrow> 'ans list \<times> 's" where
  "runCalls step [] s = ([], s)"
| "runCalls step (x # xs) s = (case step x s of (r, s') \<Rightarrow> case runCalls step xs s' of (rs, s'') \<Rightarrow> (r # rs, s''))"

text \<open>\<open>fits x u\<close> says that call \<open>x\<close> may be made when the ids in \<open>u\<close> are taken, \<open>takes x\<close> what it takes.\<close>

primrec fitRun :: "('op \<Rightarrow> 'i set \<Rightarrow> bool) \<Rightarrow> ('op \<Rightarrow> 'i set) \<Rightarrow> 'op list \<Rightarrow> 'i set \<Rightarrow> bool" where
  "fitRun fits takes [] u = True"
| "fitRun fits takes (x # xs) u = (fits x u \<and> fitRun fits takes xs (u \<union> takes x))"

locale mirror =
  fixes stepA :: "'op \<Rightarrow> 'a \<Rightarrow> 'ans \<times> 'a"
    and stepB :: "'op \<Rightarrow> 'b \<Rightarrow> 'ans \<times> 'b"
    and fits :: "'op \<Rightarrow> 'i set \<Rightarrow> bool"
    and takes :: "'op \<Rightarrow> 'i set"
    and rel :: "'i set \<Rightarrow> 'a \<Rightarrow> 'b \<Rightarrow> bool"
  assumes same_answer: "rel u a b \<Longrightarrow> fits x u \<Longrightarrow> fst (stepA x a) = fst (stepB x b)"
    and same_state: "rel u a b \<Longrightarrow> fits x u \<Longrightarrow> rel (u \<union> takes x) (snd (stepA x a)) (snd (stepB x b))"
begin

lemma run_same:
  assumes "rel u a b" "fitRun fits takes xs u"
  shows "fst (runCalls stepA xs a) = fst (runCalls stepB xs b) \<and>
    (\<exists>u'. rel u' (snd (runCalls stepA xs a)) (snd (runCalls stepB xs b)))"
  using assms
proof (induction xs arbitrary: u a b)
  case (Cons x xs)
  obtain r a' where a: "stepA x a = (r, a')" by fastforce
  obtain q b' where b: "stepB x b = (q, b')" by fastforce
  have "r = q" "rel (u \<union> takes x) a' b'"
    using same_answer [OF Cons.prems(1), of x] same_state [OF Cons.prems(1), of x] Cons.prems(2) a b by simp_all
  then show ?case using Cons.IH [of "u \<union> takes x" a' b'] Cons.prems(2) a b by (auto split: prod.splits)
qed auto

end

section \<open>What is compared\<close>

definition taskView :: "Task \<Rightarrow> Task" where
  "taskView t = t\<lparr>t_RetryPolicy := (t_RetryPolicy t)\<lparr>rp_MaxRetries := t_MaxRetries t\<rparr>, t_LastError := '''',
     t_ErrCategory := '''', t_CreatedAt := 0, t_UpdatedAt := 0, t_StartedAt := None, t_FinishedAt := None\<rparr>"

abbreviation rowView :: "TaskRow \<Rightarrow> Task" where "rowView r \<equiv> taskView (scanTask r)"

definition workerView :: "Worker \<Rightarrow> bool \<times> time" where
  "workerView w = (w_Status w = Offline, w_LastHeartbeat w)"

named_theorems view_simps \<open>how views read and commute with the updates of both stores\<close>

lemma taskView_sel [simp]:
  "t_ID (taskView t) = t_ID t" "t_Status (taskView t) = t_Status t" "t_WorkerID (taskView t) = t_WorkerID t"
  "t_LeaseExpiresAt (taskView t) = t_LeaseExpiresAt t" "t_ExecuteAfter (taskView t) = t_ExecuteAfter t"
  "t_Attempts (taskView t) = t_Attempts t" "t_IDempotencyKey (taskView t) = t_IDempotencyKey t"
  by (simp_all add: taskView_def)

lemma taskView_seen [view_simps]:
  "taskView (t\<lparr>t_Status := st\<rparr>) = (taskView t)\<lparr>t_Status := st\<rparr>"
  "taskView (t\<lparr>t_WorkerID := w\<rparr>) = (taskView t)\<lparr>t_WorkerID := w\<rparr>"
  "taskView (t\<lparr>t_LeaseExpiresAt := l\<rparr>) = (taskView t)\<lparr>t_LeaseExpiresAt := l\<rparr>"
  "taskView (t\<lparr>t_ExecuteAfter := l\<rparr>) = (taskView t)\<lparr>t_ExecuteAfter := l\<rparr>"
  "taskView (t\<lparr>t_Attempts := n\<rparr>) = (taskView t)\<lparr>t_Attempts := n\<rparr>"
  "taskView (t\<lparr>t_DAGID := w\<rparr>) = (taskView t)\<lparr>t_DAGID := w\<rparr>"
  "taskView (t\<lparr>t_DAGNodeID := w\<rparr>) = (taskView t)\<lparr>t_DAGNodeID := w\<rparr>"
  by (simp_all add: taskView_def)

lemma taskView_unseen [view_simps]:
  "taskView (t\<lparr>t_LastError := x\<rparr>) = taskView t" "taskView (t\<lparr>t_ErrCategory := x\<rparr>) = taskView t"
  "taskView (t\<lparr>t_CreatedAt := i\<rparr>) = taskView t" "taskView (t\<lparr>t_UpdatedAt := i\<rparr>) = taskView t"
  "taskView (t\<lparr>t_StartedAt := j\<rparr>) = taskView t" "taskView (t\<lparr>t_FinishedAt := j\<rparr>) = taskView t"
  by (simp_all add: taskView_def)

lemma scanTask_upd [view_simps]:
  "scanTask (r\<lparr>c_status := st\<rparr>) = (scanTask r)\<lparr>t_Status := st\<rparr>"
  "scanTask (r\<lparr>c_worker_id := w\<rparr>) = (scanTask r)\<lparr>t_WorkerID := w\<rparr>"
  "scanTask (r\<lparr>c_lease_expires_at := l\<rparr>) = (scanTask r)\<lparr>t_LeaseExpiresAt := l\<rparr>"
  "scanTask (r\<lparr>c_execute_after := l\<rparr>) = (scanTask r)\<lparr>t_ExecuteAfter := l\<rparr>"
  "scanTask (r\<lparr>c_attempts := n\<rparr>) = (scanTask r)\<lparr>t_Attempts := n\<rparr>"
  "scanTask (r\<lparr>c_dag_id := w\<rparr>) = (scanTask r)\<lparr>t_DAGID := w\<rparr>"
  "scanTask (r\<lparr>c_dag_node_id := w\<rparr>) = (scanTask r)\<lparr>t_DAGNodeID := w\<rparr>"
  "scanTask (r\<lparr>c_last_error := w\<rparr>) = (scanTask r)\<lparr>t_LastError := w\<rparr>"
  "scanTask (r\<lparr>c_error_category := w\<rparr>) = (scanTask r)\<lparr>t_ErrCategory := w\<rparr>"
  "scanTask (r\<lparr>c_updated_at := i\<rparr>) = (scanTask r)\<lparr>t_UpdatedAt := i\<rparr>"
  "scanTask (r\<lparr>c_started_at := l\<rparr>) = (scanTask r)\<lparr>t_StartedAt := l\<rparr>"
  "scanTask (r\<lparr>c_finished_at := l\<rparr>) = (scanTask r)\<lparr>t_FinishedAt := l\<rparr>"
  by (simp_all add: scanTask_def)

lemma view_agrees:
  assumes "taskView t = rowView r"
  shows "t_ID t = c_id r" "t_Status t = c_status r" "t_WorkerID t = c_worker_id r" "t_LeaseExpiresAt t = c_lease_expires_at r"
    "t_ExecuteAfter t = c_execute_after r" "t_Attempts t = c_attempts r" "t_IDempotencyKey t = c_idempotency_key r"
  using assms by (metis scanTask_sel taskView_sel)+

section \<open>The relation\<close>

definition mirrors :: "string set \<Rightarrow> FakeStore \<Rightarrow> db \<Rightarrow> bool" where
  "mirrors u f s \<longleftrightarrow>
     distinct (map fst (fs_Tasks f)) \<and> distinct (map c_id (tasks s)) \<and> fst ` set (fs_Tasks f) \<subseteq> u \<and>
     (\<forall>i. map_option taskView (map_of (fs_Tasks f) i) = map_option rowView (lookupRow c_id i (tasks s))) \<and>
     (\<forall>i t. map_of (fs_Tasks f) i = Some t \<longrightarrow> t_Status t = StatusRunning \<longrightarrow> t_WorkerID t \<noteq> '''') \<and>
     (\<forall>k. k \<noteq> '''' \<longrightarrow> map_of (fs_Idem f) k = map_option c_id (lookupRow c_idempotency_key k (tasks s))) \<and>
     distinct (map fst (fs_Workers f)) \<and> distinct (map w_ID (workers s)) \<and>
     (\<forall>i. map_option workerView (map_of (fs_Workers f) i) = map_option workerView (lookupRow w_ID i (workers s)))"

lemma mirrorsD:
  assumes "mirrors u f s"
  shows "distinct (map fst (fs_Tasks f))" "distinct (map c_id (tasks s))" "distinct (map fst (fs_Workers f))"
    "distinct (map w_ID (workers s))" "fst ` set (fs_Tasks f) \<subseteq> u"
    "map_option taskView (map_of (fs_Tasks f) i) = map_option rowView (lookupRow c_id i (tasks s))"
    "map_option workerView (map_of (fs_Workers f) i) = map_option workerView (lookupRow w_ID i (workers s))"
    "i \<noteq> '''' \<Longrightarrow> map_of (fs_Idem f) i = map_option c_id (lookupRow c_idempotency_key i (tasks s))"
    "map_of (fs_Tasks f) i = Some t \<Longrightarrow> t_Status t = StatusRunning \<Longrightarrow> t_WorkerID t \<noteq> ''''"
  using assms unfolding mirrors_def by blast+

lemma mirrors_empty: "mirrors {} NewFakeStore emptyDb"
  by (simp add: mirrors_def NewFakeStore_def emptyDb_def)

text \<open>A task is either in both stores, with the same view, or in neither.\<close>

lemma mirrors_task:
  assumes "mirrors u f s"
  obtains (missing) "map_of (fs_Tasks f) i = None" "lookupRow c_id i (tasks s) = None"
  | (present) t r where "map_of (fs_Tasks f) i = Some t" "lookupRow c_id i (tasks s) = Some r" "taskView t = rowView r"
  using mirrorsD(6) [OF assms, of i]
  by (cases "map_of (fs_Tasks f) i"; cases "lookupRow c_id i (tasks s)") auto

text \<open>Every operation that changes existing tasks does so to the same ones, and alike.\<close>

lemma mirrors_update:
  assumes m: "mirrors u f s"
    and f: "\<And>i. map_of (fs_Tasks f') i = map_option (\<lambda>t. if P i t then g t else t) (map_of (fs_Tasks f) i)"
      "map fst (fs_Tasks f') = map fst (fs_Tasks f)" "fs_Idem f' = fs_Idem f" "fs_Workers f' = fs_Workers f"
    and s: "tasks s' = updateWhere Q h (tasks s)" "workers s' = workers s"
    and h: "\<And>r. c_id (h r) = c_id r" "\<And>r. c_idempotency_key (h r) = c_idempotency_key r"
    and both: "\<And>i t r. map_of (fs_Tasks f) i = Some t \<Longrightarrow> lookupRow c_id i (tasks s) = Some r \<Longrightarrow> taskView t = rowView r \<Longrightarrow>
      P i t = Q r \<and> (Q r \<longrightarrow> taskView (g t) = rowView (h r) \<and> (t_Status (g t) = StatusRunning \<longrightarrow> t_WorkerID (g t) \<noteq> ''''))"
  shows "mirrors u f' s'"
proof -
  note d = mirrorsD [OF m]
  have "map_option taskView (map_of (fs_Tasks f') i) = map_option rowView (lookupRow c_id i (tasks s'))" for i
    unfolding f s lookupRow_updateWhere [of c_id h, OF h(1)]
    by (cases rule: mirrors_task [OF m, of i]) (use both in auto)
  moreover have "t_WorkerID t \<noteq> ''''" if t: "map_of (fs_Tasks f') i = Some t" "t_Status t = StatusRunning" for i t
    using m
  proof (cases rule: mirrors_task [where i = i])
    case (present t0 r)
    then show ?thesis using t both [OF present] d(9) [of i t0] by (auto simp: f(1) split: if_splits)
  qed (use t in \<open>simp add: f(1)\<close>)
  moreover have "map_option c_id (lookupRow c_idempotency_key k (tasks s')) = map_option c_id (lookupRow c_idempotency_key k (tasks s))" for k
    unfolding s lookupRow_updateWhere [of c_idempotency_key h, OF h(2)] option.map_comp
    by (intro option.map_cong) (auto simp: h)
  moreover have "map c_id (tasks s') = map c_id (tasks s)" unfolding s by (rule map_key_updateWhere) (simp add: h)
  moreover have "fst ` set (fs_Tasks f') = fst ` set (fs_Tasks f)" using f(2) by (metis list.set_map)
  ultimately show ?thesis using d unfolding mirrors_def f(2-4) s(2) by simp
qed

section \<open>The calls\<close>

text \<open>The calls of the store's interfaces that both serve, each with the clock it reads.\<close>

datatype StoreCall =
    CallCreate time Task
  | CallGet string
  | CallGetByIdem string
  | CallBegin time string string time
  | CallRenew string string time
  | CallComplete time CompleteResult
  | CallPreempt time string
  | CallMarkReady "string list" time
  | CallReclaim time time
  | CallRetryDead time "string list"
  | CallDiscardDead time "string list"
  | CallCountDead
  | CallListPending
  | CallCancel time string
  | CallLink string string string
  | CallUpsertWorker time Worker
  | CallHeartbeat time Worker
  | CallDrain string
  | CallSweep time

datatype Answer =
    Fine
  | Refused err
  | OneTask "Task option"
  | Ended Task CompletionOutcome
  | Held bool
  | ManyTasks "Task set" nat
  | Number nat
  | Waiting "(string \<times> time option) set"
  | Taken "(string \<times> string) set"
  | Gone "string set"
  | Panics

definition onClock :: "time \<Rightarrow> call" where
  "onClock now = \<lparr>k_fault = None, k_dbnow = now, k_gonow = now\<rparr>"

fun taskAnswer :: "Task res \<Rightarrow> Answer" where
  "taskAnswer (Inl e) = Refused e"
| "taskAnswer (Inr t) = OneTask (Some (taskView t))"

fun endAnswer :: "(Task \<times> CompletionOutcome) res \<Rightarrow> Answer" where
  "endAnswer (Inl e) = Refused e"
| "endAnswer (Inr (t, out)) = Ended (taskView t) out"

fun unitAnswer :: "unit res \<Rightarrow> Answer" where
  "unitAnswer (Inl e) = Refused e"
| "unitAnswer (Inr u) = Fine"

fun lookAnswer :: "Task option res \<Rightarrow> Answer" where
  "lookAnswer (Inl e) = Refused e"
| "lookAnswer (Inr t) = OneTask (map_option taskView t)"

fun resAnswer :: "('a \<Rightarrow> Answer) \<Rightarrow> 'a res \<Rightarrow> Answer" where
  "resAnswer a (Inl e) = Refused e"
| "resAnswer a (Inr x) = a x"

definition manyAnswer :: "Task list \<Rightarrow> Answer" where
  "manyAnswer ts = ManyTasks (taskView ` set ts) (length ts)"

definition takenAnswer :: "ReclaimedTask list \<Rightarrow> Answer" where
  "takenAnswer vs = Taken ((\<lambda>v. (t_ID (rc_Task v), rc_OldWorker v)) ` set vs)"

definition waitingAnswer :: "PendingEntry list \<Rightarrow> Answer" where
  "waitingAnswer es = Waiting ((\<lambda>e. (pe_ID e, pe_ExecuteAfter e)) ` set es)"

text \<open>
  No fault strikes the Postgres store. Whether the server accepts the statement of \<open>ReclaimExpired\<close> (\<open>acc\<close>) and whether
  the driver refuses a second statement while rows are open, as \<open>RetryDead\<close> makes it (\<open>busy\<close>), are parameters.
\<close>

fun storeCall :: "(string list \<Rightarrow> bool) \<Rightarrow> bool \<Rightarrow> StoreCall \<Rightarrow> db \<Rightarrow> Answer \<times> db" where
  "storeCall acc busy (CallCreate now t) s = apfst taskAnswer (CreateTask (onClock now) t s)"
| "storeCall acc busy (CallGet i) s = (lookAnswer (GetTask (onClock 0) i s), s)"
| "storeCall acc busy (CallGetByIdem k) s = (lookAnswer (GetTaskByIdem (onClock 0) k s), s)"
| "storeCall acc busy (CallBegin now i w l) s = apfst taskAnswer (BeginAttempt (onClock now) i w l s)"
| "storeCall acc busy (CallRenew i w l) s = apfst (resAnswer Held) (RenewLease (onClock 0) i w l s)"
| "storeCall acc busy (CallComplete now inp) s = apfst endAnswer (CompleteAttempt (onClock now) inp s)"
| "storeCall acc busy (CallPreempt now i) s = apfst taskAnswer (Preempt (onClock now) i ''scheduler'' s)"
| "storeCall acc busy (CallMarkReady is now) s = apfst (resAnswer manyAnswer) (MarkReadyByIDs (onClock now) is now s)"
| "storeCall acc busy (CallReclaim now ts) s = apfst (resAnswer takenAnswer) (ReclaimExpired acc (onClock ts) now s)"
| "storeCall acc busy (CallRetryDead now is) s = apfst (resAnswer (manyAnswer \<circ> fst)) (RetryDead busy (onClock now) is s)"
| "storeCall acc busy (CallDiscardDead now is) s = apfst (resAnswer Number) (DiscardDead (onClock now) is s)"
| "storeCall acc busy CallCountDead s = (resAnswer Number (CountDead (onClock 0) s), s)"
| "storeCall acc busy CallListPending s = (resAnswer waitingAnswer (ListPending (onClock 0) s), s)"
| "storeCall acc busy (CallCancel now i) s = apfst unitAnswer (CancelTask (onClock now) i s)"
| "storeCall acc busy (CallLink i d n) s = apfst unitAnswer (LinkDAGNode (onClock 0) i d n s)"
| "storeCall acc busy (CallUpsertWorker now w) s = apfst unitAnswer (UpsertWorker (onClock now) w s)"
| "storeCall acc busy (CallHeartbeat now w) s = apfst unitAnswer (Heartbeat (onClock now) (onClock now) w s)"
| "storeCall acc busy (CallDrain i) s = apfst unitAnswer (MarkWorkerDraining (onClock 0) i s)"
| "storeCall acc busy (CallSweep cutoff) s = apfst (resAnswer (Gone \<circ> set)) (MarkWorkersOffline (onClock 0) cutoff s)"

fun fakeCall :: "StoreCall \<Rightarrow> FakeStore \<Rightarrow> Answer \<times> FakeStore" where
  "fakeCall (CallCreate now t) s = apfst taskAnswer (fakeCreateTask now t s)"
| "fakeCall (CallGet i) s = (lookAnswer (Inr (fakeGetTask i s)), s)"
| "fakeCall (CallGetByIdem k) s = (case fakeGetTaskByIdem k s of None \<Rightarrow> Panics | Some x \<Rightarrow> lookAnswer (Inr x), s)"
| "fakeCall (CallBegin now i w l) s = apfst taskAnswer (fakeBeginAttempt now i w l s)"
| "fakeCall (CallRenew i w l) s = apfst Held (fakeRenewLease i w l s)"
| "fakeCall (CallComplete now inp) s = apfst endAnswer (fakeCompleteAttempt now inp s)"
| "fakeCall (CallPreempt now i) s = apfst taskAnswer (fakePreempt now i s)"
| "fakeCall (CallMarkReady is now) s = apfst manyAnswer (fakeMarkReadyByIDs is now s)"
| "fakeCall (CallReclaim now ts) s = apfst takenAnswer (fakeReclaimExpired now ts s)"
| "fakeCall (CallRetryDead now is) s = apfst (manyAnswer \<circ> fst) (fakeRetryDead now is s)"
| "fakeCall (CallDiscardDead now is) s = apfst Number (fakeDiscardDead is s)"
| "fakeCall CallCountDead s = (Number (fakeCountDead s), s)"
| "fakeCall CallListPending s = (waitingAnswer (fakeListPending s), s)"
| "fakeCall (CallCancel now i) s = apfst unitAnswer (fakeCancelTask i s)"
| "fakeCall (CallLink i d n) s = (Fine, fakeLinkDAGNode i d n s)"
| "fakeCall (CallUpsertWorker now w) s = (Fine, fakeUpsertWorker now w s)"
| "fakeCall (CallHeartbeat now w) s = (Fine, fakeHeartbeat now w s)"
| "fakeCall (CallDrain i) s = (Fine, fakeMarkWorkerDraining i s)"
| "fakeCall (CallSweep cutoff) s = apfst (Gone \<circ> set) (fakeMarkWorkersOffline cutoff s)"

text \<open>
  Where the two part, so that a call has to keep away from it: the fake has none of the defaults of
  \<open>CreateTask\<close>, keeps the idempotency key of a task whose id was taken, takes a running task without
  an owner for one that is not lost, keeps the status of a worker that registers again, does not
  count a registration without a time as a heartbeat, and never has a statement refused.
\<close>

fun mirrored :: "(string list \<Rightarrow> bool) \<Rightarrow> bool \<Rightarrow> StoreCall \<Rightarrow> string set \<Rightarrow> bool" where
  "mirrored acc busy (CallCreate now t) u \<longleftrightarrow> t_ID t \<notin> u \<and> rp_Kind (t_RetryPolicy t) \<noteq> '''' \<and>
     \<not> (t_MaxRetries t = 0 \<and> rp_MaxRetries (t_RetryPolicy t) > 0) \<and> t_Status t \<noteq> StatusRunning"
| "mirrored acc busy (CallGetByIdem k) u \<longleftrightarrow> k \<noteq> ''''"
| "mirrored acc busy (CallBegin now i w l) u \<longleftrightarrow> w \<noteq> ''''"
| "mirrored acc busy (CallUpsertWorker now w) u \<longleftrightarrow> w_Status w \<noteq> Offline \<and> \<not> IsZero (w_LastHeartbeat w)"
| "mirrored acc busy (CallReclaim now ts) u \<longleftrightarrow> acc (selectItems (prefixedColumns ''t''))"
| "mirrored acc busy (CallRetryDead now ids) u \<longleftrightarrow> \<not> busy"
| "mirrored acc busy _ u \<longleftrightarrow> True"

fun takenIDs :: "StoreCall \<Rightarrow> string set" where
  "takenIDs (CallCreate now t) = {t_ID t}"
| "takenIDs _ = {}"

lemma onClock_sel [simp]: "k_fault (onClock now) = None" "k_dbnow (onClock now) = now" "k_gonow (onClock now) = now"
  by (simp_all add: onClock_def)

section \<open>Call by call\<close>

definition agree :: "(string list \<Rightarrow> bool) \<Rightarrow> bool \<Rightarrow> string set \<Rightarrow> StoreCall \<Rightarrow> FakeStore \<Rightarrow> db \<Rightarrow> bool" where
  "agree acc busy u x f s \<longleftrightarrow> fst (fakeCall x f) = fst (storeCall acc busy x s) \<and> mirrors (u \<union> takenIDs x) (snd (fakeCall x f)) (snd (storeCall acc busy x s))"

lemma aput_same:
  assumes "map_of m i = Some t"
  shows "map_of (aput i t' m) j = map_option (\<lambda>t. if j = i then t' else t) (map_of m j)" "map fst (aput i t' m) = map fst m"
proof -
  show "map_of (aput i t' m) j = map_option (\<lambda>t. if j = i then t' else t) (map_of m j)" using assms by (auto simp: option.map_ident)
  show "map fst (aput i t' m) = map fst m" using assms by (induction m) (auto split: if_splits)
qed

text \<open>The compare-and-swap calls: one task, guarded, replaced in both stores.\<close>

lemma mirrors_swap:
  assumes m: "mirrors u f s" and t: "map_of (fs_Tasks f) i = Some t" "lookupRow c_id i (tasks s) = Some r"
    and f: "fs_Tasks f' = aput i t' (fs_Tasks f)" "fs_Idem f' = fs_Idem f" "fs_Workers f' = fs_Workers f"
    and s: "tasks s' = updateWhere (\<lambda>r. c_id r = i \<and> Q r) h (tasks s)" "workers s' = workers s" "Q r"
    and h: "\<And>r. c_id (h r) = c_id r" "\<And>r. c_idempotency_key (h r) = c_idempotency_key r"
    and v: "taskView t' = rowView (h r)" "t_Status t' = StatusRunning \<Longrightarrow> t_WorkerID t' \<noteq> ''''"
  shows "mirrors u f' s'"
proof (rule mirrors_update [OF m _ _ f(2,3) s(1,2) h, where P = "\<lambda>j _. j = i" and g = "\<lambda>_. t'"])
  show "map_of (fs_Tasks f') j = map_option (\<lambda>x. if j = i then t' else x) (map_of (fs_Tasks f) j)" for j
    unfolding f(1) by (rule aput_same(1) [OF t(1)])
  show "map fst (fs_Tasks f') = map fst (fs_Tasks f)" unfolding f(1) by (rule aput_same(2) [OF t(1)])
  show "(j = i) = (c_id x = i \<and> Q x) \<and> (c_id x = i \<and> Q x \<longrightarrow> taskView t' = rowView (h x) \<and>
      (t_Status t' = StatusRunning \<longrightarrow> t_WorkerID t' \<noteq> ''''))" if "lookupRow c_id j (tasks s) = Some x" for j x
    using that lookupRow_Some [OF that] t(2) s(3) v by auto
qed

lemmas call_defs = agree_def withTx_def poolExec_def poolQuery_def Let_def

lemma agree_begin:
  assumes m: "mirrors u f s" and "w \<noteq> ''''"
  shows "agree acc busy u (CallBegin now i w l) f s"
  using m
proof (cases rule: mirrors_task [where i = i])
  case missing
  then show ?thesis using m mirrorsD(2) [OF m]
    by (simp add: call_defs fakeBeginAttempt_def BeginAttempt_def selectWhere_key)
next
  case (present t r)
  note v = view_agrees [OF present(3)]
  show ?thesis
  proof (cases "c_status r = StatusReady")
    case False
    then show ?thesis using m present v mirrorsD(2) [OF m]
      by (simp add: call_defs fakeBeginAttempt_def BeginAttempt_def selectWhere_key)
  next
    case True
    have "mirrors u (snd (fakeCall (CallBegin now i w l) f)) (snd (storeCall acc busy (CallBegin now i w l) s))"
      by (rule mirrors_swap [OF m present(1,2), where t' = "fakeLease now w l t" and Q = "\<lambda>r. c_status r = StatusReady" and h = "beginRow w l now"])
        (use assms(2) True present v mirrorsD(2) [OF m] in \<open>simp_all add: fakeBeginAttempt_def BeginAttempt_def withTx_def Let_def
           selectWhere_key fakeLease_def beginRow_def view_simps\<close>)
    then show ?thesis using True present v mirrorsD(2) [OF m]
      by (simp add: agree_def fakeBeginAttempt_def BeginAttempt_def withTx_def Let_def selectWhere_key fakeLease_def beginRow_def view_simps)
  qed
qed

lemma agree_renew:
  assumes m: "mirrors u f s"
  shows "agree acc busy u (CallRenew i w l) f s"
proof -
  have k: "selectWhere (\<lambda>r. c_id r = i \<and> c_worker_id r = w \<and> c_status r = StatusRunning) (tasks s) =
      (case lookupRow c_id i (tasks s) of None \<Rightarrow> [] | Some r \<Rightarrow> if c_worker_id r = w \<and> c_status r = StatusRunning then [r] else [])"
    by (rule selectWhere_key [OF mirrorsD(2) [OF m]])
  have none: "updateWhere (\<lambda>r. c_id r = i \<and> c_worker_id r = w \<and> c_status r = StatusRunning) h (tasks s) = tasks s"
    if "selectWhere (\<lambda>r. c_id r = i \<and> c_worker_id r = w \<and> c_status r = StatusRunning) (tasks s) = []" for h
    using that by (intro updateWhere_none) (auto simp: selectWhere_def filter_empty_conv)
  from m show ?thesis
  proof (cases rule: mirrors_task [where i = i])
    case missing
    then show ?thesis using m k none by (simp add: call_defs fakeRenewLease_def RenewLease_def)
  next
    case (present t r)
    note v = view_agrees [OF present(3)]
    show ?thesis
    proof (cases "c_worker_id r = w \<and> c_status r = StatusRunning")
      case False
      then show ?thesis using m k none present v by (auto simp: call_defs fakeRenewLease_def RenewLease_def)
    next
      case True
      have "mirrors u (snd (fakeCall (CallRenew i w l) f)) (snd (storeCall acc busy (CallRenew i w l) s))"
        by (rule mirrors_swap [OF m present(1,2), where t' = "t\<lparr>t_LeaseExpiresAt := Some l\<rparr>" and
              Q = "\<lambda>r. c_worker_id r = w \<and> c_status r = StatusRunning" and h = "\<lambda>r. r\<lparr>c_lease_expires_at := Some l\<rparr>"])
          (use True present v mirrorsD(9) [OF m present(1)] in \<open>simp_all add: fakeRenewLease_def RenewLease_def call_defs view_simps\<close>)
      then show ?thesis using True present v k by (simp add: call_defs fakeRenewLease_def RenewLease_def)
    qed
  qed
qed

lemma agree_end:
  assumes "taskView t = rowView r" "completionUpdate (onClock now) inp = (out, x)"
  shows "fst (fakeOutcome now inp t) = out" "taskView (fakeEnded now inp t) = rowView (updateRow x now r)"
    "t_Status (fakeEnded now inp t) \<noteq> StatusRunning"
proof -
  show "fst (fakeOutcome now inp t) = out" "t_Status (fakeEnded now inp t) \<noteq> StatusRunning"
    using assms(2) by (auto simp: fakeEnded_def fakeOutcome_def completionUpdate_def split: if_splits)
  show "taskView (fakeEnded now inp t) = rowView (updateRow x now r)" using assms
    by (auto simp: fakeEnded_def fakeOutcome_def completionUpdate_def updateRow_def noUpdate_def Let_def view_simps split: if_splits)
qed

lemma fakeOutcomeRecord_sel [simp]:
  "fs_Tasks (fakeOutcomeRecord inp out f) = fs_Tasks f" "fs_Idem (fakeOutcomeRecord inp out f) = fs_Idem f"
  "fs_Workers (fakeOutcomeRecord inp out f) = fs_Workers f"
  by (simp_all add: fakeOutcomeRecord_def split: CompletionOutcome.split)

lemma agree_complete:
  assumes m: "mirrors u f s"
  shows "agree acc busy u (CallComplete now inp) f s"
  using m
proof (cases rule: mirrors_task [where i = "cr_TaskID inp"])
  case missing
  then show ?thesis using m by (simp add: call_defs fakeCompleteAttempt_def CompleteAttempt_def)
next
  case (present t r)
  note v = view_agrees [OF present(3)]
  have i: "c_id r = cr_TaskID inp" using lookupRow_Some [OF present(2)] by simp
  obtain out x where x: "completionUpdate (onClock now) inp = (out, x)" by fastforce
  note e = agree_end [OF present(3) x]
  show ?thesis
  proof (cases "c_status r = StatusRunning \<and> c_worker_id r = cr_WorkerID inp")
    case False
    then show ?thesis using m present v by (auto simp: call_defs fakeCompleteAttempt_def CompleteAttempt_def)
  next
    case True
    have l: "lookupRow c_id (cr_TaskID inp) (updateWhere (\<lambda>r. c_id r = cr_TaskID inp) (updateRow x now) (tasks s)) = Some (updateRow x now r)"
      using present(2) i by (simp add: lookupRow_updateWhere)
    have "mirrors u (snd (fakeCall (CallComplete now inp) f)) (snd (storeCall acc busy (CallComplete now inp) s))"
      by (rule mirrors_swap [OF m present(1,2), where t' = "fakeEnded now inp t" and Q = "\<lambda>r. True" and h = "updateRow x now"])
        (use True present v e i l x in \<open>simp_all add: fakeCompleteAttempt_def CompleteAttempt_def call_defs applyTaskUpdate_def\<close>)
    then show ?thesis using True present v e i l x
      by (simp add: call_defs fakeCompleteAttempt_def CompleteAttempt_def applyTaskUpdate_def)
  qed
qed

lemma agree_preempt:
  assumes m: "mirrors u f s"
  shows "agree acc busy u (CallPreempt now i) f s"
  using m
proof (cases rule: mirrors_task [where i = i])
  case missing
  then show ?thesis using m mirrorsD(2) [OF m] by (simp add: call_defs fakePreempt_def Preempt_def selectWhere_key)
next
  case (present t r)
  note v = view_agrees [OF present(3)]
  show ?thesis
  proof (cases "c_status r = StatusRunning")
    case False
    then show ?thesis using m present v mirrorsD(2) [OF m] by (simp add: call_defs fakePreempt_def Preempt_def selectWhere_key)
  next
    case True
    have "mirrors u (snd (fakeCall (CallPreempt now i) f)) (snd (storeCall acc busy (CallPreempt now i) s))"
      by (rule mirrors_swap [OF m present(1,2), where t' = "fakeFree now t" and Q = "\<lambda>r. c_status r = StatusRunning" and h = "freeRow now"])
        (use True present v mirrorsD(2) [OF m] in \<open>simp_all add: fakePreempt_def Preempt_def call_defs selectWhere_key fakeFree_def
           freeRow_def view_simps\<close>)
    then show ?thesis using True present v mirrorsD(2) [OF m]
      by (simp add: call_defs fakePreempt_def Preempt_def selectWhere_key fakeFree_def freeRow_def view_simps)
  qed
qed

lemma agree_cancel:
  assumes m: "mirrors u f s"
  shows "agree acc busy u (CallCancel now i) f s"
  using m
proof (cases rule: mirrors_task [where i = i])
  case missing
  then show ?thesis using m by (simp add: call_defs fakeCancelTask_def CancelTask_def)
next
  case (present t r)
  note v = view_agrees [OF present(3)]
  show ?thesis
  proof (cases "TerminalStatuses (c_status r)")
    case True
    then show ?thesis using m present v by (simp add: call_defs fakeCancelTask_def CancelTask_def)
  next
    case False
    have "mirrors u (snd (fakeCall (CallCancel now i) f)) (snd (storeCall acc busy (CallCancel now i) s))"
      by (rule mirrors_swap [OF m present(1,2), where t' = "t\<lparr>t_Status := StatusCanceled\<rparr>" and Q = "\<lambda>r. True" and h = "cancelRow now"])
        (use False present v in \<open>simp_all add: fakeCancelTask_def CancelTask_def call_defs cancelRow_def view_simps\<close>)
    then show ?thesis using False present v by (simp add: call_defs fakeCancelTask_def CancelTask_def)
  qed
qed

lemma agree_link:
  assumes m: "mirrors u f s"
  shows "agree acc busy u (CallLink i d n) f s"
proof -
  have "mirrors u (snd (fakeCall (CallLink i d n) f)) (snd (storeCall acc busy (CallLink i d n) s))"
    by (rule mirrors_update [OF m, where P = "\<lambda>j _. j = i" and g = "\<lambda>t. t\<lparr>t_DAGID := d, t_DAGNodeID := n\<rparr>" and
          Q = "\<lambda>r. c_id r = i" and h = "\<lambda>r. r\<lparr>c_dag_id := d, c_dag_node_id := n\<rparr>"])
      (use mirrorsD(9) [OF m] in \<open>auto simp: call_defs fakeLinkDAGNode_def LinkDAGNode_def view_simps option.map_ident
         dest: lookupRow_Some\<close>)
  then show ?thesis by (simp add: call_defs LinkDAGNode_def)
qed

lemma agree_get:
  assumes m: "mirrors u f s"
  shows "agree acc busy u (CallGet i) f s"
  using m mirrorsD(6) [OF m, of i] by (simp add: call_defs fakeGetTask_def GetTask_def option.map_comp o_def)

lemma agree_getByIdem:
  assumes m: "mirrors u f s" and "k \<noteq> ''''"
  shows "agree acc busy u (CallGetByIdem k) f s"
proof (cases "lookupRow c_idempotency_key k (tasks s)")
  case None
  then show ?thesis using m mirrorsD(8) [OF assms] by (simp add: call_defs fakeGetTaskByIdem_def GetTaskByIdem_def)
next
  case (Some r)
  then have r: "r \<in> set (tasks s)" using lookupRow_Some by fastforce
  have "lookupRow c_id (c_id r) (tasks s) = Some r" by (rule lookupRow_unique [OF mirrorsD(2) [OF m] r])
  then show ?thesis using m mirrorsD(8) [OF assms] mirrorsD(6) [OF m, of "c_id r"] Some
    by (auto simp: call_defs fakeGetTaskByIdem_def GetTaskByIdem_def)
qed

lemma createDefaults_plain:
  assumes "rp_Kind (t_RetryPolicy t) \<noteq> ''''" "\<not> (t_MaxRetries t = 0 \<and> rp_MaxRetries (t_RetryPolicy t) > 0)"
  shows "createDefaults now t = (let t1 = (if IsZero (t_CreatedAt t) then t\<lparr>t_CreatedAt := now\<rparr> else t) in t1\<lparr>t_UpdatedAt := t_CreatedAt t1\<rparr>)"
  using assms by (auto simp: createDefaults_def Let_def)

lemma taskView_stored: "rowView (taskArgs t) = taskView t"
  unfolding scanTask_taskArgs by (simp add: taskView_def)

lemma agree_create:
  assumes m: "mirrors u f s" and "mirrored acc busy (CallCreate now t) u"
  shows "agree acc busy u (CallCreate now t) f s"
proof -
  let ?t = "createDefaults now t"
  have new: "map_of (fs_Tasks f) (t_ID t) = None" using assms mirrorsD(5) [OF m] by (auto simp: map_of_eq_None_iff)
  then have row: "lookupRow c_id (t_ID t) (tasks s) = None" using mirrorsD(6) [OF m, of "t_ID t"] by simp
  have t: "?t = (let t1 = (if IsZero (t_CreatedAt t) then t\<lparr>t_CreatedAt := now\<rparr> else t) in t1\<lparr>t_UpdatedAt := t_CreatedAt t1\<rparr>)"
    using assms(2) by (intro createDefaults_plain) auto
  have dup: "duplicateKey (taskArgs ?t) (tasks s) \<longleftrightarrow> t_IDempotencyKey t \<noteq> '''' \<and> map_of (fs_Idem f) (t_IDempotencyKey t) \<noteq> None"
  proof (cases "t_IDempotencyKey t = ''''")
    case False
    have "c_id x \<noteq> t_ID t" if "x \<in> set (tasks s)" for x using row that unfolding lookupRow_None by (metis imageI)
    then have "duplicateKey (taskArgs ?t) (tasks s) \<longleftrightarrow> lookupRow c_idempotency_key (t_IDempotencyKey t) (tasks s) \<noteq> None"
      using False unfolding lookupRow_None by (auto simp: duplicateKey_def rev_image_eqI)
    then show ?thesis using False mirrorsD(8) [OF m False] by simp
  qed (use row in \<open>auto simp: duplicateKey_def lookupRow_None rev_image_eqI\<close>)
  show ?thesis
  proof (cases "duplicateKey (taskArgs ?t) (tasks s)")
    case True
    then show ?thesis using m dup by (auto simp: call_defs fakeCreateTask_def CreateTask_def mirrors_def)
  next
    case False
    let ?f = "snd (fakeCall (CallCreate now t) f)" and ?s = "snd (storeCall acc busy (CallCreate now t) s)"
    have f: "fst (fakeCall (CallCreate now t) f) = OneTask (Some (taskView ?t))" "fs_Tasks ?f = fs_Tasks f @ [(t_ID t, ?t)]"
      "fs_Idem ?f = (if t_IDempotencyKey t \<noteq> '''' then aput (t_IDempotencyKey t) (t_ID t) (fs_Idem f) else fs_Idem f)" "fs_Workers ?f = fs_Workers f"
      using False dup new t by (auto simp: fakeCreateTask_def Let_def aput_new map_of_eq_None_iff)
    have s: "fst (storeCall acc busy (CallCreate now t) s) = OneTask (Some (taskView ?t))" "tasks ?s = tasks s @ [taskArgs ?t]" "workers ?s = workers s"
      using False by (simp_all add: CreateTask_def withTx_def Let_def)
    have "map_of (fs_Tasks f @ [(t_ID t, ?t)]) i = (if i = t_ID t then Some ?t else map_of (fs_Tasks f) i)" for i
      using new by (auto simp: map_add_def split: option.splits)
    moreover have "lookupRow c_id i (tasks s @ [taskArgs ?t]) = (if i = t_ID t then Some (taskArgs ?t) else lookupRow c_id i (tasks s))" for i
      using row by (auto simp: lookupRow_append split: option.splits)
    moreover have "map_of (fs_Idem ?f) k = map_option c_id (lookupRow c_idempotency_key k (tasks s @ [taskArgs ?t]))" if "k \<noteq> ''''" for k
      using mirrorsD(8) [OF m that] f(3) that False dup by (auto simp: lookupRow_append split: option.splits)
    ultimately have "mirrors (u \<union> {t_ID t}) ?f ?s"
      using mirrorsD [OF m] new row assms(2) unfolding mirrors_def f(2,4) s(2,3)
      by (auto simp: taskView_stored map_of_eq_None_iff lookupRow_None)
    then show ?thesis using f(1) s(1) by (simp add: agree_def)
  qed
qed

section \<open>Calls on many tasks\<close>

text \<open>A loop over ids that takes each task out of its test changes every task once.\<close>

lemma changeTasks_spec:
  assumes once: "\<And>t. P t \<Longrightarrow> \<not> P (f t)" and "changeTasks P f ids m = (out, m')"
  shows "map_of m' i = map_option (\<lambda>t. if i \<in> set ids \<and> P t then f t else t) (map_of m i)" "map fst m' = map fst m"
    "\<exists>js. distinct js \<and> set js = {i \<in> set ids. \<exists>t. map_of m i = Some t \<and> P t} \<and> out = map (\<lambda>i. f (the (map_of m i))) js"
proof -
  have "(\<forall>i. map_of m' i = map_option (\<lambda>t. if i \<in> set ids \<and> P t then f t else t) (map_of m i)) \<and> map fst m' = map fst m \<and>
    (\<exists>js. distinct js \<and> set js = {i \<in> set ids. \<exists>t. map_of m i = Some t \<and> P t} \<and> out = map (\<lambda>i. f (the (map_of m i))) js)"
    using assms(2)
  proof (induction ids arbitrary: m out)
    case Nil
    then show ?case by (simp add: option.map_ident)
  next
    case (Cons j ids)
    show ?case
    proof (cases "\<exists>t. map_of m j = Some t \<and> P t")
      case False
      then have "changeTasks P f ids m = (out, m')" using Cons.prems by (auto split: option.splits)
      from Cons.IH [OF this] obtain js where
        js: "\<forall>i. map_of m' i = map_option (\<lambda>t. if i \<in> set ids \<and> P t then f t else t) (map_of m i)" "map fst m' = map fst m"
          "distinct js" "set js = {i \<in> set ids. \<exists>t. map_of m i = Some t \<and> P t}" "out = map (\<lambda>i. f (the (map_of m i))) js" by blast
      have "map_of m' i = map_option (\<lambda>t. if i \<in> set (j # ids) \<and> P t then f t else t) (map_of m i)" for i
        using js(1) False by (cases "map_of m i") auto
      moreover have "set js = {i \<in> set (j # ids). \<exists>t. map_of m i = Some t \<and> P t}" using js(4) False by auto
      ultimately show ?thesis using js by blast
    next
      case True
      then obtain t where t: "map_of m j = Some t" "P t" by blast
      obtain out1 where c: "changeTasks P f ids (aput j (f t) m) = (out1, m')" "out = f t # out1"
        using Cons.prems t by (auto split: prod.splits)
      from Cons.IH [OF c(1)] obtain js where
        js: "\<forall>i. map_of m' i = map_option (\<lambda>t. if i \<in> set ids \<and> P t then f t else t) (map_of (aput j (f t) m) i)"
          "map fst m' = map fst (aput j (f t) m)" "distinct js"
          "set js = {i \<in> set ids. \<exists>x. map_of (aput j (f t) m) i = Some x \<and> P x}"
          "out1 = map (\<lambda>i. f (the (map_of (aput j (f t) m) i))) js" by blast
      have nj: "j \<notin> set js" using js(4) once [OF t(2)] by auto
      have "map_of m' i = map_option (\<lambda>t. if i \<in> set (j # ids) \<and> P t then f t else t) (map_of m i)" for i
        using js(1) t once [OF t(2)] by (cases "map_of m i") auto
      moreover have "map fst m' = map fst m" using js(2) aput_same(2) [OF t(1)] by simp
      moreover have "set (j # js) = {i \<in> set (j # ids). \<exists>t. map_of m i = Some t \<and> P t}" using js(4) t once [OF t(2)] by auto
      moreover have "out = map (\<lambda>i. f (the (map_of m i))) (j # js)"
        unfolding c(2) js(5) using nj t by (auto intro!: map_cong)
      ultimately show ?thesis using js(3) nj by (intro conjI allI exI [of _ "j # js"]) auto
    qed
  qed
  then show "map_of m' i = map_option (\<lambda>t. if i \<in> set ids \<and> P t then f t else t) (map_of m i)" "map fst m' = map fst m"
    "\<exists>js. distinct js \<and> set js = {i \<in> set ids. \<exists>t. map_of m i = Some t \<and> P t} \<and> out = map (\<lambda>i. f (the (map_of m i))) js"
    by blast+
qed

text \<open>The ids of the rows that pass a test are the ids of the fake's tasks that pass it.\<close>

lemma selected_ids:
  assumes "mirrors u f s" and "\<And>i t r. map_of (fs_Tasks f) i = Some t \<Longrightarrow> lookupRow c_id i (tasks s) = Some r \<Longrightarrow> taskView t = rowView r \<Longrightarrow> P i t = Q r"
  shows "c_id ` set (selectWhere Q (tasks s)) = {i. \<exists>t. map_of (fs_Tasks f) i = Some t \<and> P i t}"
proof -
  have "c_id ` set (selectWhere Q (tasks s)) = {i. \<exists>r. lookupRow c_id i (tasks s) = Some r \<and> Q r}"
    using lookupRow_unique [OF mirrorsD(2) [OF assms(1)]] by (force simp: set_selectWhere dest: lookupRow_Some)
  also have "\<dots> = {i. \<exists>t. map_of (fs_Tasks f) i = Some t \<and> P i t}"
  proof (rule Collect_cong)
    fix i
    show "(\<exists>r. lookupRow c_id i (tasks s) = Some r \<and> Q r) = (\<exists>t. map_of (fs_Tasks f) i = Some t \<and> P i t)"
      using assms(1) by (cases rule: mirrors_task [where i = i]) (use assms(2) in auto)
  qed
  finally show ?thesis .
qed

lemma mirrors_ID:
  assumes m: "mirrors u f s" and t: "map_of (fs_Tasks f) i = Some t"
  shows "t_ID t = i"
  using m
proof (cases rule: mirrors_task [where i = i])
  case (present t' r)
  then show ?thesis using t view_agrees(1) [OF present(3)] lookupRow_Some [OF present(2)] by simp
qed (use t in simp)

lemma selected_pairs:
  assumes m: "mirrors u f s"
    and "\<And>i t r. map_of (fs_Tasks f) i = Some t \<Longrightarrow> taskView t = rowView r \<Longrightarrow> P t = Q r \<and> x t = y r"
  shows "{(t_ID t, x t) | t. \<exists>i. map_of (fs_Tasks f) i = Some t \<and> P t} = (\<lambda>r. (c_id r, y r)) ` set (selectWhere Q (tasks s))"
proof -
  have "(i, z) \<in> {(t_ID t, x t) | t. \<exists>i. map_of (fs_Tasks f) i = Some t \<and> P t} \<longleftrightarrow> (\<exists>t. map_of (fs_Tasks f) i = Some t \<and> P t \<and> x t = z)" for i z
    using mirrors_ID [OF m] by auto
  moreover have "(i, z) \<in> (\<lambda>r. (c_id r, y r)) ` set (selectWhere Q (tasks s)) \<longleftrightarrow> (\<exists>r. lookupRow c_id i (tasks s) = Some r \<and> Q r \<and> y r = z)" for i z
    using lookupRow_unique [OF mirrorsD(2) [OF m]] by (force simp: set_selectWhere dest: lookupRow_Some)
  moreover have "(\<exists>t. map_of (fs_Tasks f) i = Some t \<and> P t \<and> x t = z) \<longleftrightarrow> (\<exists>r. lookupRow c_id i (tasks s) = Some r \<and> Q r \<and> y r = z)" for i z
    using m by (cases rule: mirrors_task [where i = i]) (use assms(2) in auto)
  ultimately show ?thesis by (simp add: set_eq_iff split_paired_all)
qed

text \<open>The entries of a map with distinct keys, read through the lookup.\<close>

lemma map_entries: "distinct (map fst m) \<Longrightarrow> h ` set (filter (\<lambda>e. P (snd e)) m) = {h (i, v) | i v. map_of m i = Some v \<and> P v}"
  by (force dest: map_of_SomeD map_of_is_SomeI)

lemma length_selected:
  assumes "mirrors u f s"
  shows "length (selectWhere Q (tasks s)) = card (c_id ` set (selectWhere Q (tasks s)))"
proof -
  have "distinct (map c_id (selectWhere Q (tasks s)))"
    using mirrorsD(2) [OF assms] by (simp add: selectWhere_def distinct_map_filter)
  then show ?thesis by (metis distinct_card length_map list.set_map)
qed

lemma agree_change:
  assumes m: "mirrors u f s" and once: "\<And>t. P t \<Longrightarrow> \<not> P (g t)" and c: "changeTasks P g ids (fs_Tasks f) = (out, m')"
    and both: "\<And>t r. taskView t = rowView r \<Longrightarrow> P t = Q r" "\<And>t r. taskView t = rowView r \<Longrightarrow> Q r \<Longrightarrow> taskView (g t) = rowView (h r)"
    and g: "\<And>t. t_Status (g t) \<noteq> StatusRunning"
    and h: "\<And>r. c_id (h r) = c_id r" "\<And>r. c_idempotency_key (h r) = c_idempotency_key r"
  shows "taskView ` set out = (\<lambda>r. rowView (h r)) ` set (selectWhere (\<lambda>r. c_id r \<in> set ids \<and> Q r) (tasks s))"
    "length out = length (selectWhere (\<lambda>r. c_id r \<in> set ids \<and> Q r) (tasks s))"
    "tasks s' = updateWhere (\<lambda>r. c_id r \<in> set ids \<and> Q r) h (tasks s) \<Longrightarrow> workers s' = workers s \<Longrightarrow> mirrors u (f\<lparr>fs_Tasks := m'\<rparr>) s'"
proof -
  note sp = changeTasks_spec [OF once c]
  obtain js where js: "distinct js" "set js = {i \<in> set ids. \<exists>t. map_of (fs_Tasks f) i = Some t \<and> P t}"
    "out = map (\<lambda>i. g (the (map_of (fs_Tasks f) i))) js" using sp(3) by blast
  have sel: "c_id ` set (selectWhere (\<lambda>r. c_id r \<in> set ids \<and> Q r) (tasks s)) = set js"
    by (subst selected_ids [OF m, where P = "\<lambda>i t. i \<in> set ids \<and> P t"]) (use both(1) js(2) in \<open>auto dest: lookupRow_Some\<close>)
  show "length out = length (selectWhere (\<lambda>r. c_id r \<in> set ids \<and> Q r) (tasks s))"
    unfolding length_selected [OF m] sel js(3) by (simp add: distinct_card [OF js(1)])
  have "taskView (g (the (map_of (fs_Tasks f) (c_id r)))) = rowView (h r)"
    if r: "r \<in> set (selectWhere (\<lambda>r. c_id r \<in> set ids \<and> Q r) (tasks s))" for r
  proof -
    have "lookupRow c_id (c_id r) (tasks s) = Some r" using r by (intro lookupRow_unique [OF mirrorsD(2) [OF m]]) (simp add: set_selectWhere)
    with m show ?thesis by (cases rule: mirrors_task [where i = "c_id r"]) (use r both(2) in \<open>auto simp: set_selectWhere\<close>)
  qed
  then show "taskView ` set out = (\<lambda>r. rowView (h r)) ` set (selectWhere (\<lambda>r. c_id r \<in> set ids \<and> Q r) (tasks s))"
    unfolding js(3) list.set_map sel [symmetric] image_image by (rule image_cong [OF refl])
  show "mirrors u (f\<lparr>fs_Tasks := m'\<rparr>) s'" if "tasks s' = updateWhere (\<lambda>r. c_id r \<in> set ids \<and> Q r) h (tasks s)" "workers s' = workers s"
    by (rule mirrors_update [OF m _ _ _ _ that h, where P = "\<lambda>i t. i \<in> set ids \<and> P t" and g = g])
      (use sp(1,2) both g in \<open>auto dest: lookupRow_Some\<close>)
qed

lemma agree_markReady:
  assumes m: "mirrors u f s"
  shows "agree acc busy u (CallMarkReady ids now) f s"
proof -
  let ?g = "\<lambda>t. t\<lparr>t_Status := StatusReady, t_UpdatedAt := now\<rparr>"
  obtain out m' where c: "changeTasks (fakeDue now) ?g ids (fs_Tasks f) = (out, m')" by fastforce
  have once: "\<not> fakeDue now (?g t)" for t by (simp add: fakeDue_def)
  have due: "fakeDue now t = dueRow now r" if "taskView t = rowView r" for t r
    using view_agrees [OF that] by (auto simp: fakeDue_def dueRow_def split: option.splits)
  have v: "taskView (?g t) = rowView (readyRow now r)" if "taskView t = rowView r" for t r
    using that by (simp add: readyRow_def view_simps)
  note a = agree_change [OF m once c due v]
  have "tasks (snd (MarkReadyByIDs (onClock now) ids now s)) = updateWhere (\<lambda>r. c_id r \<in> set ids \<and> dueRow now r) (readyRow now) (tasks s)"
    "workers (snd (MarkReadyByIDs (onClock now) ids now s)) = workers s"
    by (cases "ids = []"; simp add: MarkReadyByIDs_def withTx_def Let_def updateWhere_none)+
  then have "mirrors u (f\<lparr>fs_Tasks := m'\<rparr>) (snd (MarkReadyByIDs (onClock now) ids now s))"
    by (intro a(3)) simp_all
  moreover have "taskView ` set out = (\<lambda>r. rowView (readyRow now r)) ` set (selectWhere (\<lambda>r. c_id r \<in> set ids \<and> dueRow now r) (tasks s))"
    "length out = length (selectWhere (\<lambda>r. c_id r \<in> set ids \<and> dueRow now r) (tasks s))"
    by (rule a; simp add: readyRow_def)+
  moreover have "fakeMarkReadyByIDs ids now f = (out, f\<lparr>fs_Tasks := m'\<rparr>)" by (simp add: fakeMarkReadyByIDs_def c)
  ultimately show ?thesis
    by (cases "ids = []") (auto simp: call_defs MarkReadyByIDs_def manyAnswer_def image_image o_def selectWhere_def)
qed

lemma agree_retryDead:
  assumes m: "mirrors u f s" and busy: "\<not> busy"
  shows "agree acc busy u (CallRetryDead now ids) f s"
proof -
  let ?g = "\<lambda>t. t\<lparr>t_Status := StatusReady, t_LastError := '''', t_ErrCategory := '''', t_FinishedAt := None, t_ExecuteAfter := None, t_UpdatedAt := now\<rparr>"
  obtain out m' where c: "changeTasks (\<lambda>t. t_Status t = StatusDead) ?g ids (fs_Tasks f) = (out, m')" by fastforce
  have once: "t_Status (?g t) \<noteq> StatusDead" for t by simp
  have dead: "(t_Status t = StatusDead) = (c_status r = StatusDead)" if "taskView t = rowView r" for t r
    using view_agrees(2) [OF that] by simp
  have v: "taskView (?g t) = rowView (retryDeadRow now r)" if "taskView t = rowView r" for t r
    using that by (simp add: retryDeadRow_def view_simps)
  note a = agree_change [OF m once c dead v]
  have "mirrors u (f\<lparr>fs_Tasks := m'\<rparr>) (snd (RetryDead busy (onClock now) ids s))"
    by (rule a(3)) (use busy in \<open>simp_all add: RetryDead_def withTx_def Let_def\<close>)
  moreover have "taskView ` set out = (\<lambda>r. rowView (retryDeadRow now r)) ` set (selectWhere (\<lambda>r. c_id r \<in> set ids \<and> c_status r = StatusDead) (tasks s))"
    "length out = length (selectWhere (\<lambda>r. c_id r \<in> set ids \<and> c_status r = StatusDead) (tasks s))"
    by (rule a; simp add: retryDeadRow_def)+
  ultimately show ?thesis using busy by (simp add: call_defs fakeRetryDead_def RetryDead_def c manyAnswer_def image_image o_def)
qed

lemma agree_discardDead:
  assumes m: "mirrors u f s"
  shows "agree acc busy u (CallDiscardDead now ids) f s"
proof -
  let ?g = "\<lambda>t. t\<lparr>t_Status := StatusCanceled\<rparr>" and ?h = "\<lambda>r. r\<lparr>c_status := StatusCanceled, c_updated_at := now\<rparr>"
  obtain out m' where c: "changeTasks (\<lambda>t. t_Status t = StatusDead) ?g ids (fs_Tasks f) = (out, m')" by fastforce
  have once: "t_Status (?g t) \<noteq> StatusDead" for t by simp
  have dead: "(t_Status t = StatusDead) = (c_status r = StatusDead)" if "taskView t = rowView r" for t r
    using view_agrees(2) [OF that] by simp
  have v: "taskView (?g t) = rowView (?h r)" if "taskView t = rowView r" for t r using that by (simp add: view_simps)
  note a = agree_change [OF m once c dead v]
  have "mirrors u (f\<lparr>fs_Tasks := m'\<rparr>) (snd (DiscardDead (onClock now) ids s))"
    by (rule a(3)) (simp_all add: DiscardDead_def withTx_def Let_def)
  moreover have "length out = length (selectWhere (\<lambda>r. c_id r \<in> set ids \<and> c_status r = StatusDead) (tasks s))" by (rule a; simp)
  ultimately show ?thesis by (simp add: call_defs fakeDiscardDead_def DiscardDead_def c)
qed

lemma agree_countDead:
  assumes m: "mirrors u f s"
  shows "agree acc busy u CallCountDead f s"
proof -
  have d: "distinct (map fst (filter (\<lambda>e. t_Status (snd e) = StatusDead) (fs_Tasks f)))"
    using mirrorsD(1) [OF m] by (simp add: distinct_map_filter)
  have "c_id ` set (selectWhere (\<lambda>r. c_status r = StatusDead) (tasks s)) = {i. \<exists>t. map_of (fs_Tasks f) i = Some t \<and> t_Status t = StatusDead}"
    by (rule selected_ids [OF m]) (metis view_agrees(2))
  also have "\<dots> = set (map fst (filter (\<lambda>e. t_Status (snd e) = StatusDead) (fs_Tasks f)))"
    unfolding list.set_map map_entries [OF mirrorsD(1) [OF m], where P = "\<lambda>t. t_Status t = StatusDead"] by simp
  finally have "length (selectWhere (\<lambda>r. c_status r = StatusDead) (tasks s)) = fakeCountDead f"
    unfolding length_selected [OF m] using distinct_card [OF d] by (simp add: fakeCountDead_def)
  then show ?thesis using m by (simp add: call_defs CountDead_def)
qed

lemma agree_listPending:
  assumes m: "mirrors u f s"
  shows "agree acc busy u CallListPending f s"
proof -
  have "(\<lambda>e. (t_ID (snd e), t_ExecuteAfter (snd e))) ` set (filter (\<lambda>e. t_Status (snd e) = StatusPending) (fs_Tasks f)) =
      {(t_ID t, t_ExecuteAfter t) | t. \<exists>i. map_of (fs_Tasks f) i = Some t \<and> t_Status t = StatusPending}"
    by (subst map_entries [OF mirrorsD(1) [OF m]]) auto
  also have "\<dots> = (\<lambda>r. (c_id r, c_execute_after r)) ` set (selectWhere (\<lambda>r. c_status r = StatusPending) (tasks s))"
    by (rule selected_pairs [OF m]) (metis view_agrees(2,5))
  finally show ?thesis using m by (simp add: call_defs fakeListPending_def ListPending_def waitingAnswer_def image_image)
qed

section \<open>Workers and reclaiming\<close>

lemma reclaimLoop_spec:
  assumes "distinct ids" "reclaimLoop now ts ids f = (out, f')"
  shows "(\<forall>i. map_of (fs_Tasks f') i = map_option (\<lambda>t. if i \<in> set ids then fakeFree now t else t) (map_of (fs_Tasks f) i)) \<and>
    map fst (fs_Tasks f') = map fst (fs_Tasks f) \<and> fs_Idem f' = fs_Idem f \<and> fs_Workers f' = fs_Workers f \<and>
    (\<lambda>v. (t_ID (rc_Task v), rc_OldWorker v)) ` set out = {(t_ID t, t_WorkerID t) | t. \<exists>i \<in> set ids. map_of (fs_Tasks f) i = Some t}"
  using assms
proof (induction ids arbitrary: f out)
  case Nil
  then show ?case by (simp add: option.map_ident)
next
  case (Cons j ids)
  show ?case
  proof (cases "map_of (fs_Tasks f) j")
    case None
    then have c: "reclaimLoop now ts ids f = (out, f')" using Cons.prems(2) by simp
    have "map_option (\<lambda>t. if i \<in> set ids then fakeFree now t else t) (map_of (fs_Tasks f) i) =
        map_option (\<lambda>t. if i \<in> set (j # ids) then fakeFree now t else t) (map_of (fs_Tasks f) i)" for i
      using None by (cases "map_of (fs_Tasks f) i") auto
    then show ?thesis using Cons.IH [OF _ c] Cons.prems(1) None by auto
  next
    case (Some t)
    define f1 where "f1 = closeOpen (\<lambda>a. a\<lparr>a_EndedAt := Some ts, a_Status := AttTimeout, a_Error := ''lease expired / worker lost'',
      a_ErrCategory := ''timeout''\<rparr>) j (f\<lparr>fs_Tasks := aput j (fakeFree now t) (fs_Tasks f)\<rparr>)"
    have f1: "fs_Tasks f1 = aput j (fakeFree now t) (fs_Tasks f)" "fs_Idem f1 = fs_Idem f" "fs_Workers f1 = fs_Workers f"
      by (simp_all add: f1_def)
    obtain v out1 where c: "reclaimLoop now ts ids f1 = (out1, f')" "out = v # out1" "rc_Task v = fakeFree now t" "rc_OldWorker v = t_WorkerID t"
      using Cons.prems(2) Some by (auto simp: Let_def f1_def [symmetric] split: prod.splits)
    have "map_of (fs_Tasks f1) i = map_of (fs_Tasks f) i" if "i \<in> set ids" for i using that Cons.prems(1) f1(1) by auto
    then have "{(t_ID t, t_WorkerID t) | t. \<exists>i \<in> set ids. map_of (fs_Tasks f1) i = Some t} =
        {(t_ID t, t_WorkerID t) | t. \<exists>i \<in> set ids. map_of (fs_Tasks f) i = Some t}" by auto
    then have "(\<lambda>v. (t_ID (rc_Task v), rc_OldWorker v)) ` set out = {(t_ID t, t_WorkerID t) | t. \<exists>i \<in> set (j # ids). map_of (fs_Tasks f) i = Some t}"
      using Cons.IH [OF _ c(1)] Cons.prems(1) Some c(2-) by (auto simp: fakeFree_def)
    moreover have "map_of (fs_Tasks f') i = map_option (\<lambda>t. if i \<in> set (j # ids) then fakeFree now t else t) (map_of (fs_Tasks f) i)" for i
      using Cons.IH [OF _ c(1)] Cons.prems(1) Some f1(1) by (cases "i = j") auto
    ultimately show ?thesis using Cons.IH [OF _ c(1)] Cons.prems(1) f1 aput_same(2) [OF Some] by simp
  qed
qed

lemma agree_reclaim:
  assumes m: "mirrors u f s" and acc: "acc (selectItems (prefixedColumns ''t''))"
  shows "agree acc busy u (CallReclaim now ts) f s"
proof -
  let ?ids = "sort (map fst (filter (\<lambda>e. fakeExpired now f (snd e)) (fs_Tasks f)))"
  let ?Q = "\<lambda>r. c_status r = StatusRunning \<and> (leaseExpired now r \<or> workerLost (workers s) (c_worker_id r))"
  obtain out f' where c: "reclaimLoop now ts ?ids f = (out, f')" by fastforce
  have d: "distinct ?ids" using mirrorsD(1) [OF m] by (simp add: distinct_map_filter)
  note sp = reclaimLoop_spec [OF d c]
  have ids: "set ?ids = {i. \<exists>t. map_of (fs_Tasks f) i = Some t \<and> fakeExpired now f t}"
    unfolding set_sort list.set_map map_entries [OF mirrorsD(1) [OF m], where P = "fakeExpired now f"] by simp
  have lost: "fakeOffline f w = workerLost (workers s) w" if "w \<noteq> ''''" for w
    using mirrorsD(7) [OF m, of w] that by (auto simp: fakeOffline_def workerLost_def workerView_def split: option.splits)
  have ex: "fakeExpired now f t = ?Q r" if "map_of (fs_Tasks f) i = Some t" "taskView t = rowView r" for i t r
    using view_agrees [OF that(2)] mirrorsD(9) [OF m that(1)] lost [of "c_worker_id r"]
    by (auto simp: fakeExpired_def leaseExpired_def split: option.splits)
  have vs: "(t_ID \<circ> rc_Task) ` set (victims now s) = set ?ids"
  proof -
    have "(t_ID \<circ> rc_Task) ` set (victims now s) = c_id ` set (selectWhere ?Q (tasks s))"
      by (simp add: victims_def image_image o_def)
    also have "\<dots> = {i. \<exists>t. map_of (fs_Tasks f) i = Some t \<and> fakeExpired now f t}" by (rule selected_ids [OF m]) (rule ex)
    finally show ?thesis unfolding ids .
  qed
  have "mirrors u f' (fold (reclaimOne (onClock ts)) (victims now s) s)"
    by (rule mirrors_update [OF m _ _ _ _ fold_reclaimOne(1,3), where P = "\<lambda>i t. i \<in> set ?ids" and g = "fakeFree now"])
      (use sp vs in \<open>auto simp: fakeFree_def freeRow_def view_simps dest!: lookupRow_Some\<close>)
  moreover have "{(t_ID t, t_WorkerID t) | t. \<exists>i \<in> set ?ids. map_of (fs_Tasks f) i = Some t} =
      (\<lambda>v. (t_ID (rc_Task v), rc_OldWorker v)) ` set (victims now s)"
  proof -
    have "{(t_ID t, t_WorkerID t) | t. \<exists>i \<in> set ?ids. map_of (fs_Tasks f) i = Some t} =
        {(t_ID t, t_WorkerID t) | t. \<exists>i. map_of (fs_Tasks f) i = Some t \<and> fakeExpired now f t}" unfolding ids by auto
    also have "\<dots> = (\<lambda>r. (c_id r, c_worker_id r)) ` set (selectWhere ?Q (tasks s))"
      by (rule selected_pairs [OF m]) (use ex view_agrees(3) in blast)
    finally show ?thesis by (simp add: victims_def image_image)
  qed
  ultimately show ?thesis using c sp acc by (simp add: call_defs fakeReclaimExpired_def ReclaimExpired_def takenAnswer_def)
qed

text \<open>The worker operations leave the tasks alone and change the same workers.\<close>

lemma mirrors_workers:
  assumes "mirrors u f s" "tasks s' = tasks s" "fs_Tasks f' = fs_Tasks f" "fs_Idem f' = fs_Idem f"
    "distinct (map fst (fs_Workers f'))" "distinct (map w_ID (workers s'))"
    "\<And>i. map_option workerView (map_of (fs_Workers f') i) = map_option workerView (lookupRow w_ID i (workers s'))"
  shows "mirrors u f' s'"
  using assms unfolding mirrors_def by simp

lemma mirrors_worker:
  assumes "mirrors u f s"
  obtains (missing) "map_of (fs_Workers f) i = None" "lookupRow w_ID i (workers s) = None"
  | (present) v w where "map_of (fs_Workers f) i = Some v" "lookupRow w_ID i (workers s) = Some w" "workerView v = workerView w"
  using mirrorsD(7) [OF assms, of i]
  by (cases "map_of (fs_Workers f) i"; cases "lookupRow w_ID i (workers s)") auto

lemma distinct_updated: "distinct (map w_ID ws) \<Longrightarrow> (\<And>w. w_ID (h w) = w_ID w) \<Longrightarrow> distinct (map w_ID (updateWhere P h ws))"
  by (simp add: map_key_updateWhere)

lemma agree_sweep:
  assumes m: "mirrors u f s"
  shows "agree acc busy u (CallSweep cutoff) f s"
proof -
  let ?P = "\<lambda>w. w_Status w \<noteq> Offline \<and> w_LastHeartbeat w < cutoff"
  have mo: "map_of (map (\<lambda>(i, w). (i, if ?P w then w\<lparr>w_Status := Offline\<rparr> else w)) ws) i =
      map_option (\<lambda>w. if ?P w then w\<lparr>w_Status := Offline\<rparr> else w) (map_of ws i)" for ws i
    by (subst map_of_map) simp
  have same: "?P v = ?P w" if "workerView v = workerView w" for v w using that by (auto simp: workerView_def)
  have "mirrors u (snd (fakeCall (CallSweep cutoff) f)) (snd (storeCall acc busy (CallSweep cutoff) s))"
  proof (rule mirrors_workers [OF m])
    show "map_option workerView (map_of (fs_Workers (snd (fakeCall (CallSweep cutoff) f))) i) =
        map_option workerView (lookupRow w_ID i (workers (snd (storeCall acc busy (CallSweep cutoff) s))))" for i
      using m
    proof (cases rule: mirrors_worker [where i = i])
      case missing
      then show ?thesis by (simp add: call_defs fakeMarkWorkersOffline_def MarkWorkersOffline_def mo lookupRow_updateWhere)
    next
      case (present v w)
      have "workerView (if ?P v then v\<lparr>w_Status := Offline\<rparr> else v) = workerView (if ?P w then w\<lparr>w_Status := Offline\<rparr> else w)"
        unfolding same [OF present(3)] using present(3) by (cases "?P w") (simp_all add: workerView_def)
      then show ?thesis using present(1,2)
        by (simp add: call_defs fakeMarkWorkersOffline_def MarkWorkersOffline_def mo lookupRow_updateWhere)
    qed
  qed (use mirrorsD(3,4) [OF m] in \<open>simp_all add: call_defs fakeMarkWorkersOffline_def MarkWorkersOffline_def distinct_updated o_def split_def\<close>)
  moreover have "fst ` set (filter (\<lambda>e. ?P (snd e)) (fs_Workers f)) = w_ID ` set (selectWhere ?P (workers s))"
  proof -
    have "fst ` set (filter (\<lambda>e. ?P (snd e)) (fs_Workers f)) = {i. \<exists>v. map_of (fs_Workers f) i = Some v \<and> ?P v}"
      unfolding map_entries [OF mirrorsD(3) [OF m], where P = ?P] by simp
    also have "\<dots> = {i. \<exists>w. lookupRow w_ID i (workers s) = Some w \<and> ?P w}"
    proof (rule Collect_cong)
      show "(\<exists>v. map_of (fs_Workers f) i = Some v \<and> ?P v) = (\<exists>w. lookupRow w_ID i (workers s) = Some w \<and> ?P w)" for i
        using m
      proof (cases rule: mirrors_worker [where i = i])
        case (present v w)
        then show ?thesis using same [OF present(3)] by simp
      qed simp
    qed
    also have "\<dots> = w_ID ` set (selectWhere ?P (workers s))"
      using lookupRow_unique [OF mirrorsD(4) [OF m]] by (force simp: set_selectWhere dest: lookupRow_Some)
    finally show ?thesis .
  qed
  ultimately show ?thesis by (simp add: call_defs fakeMarkWorkersOffline_def MarkWorkersOffline_def)
qed

lemma agree_drain:
  assumes m: "mirrors u f s"
  shows "agree acc busy u (CallDrain j) f s"
proof -
  have "mirrors u (snd (fakeCall (CallDrain j) f)) (snd (storeCall acc busy (CallDrain j) s))"
  proof (rule mirrors_workers [OF m])
    show "map_option workerView (map_of (fs_Workers (snd (fakeCall (CallDrain j) f))) i) =
        map_option workerView (lookupRow w_ID i (workers (snd (storeCall acc busy (CallDrain j) s))))" for i
      using m by (cases rule: mirrors_worker [where i = i])
        (auto simp: call_defs fakeMarkWorkerDraining_def MarkWorkerDraining_def lookupRow_updateWhere workerView_def dest: lookupRow_Some)
  qed (use mirrorsD(3,4) [OF m] in \<open>simp_all add: call_defs fakeMarkWorkerDraining_def MarkWorkerDraining_def distinct_updated\<close>)
  then show ?thesis by (simp add: call_defs MarkWorkerDraining_def)
qed

text \<open>A worker that registers: replaced when both have it, appended when neither has.\<close>

lemma mirrors_registered:
  assumes m: "mirrors u f s" and "tasks s' = tasks s" "fs_Tasks f' = fs_Tasks f" "fs_Idem f' = fs_Idem f"
    and f: "fs_Workers f' = aput j v (fs_Workers f)"
    and s: "workers s' = (if lookupRow w_ID j (workers s) = None then workers s @ [w] else updateWhere (\<lambda>x. w_ID x = j) h (workers s))"
    and h: "\<And>x. w_ID (h x) = w_ID x" "w_ID w = j"
    and new: "lookupRow w_ID j (workers s) = None \<Longrightarrow> workerView v = workerView w"
    and old: "\<And>x. lookupRow w_ID j (workers s) = Some x \<Longrightarrow> workerView v = workerView (h x)"
  shows "mirrors u f' s'"
proof (rule mirrors_workers [OF m assms(2-4)])
  show "distinct (map fst (fs_Workers f'))" unfolding f using mirrorsD(3) [OF m] by (rule distinct_aput)
  show "distinct (map w_ID (workers s'))" unfolding s using mirrorsD(4) [OF m]
    by (auto simp: distinct_updated h lookupRow_None)
  fix i
  have "lookupRow w_ID i (workers s') = (if i = j then Some (case lookupRow w_ID j (workers s) of None \<Rightarrow> w | Some x \<Rightarrow> h x) else lookupRow w_ID i (workers s))"
    unfolding s using h(2) by (auto simp: lookupRow_append lookupRow_updateWhere [of w_ID h, OF h(1)] dest!: lookupRow_Some split: option.splits)
  then show "map_option workerView (map_of (fs_Workers f') i) = map_option workerView (lookupRow w_ID i (workers s'))"
    using mirrorsD(7) [OF m, of i] new old unfolding f by (auto split: option.splits)
qed

lemma agree_upsert:
  assumes m: "mirrors u f s" and ok: "mirrored acc busy (CallUpsertWorker now w) u"
  shows "agree acc busy u (CallUpsertWorker now w) f s"
proof -
  let ?w = "upsertDefaults now w"
  have w: "w_ID ?w = w_ID w" "w_Status ?w = w_Status w" "w_LastHeartbeat ?w = w_LastHeartbeat w"
    using ok by (auto simp: upsertDefaults_def Let_def)
  let ?v = "case map_of (fs_Workers f) (w_ID w) of None \<Rightarrow> w
    | Some c \<Rightarrow> c\<lparr>w_TotalSlots := w_TotalSlots w, w_Capabilities := w_Capabilities w,
        w_Status := (if w_Status c = Offline then Online else w_Status c),
        w_LastHeartbeat := (if w_LastHeartbeat w > w_LastHeartbeat c then w_LastHeartbeat w else w_LastHeartbeat c)\<rparr>"
  have f: "fs_Workers (fakeUpsertWorker now w f) = aput (w_ID w) ?v (fs_Workers f)"
    using ok by (auto simp: fakeUpsertWorker_def Let_def split: option.splits)
  have "mirrors u (fakeUpsertWorker now w f) (snd (UpsertWorker (onClock now) w s))"
  proof (rule mirrors_registered [OF m _ _ _ f, where w = "?w" and h = "conflictUpdate ?w"])
    show "workerView ?v = workerView ?w" if "lookupRow w_ID (w_ID w) (workers s) = None"
      using mirrorsD(7) [OF m, of "w_ID w"] that w by (simp add: workerView_def)
    show "workerView ?v = workerView (conflictUpdate ?w x)" if x: "lookupRow w_ID (w_ID w) (workers s) = Some x" for x
      using mirrorsD(7) [OF m, of "w_ID w"] x w ok by (auto simp: workerView_def conflictUpdate_def max_def)
  qed (auto simp: call_defs UpsertWorker_def fakeUpsertWorker_def w conflictUpdate_def split: option.splits)
  then show ?thesis by (simp add: call_defs UpsertWorker_def)
qed

lemma agree_heartbeat:
  assumes m: "mirrors u f s"
  shows "agree acc busy u (CallHeartbeat now w) f s"
proof -
  let ?h = "\<lambda>x. x\<lparr>w_LastHeartbeat := now, w_UsedSlots := w_UsedSlots w, w_CurrentTaskIDs := w_CurrentTaskIDs w, w_Status := Online\<rparr>"
  let ?w = "upsertDefaults now (w\<lparr>w_LastHeartbeat := now\<rparr>)"
  have w: "w_ID ?w = w_ID w" "w_Status ?w = w_Status w" "w_LastHeartbeat ?w = now" by (simp_all add: upsertDefaults_def Let_def)
  let ?v = "case map_of (fs_Workers f) (w_ID w) of None \<Rightarrow> w\<lparr>w_LastHeartbeat := now\<rparr> | Some c \<Rightarrow> ?h c"
  have f: "fs_Workers (fakeHeartbeat now w f) = aput (w_ID w) ?v (fs_Workers f)"
    by (simp add: fakeHeartbeat_def split: option.splits)
  have n: "length (selectWhere (\<lambda>x. w_ID x = w_ID w) (workers s)) = 0 \<longleftrightarrow> lookupRow w_ID (w_ID w) (workers s) = None"
    by (auto simp: lookupRow_None selectWhere_def filter_empty_conv rev_image_eqI)
  have none: "updateWhere (\<lambda>x. w_ID x = w_ID w) ?h (workers s) = workers s" if "lookupRow w_ID (w_ID w) (workers s) = None"
    using that unfolding lookupRow_None by (intro updateWhere_none) (metis imageI)
  have hb: "Heartbeat (onClock now) (onClock now) w s = (Inr (), s\<lparr>workers :=
      (if lookupRow w_ID (w_ID w) (workers s) = None then workers s @ [?w] else updateWhere (\<lambda>x. w_ID x = w_ID w) ?h (workers s))\<rparr>)"
    using n none by (simp add: Heartbeat_def UpsertWorker_def poolExec_def withTx_def Let_def w)
  have "mirrors u (fakeHeartbeat now w f) (snd (Heartbeat (onClock now) (onClock now) w s))"
  proof (rule mirrors_registered [OF m _ _ _ f, where w = "?w" and h = ?h])
    show "workerView ?v = workerView ?w" if "lookupRow w_ID (w_ID w) (workers s) = None"
      using mirrorsD(7) [OF m, of "w_ID w"] that w by (simp add: workerView_def)
    show "workerView ?v = workerView (?h x)" if "lookupRow w_ID (w_ID w) (workers s) = Some x" for x
      using mirrorsD(7) [OF m, of "w_ID w"] that by (auto simp: workerView_def)
  qed (simp_all add: hb fakeHeartbeat_def w split: option.splits)
  then show ?thesis by (simp add: agree_def hb)
qed

section \<open>Runs of calls\<close>

lemma agree_all: "mirrors u f s \<Longrightarrow> mirrored acc busy x u \<Longrightarrow> agree acc busy u x f s"
  by (cases x) (simp_all add: agree_create agree_get agree_getByIdem agree_begin agree_renew agree_complete agree_preempt
    agree_markReady agree_reclaim agree_retryDead agree_discardDead agree_countDead agree_listPending agree_cancel agree_link
    agree_upsert agree_heartbeat agree_drain agree_sweep)

interpretation stores: mirror fakeCall "storeCall acc busy" "mirrored acc busy" takenIDs mirrors for acc busy
  by unfold_locales (use agree_all in \<open>auto simp: agree_def\<close>)

section \<open>Sample data\<close>

definition sampleRun :: "StoreCall list" where
  "sampleRun = [CallUpsertWorker 5 (sampleWorker ''w'' Online 5), CallCreate 10 ((sampleTask ''a'')\<lparr>t_IDempotencyKey := ''k''\<rparr>),
     CallCreate 11 ((sampleTask ''b'')\<lparr>t_IDempotencyKey := ''k''\<rparr>), CallBegin 12 ''a'' ''w'' 90, CallBegin 12 ''a'' ''v'' 90,
     CallRenew ''a'' ''v'' 99, CallSweep 20, CallPreempt 21 ''a'', CallBegin 22 ''a'' ''w'' 90, CallComplete 30 sampleResult,
     CallCancel 31 ''a'', CallGetByIdem ''k'']"

section \<open>Properties\<close>

text \<open>
  C29: within its limits the fake store mirrors the compare-and-swap semantics of the Postgres store. Take a sequence of calls
  in which every call is \<open>mirrored\<close>: a new task has an id not used before, a retry policy and a retry limit of its own and is not
  running; keys that are looked up and workers that lease are not empty; a worker registers with a heartbeat time and not as
  offline; \<open>ReclaimExpired\<close> is called only if the server accepts its statement and \<open>RetryDead\<close> only if the driver lets it
  through. Started empty and with no fault, both stores then give the same answers: the same
  submissions refused, the same attempts, leases and completions accepted and with the same outcome, the same tasks made ready,
  reclaimed, retried or discarded, the same workers swept, and every task returned with the same view.
\<close>

theorem fake_store_mirrors:
  assumes "fitRun (mirrored acc busy) takenIDs calls {}"
  shows "fst (runCalls fakeCall calls NewFakeStore) = fst (runCalls (storeCall acc busy) calls emptyDb)"
  using stores.run_same [OF mirrors_empty assms] by blast

theorem fake_store_mirrors_witness:
  "fst (runCalls fakeCall sampleRun NewFakeStore) = fst (runCalls (storeCall (\<lambda>_. False) True) sampleRun emptyDb) \<and>
   map (\<lambda>a. case a of Refused e \<Rightarrow> Some e | _ \<Rightarrow> None) (fst (runCalls fakeCall sampleRun NewFakeStore)) =
     [None, None, Some ErrConflict, None, Some ErrConflict, None, None, None, None, None, Some ErrConflict, None]"
proof
  show "fst (runCalls fakeCall sampleRun NewFakeStore) = fst (runCalls (storeCall (\<lambda>_. False) True) sampleRun emptyDb)"
    by (rule fake_store_mirrors) code_simp
  show "map (\<lambda>a. case a of Refused e \<Rightarrow> Some e | _ \<Rightarrow> None) (fst (runCalls fakeCall sampleRun NewFakeStore)) =
     [None, None, Some ErrConflict, None, Some ErrConflict, None, None, None, None, None, Some ErrConflict, None]"
    by code_simp
qed

text \<open>
  Outside \<open>mirrored\<close> the two part: a task whose id is taken leaves its idempotency key behind in
  the fake, which then answers a lookup of that key with the other task; and a second registration
  without a heartbeat time is a heartbeat for Postgres only. On a server that rejects the statement of \<open>ReclaimExpired\<close> the
  fake takes back a task that Postgres leaves running.
\<close>

lemma fake_keeps_refused_key:
  "fst (runCalls fakeCall [CallCreate 10 (sampleTask ''a''), CallCreate 11 ((sampleTask ''a'')\<lparr>t_IDempotencyKey := ''k''\<rparr>), CallGetByIdem ''k'']
     NewFakeStore) = [OneTask (Some (taskView (sampleTask ''a''))), Refused ErrConflict, OneTask (Some (taskView (sampleTask ''a'')))]"
  "fst (runCalls (storeCall acc busy) [CallCreate 10 (sampleTask ''a''), CallCreate 11 ((sampleTask ''a'')\<lparr>t_IDempotencyKey := ''k''\<rparr>), CallGetByIdem ''k'']
     emptyDb) = [OneTask (Some (taskView (sampleTask ''a''))), Refused ErrConflict, OneTask None]"
  by code_simp+

lemma fake_ignores_registration_time:
  "fst (runCalls fakeCall [CallUpsertWorker 5 (sampleWorker ''w'' Online 5), CallUpsertWorker 50 ((sampleWorker ''w'' Online 5)\<lparr>w_LastHeartbeat := zeroTime\<rparr>), CallSweep 40]
     NewFakeStore) = [Fine, Fine, Gone {''w''}]"
  "fst (runCalls (storeCall acc busy) [CallUpsertWorker 5 (sampleWorker ''w'' Online 5), CallUpsertWorker 50 ((sampleWorker ''w'' Online 5)\<lparr>w_LastHeartbeat := zeroTime\<rparr>), CallSweep 40]
     emptyDb) = [Fine, Fine, Gone {}]"
  by code_simp+

lemma fake_reclaims_alone:
  "fst (runCalls fakeCall [CallCreate 10 (sampleTask ''a''), CallBegin 12 ''a'' ''w'' 20, CallReclaim 30 30, CallBegin 31 ''a'' ''v'' 90] NewFakeStore) ! 2 =
     Taken {(''a'', ''w'')}"
  "\<exists>e. fst (runCalls (storeCall (\<lambda>_. False) busy) [CallCreate 10 (sampleTask ''a''), CallBegin 12 ''a'' ''w'' 20, CallReclaim 30 30, CallBegin 31 ''a'' ''v'' 90]
     emptyDb) ! 3 = Refused e"
  by code_simp (intro exI [of _ ErrConflict], code_simp)

end
