(* ===== verification/Fake_Exec.thy ===== *)
theory Fake_Exec
  imports Fake_Sim Executors
begin

text \<open>
  \<open>internal/testutil/fakeexec.go\<close>: the executor the scheduler's tests hand out. It implements the
  interface \<open>slot_executor\<close> as the two real executors do, and its slots answer as those of an
  external worker do (another instance of \<open>mirror\<close>).
\<close>

section \<open>The fake executor\<close>

record FakeExec =
  fe_id :: string
  fe_slots :: int
  fe_used :: "string list"
  fe_running :: "(string, Task) amap"
  fe_delivered :: "string list"
  fe_preempted :: "string list"
  fe_caps :: "string list"
  fe_online :: bool

definition NewFakeExec :: "string \<Rightarrow> int \<Rightarrow> string list \<Rightarrow> FakeExec" where
  "NewFakeExec i slots caps =
     \<lparr>fe_id = i, fe_slots = slots, fe_used = [], fe_running = [], fe_delivered = [], fe_preempted = [],
      fe_caps = remdups caps, fe_online = True\<rparr>"

definition fakeCanHandle :: "string \<Rightarrow> FakeExec \<Rightarrow> bool" where
  "fakeCanHandle typ f =
     (if \<not> fe_online f \<or> int (length (fe_used f)) \<ge> fe_slots f then False
      else if typ = '''' \<or> ''*'' \<in> set (fe_caps f) then True
      else typ \<in> set (fe_caps f))"

definition fakeCapable :: "string \<Rightarrow> FakeExec \<Rightarrow> bool" where
  "fakeCapable typ f =
     (if \<not> fe_online f then False else typ = '''' \<or> ''*'' \<in> set (fe_caps f) \<or> typ \<in> set (fe_caps f))"

definition fakeHasPreemptibleTask :: "FakeExec \<Rightarrow> bool" where
  "fakeHasPreemptibleTask f = list_ex (\<lambda>e. Rank (t_Priority (snd e)) \<ge> Rank PriorityNormal) (fe_running f)"

definition fakeReserveSlot :: "string \<Rightarrow> FakeExec \<Rightarrow> bool \<times> FakeExec" where
  "fakeReserveSlot i f =
     (if \<not> fe_online f \<or> int (length (fe_used f)) \<ge> fe_slots f \<or> i \<in> set (fe_used f) then (False, f)
      else (True, f\<lparr>fe_used := fe_used f @ [i]\<rparr>))"

definition fakeReleaseSlot :: "string \<Rightarrow> FakeExec \<Rightarrow> FakeExec" where
  "fakeReleaseSlot i f = f\<lparr>fe_used := removeAll i (fe_used f), fe_running := adel i (fe_running f)\<rparr>"

definition fakeDeliver :: "Task \<Rightarrow> FakeExec \<Rightarrow> unit res \<times> FakeExec" where
  "fakeDeliver t f =
     (Inr (), f\<lparr>fe_delivered := fe_delivered f @ [t_ID t], fe_running := aput (t_ID t) t (fe_running f)\<rparr>)"

definition fakeRunningTasks :: "FakeExec \<Rightarrow> (string, Task) amap" where
  "fakeRunningTasks f = fold (\<lambda>(k, v) out. aput k v out) (fe_running f) []"

definition fakeExecPreempt :: "string \<Rightarrow> FakeExec \<Rightarrow> FakeExec" where
  "fakeExecPreempt i f = f\<lparr>fe_preempted := fe_preempted f @ [i]\<rparr>"

definition Delivered :: "FakeExec \<Rightarrow> string list" where
  "Delivered f = fe_delivered f"

definition PreemptedIDs :: "FakeExec \<Rightarrow> string list" where
  "PreemptedIDs f = fe_preempted f"

definition SetRunning :: "Task \<Rightarrow> FakeExec \<Rightarrow> FakeExec" where
  "SetRunning t f = f\<lparr>fe_running := aput (t_ID t) t (fe_running f)\<rparr>"

definition SetOnline :: "bool \<Rightarrow> FakeExec \<Rightarrow> FakeExec" where
  "SetOnline v f = f\<lparr>fe_online := v\<rparr>"

definition FreeCount :: "FakeExec \<Rightarrow> int" where
  "FreeCount f = fe_slots f - int (length (fe_used f))"

section \<open>It implements the interface\<close>

definition fakeExec_inv :: "FakeExec \<Rightarrow> bool" where
  "fakeExec_inv f \<longleftrightarrow> distinct (fe_used f) \<and> distinct (map fst (fe_running f))"

interpretation fake: slot_executor "\<lambda>f. set (fe_used f)" fe_slots fe_online fakeCanHandle fakeReserveSlot fakeReleaseSlot fakeExec_inv
proof (unfold_locales, goal_cases)
  case (2 e ty)
  then show ?case by (auto simp: fakeCanHandle_def fakeExec_inv_def distinct_card split: if_splits)
next
  case (3 e tid e')
  then show ?case by (auto simp: fakeReserveSlot_def fakeExec_inv_def distinct_card split: if_splits)
next
  case (4 tid e e')
  then show ?case by (auto simp: fakeReserveSlot_def split: if_splits)
next
  case (5 e tid)
  then show ?case by (auto simp: fakeReserveSlot_def fakeExec_inv_def distinct_card)
next
  case (6 e tid)
  then show ?case by (auto simp: fakeReleaseSlot_def fakeExec_inv_def distinct_removeAll adel_def distinct_map_filter)
qed simp

text \<open>\<open>FreeCount\<close> never goes below zero, and a slot given back can be taken by another task.\<close>

lemma FreeCount_reserve:
  assumes "fakeExec_inv f" "0 \<le> FreeCount f"
  shows "fakeExec_inv (snd (fakeReserveSlot i f)) \<and> 0 \<le> FreeCount (snd (fakeReserveSlot i f))"
  using fake.reserve_keeps [OF assms(1), of i] assms by (auto simp: FreeCount_def fakeExec_inv_def distinct_card)

lemma reserve_released:
  assumes "fakeExec_inv f" "0 \<le> FreeCount f" "fe_online f" "i \<in> set (fe_used f)" "j \<notin> set (fe_used f)"
  shows "fst (fakeReserveSlot j (fakeReleaseSlot i f))"
  using fake.reserve_after_release [OF assms(1), of i j] assms
  by (simp add: FreeCount_def fakeExec_inv_def distinct_card fakeReleaseSlot_def)

text \<open>\<open>RunningTasks\<close> hands out a copy of the map.\<close>

lemma fakeRunningTasks_copy:
  assumes "distinct (map fst (fe_running f))"
  shows "fakeRunningTasks f = fe_running f"
proof -
  have "fold (\<lambda>(k, v) out. aput k v out) m out = out @ m" if "distinct (map fst (out @ m))" for out m
    using that
  proof (induction m arbitrary: out)
    case (Cons e m)
    obtain k v where e: "e = (k, v)" by fastforce
    then have "aput k v out = out @ [(k, v)]" using Cons.prems by (intro aput_new) auto
    then show ?case using Cons.IH [of "out @ [e]"] Cons.prems e by simp
  qed simp
  from this [of "[]" "fe_running f"] show ?thesis using assms by (simp add: fakeRunningTasks_def)
qed

section \<open>It mirrors an external worker\<close>

datatype ExecCall = ExecCan string | ExecCapable string | ExecReserve string | ExecRelease string | ExecPreempt string

fun fakeExecCall :: "ExecCall \<Rightarrow> FakeExec \<Rightarrow> bool \<times> FakeExec" where
  "fakeExecCall (ExecCan ty) f = (fakeCanHandle ty f, f)"
| "fakeExecCall (ExecCapable ty) f = (fakeCapable ty f, f)"
| "fakeExecCall (ExecReserve i) f = fakeReserveSlot i f"
| "fakeExecCall (ExecRelease i) f = (True, fakeReleaseSlot i f)"
| "fakeExecCall (ExecPreempt i) f = (True, fakeExecPreempt i f)"

fun extCall :: "ExecCall \<Rightarrow> ExternalWorker \<Rightarrow> bool \<times> ExternalWorker" where
  "extCall (ExecCan ty) w = (extCanHandle ty w, w)"
| "extCall (ExecCapable ty) w = (extCapable ty w, w)"
| "extCall (ExecReserve i) w = extReserveSlot i w"
| "extCall (ExecRelease i) w = (True, extReleaseSlot i w)"
| "extCall (ExecPreempt i) w = (True, extPreempt i w)"

definition sameSlots :: "unit set \<Rightarrow> FakeExec \<Rightarrow> ExternalWorker \<Rightarrow> bool" where
  "sameSlots u f w \<longleftrightarrow> fe_slots f = ew_slots w \<and> fe_used f = ew_used w \<and> set (fe_caps f) = set (ew_caps w) \<and>
     fe_online f = ew_online w \<and> set (fe_preempted f) = set (ew_preempt w)"

lemmas exec_defs = fakeCanHandle_def extCanHandle_def fakeCapable_def extCapable_def fakeReserveSlot_def extReserveSlot_def
  fakeReleaseSlot_def extReleaseSlot_def fakeExecPreempt_def extPreempt_def

interpretation execs: mirror fakeExecCall extCall "\<lambda>_ _. True" "\<lambda>_. {}" sameSlots
proof
  show "fst (fakeExecCall x f) = fst (extCall x w)" if "sameSlots u f w" for u f w x
    using that by (cases x) (auto simp: sameSlots_def exec_defs)
  show "sameSlots (u \<union> {}) (snd (fakeExecCall x f)) (snd (extCall x w))" if "sameSlots u f w" for u f w x
    using that by (cases x) (auto simp: sameSlots_def exec_defs)
qed

text \<open>A fake executor and an external worker with the same slots and capabilities answer every sequence of calls alike.\<close>

lemma fake_exec_mirrors:
  "fst (runCalls fakeExecCall calls (NewFakeExec i slots caps)) = fst (runCalls extCall calls (newExternalWorker i caps slots))"
proof -
  have "sameSlots {} (NewFakeExec i slots caps) (newExternalWorker i caps slots)"
    by (simp add: sameSlots_def NewFakeExec_def newExternalWorker_def)
  moreover have "fitRun (\<lambda>_ _. True) (\<lambda>_. {}) calls {}" by (induction calls) simp_all
  ultimately show ?thesis using execs.run_same by blast
qed

end
