(* ===== verification/System.thy ===== *)
theory System
  imports Api Startup Fake_Exec
begin

text \<open>
  The whole server as a state machine: \<open>Build\<close> of \<open>internal/runtime\<close>, and the relation whose
  steps are the entry points of the process, in any order: every handler that changes state,
  one dispatch of the scheduler, one pass of each background loop, the end of a run and a lease
  renewal of the in-process worker, and a stop or crash followed by a new start. The steps
  interleave freely; each is atomic.
\<close>

section \<open>Assembling the server\<close>

definition Build :: "call \<Rightarrow> time \<Rightarrow> Config \<Rightarrow> core \<Rightarrow> server" where
  "Build c now cfg st =
     (let cl = NewScheduler st (delayOf (cf_LeaseSeconds cfg)) (cf_FairnessHighWatermark cfg) in
      \<lparr>sv_cl =
         (if cf_EmbeddedWorkerEnabled cfg then
            (case newEmbeddedWorker c (cf_EmbeddedWorkerName cfg) (cf_EmbeddedWorkerSlots cfg) (cf_LeaseSeconds cfg) (co_db st) of
               (w, s1) \<Rightarrow> AddExecutor (pw_id w) (EPool w) (cl\<lparr>cl_core := st\<lparr>co_db := s1\<rparr>\<rparr>))
          else cl),
       sv_mx = NewCollector now\<rparr>)"

text \<open>
  A start of the process on the store and queue it finds. A start that fails ends the process;
  what it did to the store and the queue stays, for the next one.
\<close>

definition boot :: "call \<Rightarrow> time \<Rightarrow> Config \<Rightarrow> startEnv \<Rightarrow> core \<Rightarrow> unit res \<times> server" where
  "boot c now cfg e st =
     (let sv = Build c now cfg st in
      case Start e (cl_core (sv_cl sv)) of (r, st') \<Rightarrow> (r, putCore st' sv))"

section \<open>The steps\<close>

inductive sys_step :: "server \<Rightarrow> server \<Rightarrow> bool" where
  stepSubmit: "submitTask e now body sv = (r, sv') \<Longrightarrow> sys_step sv sv'"
| stepCancel: "cancelTask e tid sv = Some (r, sv') \<Longrightarrow> sys_step sv sv'"
| stepRetryDead: "retryDead busy c f body sv = (r, sv') \<Longrightarrow> sys_step sv sv'"
| stepDiscardDead: "discardDead c body sv = (r, sv') \<Longrightarrow> sys_step sv sv'"
| stepDrainWorker: "drainWorker c wid sv = (r, sv') \<Longrightarrow> sys_step sv sv'"
| stepSubmitDAG: "submitDAG de body sv = (r, sv') \<Longrightarrow> sys_step sv sv'"
| stepRegister: "registerExternalWorker c rbody sv = (r, sv') \<Longrightarrow> sys_step sv sv'"
| stepHeartbeat: "externalHeartbeat c c' hbody sv = (r, sv') \<Longrightarrow> sys_step sv sv'"
| stepClaim: "claimTask c c' wid sv = Some (r, sv') \<Longrightarrow> sys_step sv sv'"
| stepComplete: "completeTask (ce\<lparr>cc_hook := dagHook te\<rparr>) wid cbody sv = Some (r, sv') \<Longrightarrow> sys_step sv sv'"
| stepDispatch: "dispatchOne (d\<lparr>ds_hook := dagHook te\<rparr>) (sv_cl sv) = Some (r, cl') \<Longrightarrow> sys_step sv (sv\<lparr>sv_cl := cl'\<rparr>)"
| stepRunEnds: "runEnds (me\<lparr>mr_hook := dagHook te\<rparr>) h dl eid t w sv = Some sv' \<Longrightarrow> sys_step sv sv'"
| stepRenew: "map_of (cl_execs (sv_cl sv)) eid = Some (EPool w) \<Longrightarrow> leaseTick c t w (svDb sv) = (ok, w', s') \<Longrightarrow>
    sys_step sv ((putDb s' sv)\<lparr>sv_cl := putPool eid w' (sv_cl (putDb s' sv))\<rparr>)"
| stepBeat: "map_of (cl_execs (sv_cl sv)) eid = Some (EPool w) \<Longrightarrow>
    sys_step sv (putDb (heartbeatSink c c' (SnapshotForHeartbeat w) (svDb sv)) sv)"
| stepPromote: "promoteOnce pe (cl_core (sv_cl sv)) = (r2, st') \<Longrightarrow> sys_step sv (putCore st' sv)"
| stepReap: "ReapOnce ra (sv_cl sv) = Some (r3, cl') \<Longrightarrow> sys_step sv (sv\<lparr>sv_cl := cl'\<rparr>)"
| stepSample: "sys_step sv (sv\<lparr>sv_mx := SampleDLQ (DeadCount c (svDb sv)) now (sv_mx sv)\<rparr>)"
| stepStop: "sys_step sv (sv\<lparr>sv_cl := Stop (sv_cl sv)\<rparr>)"
| stepBoot: "0 \<le> cf_EmbeddedWorkerSlots cfg \<Longrightarrow> boot c now cfg se (cl_core (sv_cl sv)) = (r4, sv') \<Longrightarrow> sys_step sv sv'"

inductive_cases sys_stepE: "sys_step sv sv'"

text \<open>The states a deployment can be in: it begins with an empty store and an empty queue.\<close>

definition emptyCore :: core where
  "emptyCore = \<lparr>co_db = emptyDb, co_q = emptyRedis\<rparr>"

inductive reachable :: "server \<Rightarrow> bool" where
  init: "0 \<le> cf_EmbeddedWorkerSlots cfg \<Longrightarrow> boot c now cfg e emptyCore = (r, sv) \<Longrightarrow> reachable sv"
| step: "reachable sv \<Longrightarrow> sys_step sv sv' \<Longrightarrow> reachable sv'"

section \<open>The invariant\<close>

definition sys_inv :: "server \<Rightarrow> bool" where
  "sys_inv sv \<longleftrightarrow> sched_inv False (sv_cl sv) \<and> length (mc_ring (sv_mx sv)) = 600 \<and> length (mc_dlqHistory (sv_mx sv)) \<le> 720"

definition sys_ok :: "server \<Rightarrow> server \<Rightarrow> bool" where
  "sys_ok sv sv' \<longleftrightarrow> sys_inv sv' \<and> evolves (svDb sv) (svDb sv')"

lemma sys_ok_refl: "sys_inv sv \<Longrightarrow> sys_ok sv sv"
  by (simp add: sys_ok_def)

lemma sys_ok_trans: "sys_ok sv sv1 \<Longrightarrow> sys_ok sv1 sv2 \<Longrightarrow> sys_ok sv sv2"
  by (auto simp: sys_ok_def)

lemma sys_ok_inv: "sys_ok sv sv' \<Longrightarrow> sys_inv sv'"
  by (simp add: sys_ok_def)

lemma server_sels [simp]:
  "svDb (putCore st sv) = co_db st" "svQ (putCore st sv) = co_q st" "sv_mx (putCore st sv) = sv_mx sv"
  "svDb (putDb s sv) = s" "svQ (putDb s sv) = svQ sv" "svDb (putQ q sv) = svDb sv" "svQ (putQ q sv) = q"
  "svDb (putMgr m sv) = svDb sv" "sv_mx (putDb s sv) = sv_mx sv" "sv_mx (putMgr m sv) = sv_mx sv"
  "cl_mgr (sv_cl (putMgr m sv)) = m" "cl_mgr (sv_cl (putDb s sv)) = cl_mgr (sv_cl sv)"
  "cl_mgr (sv_cl (putCore st sv)) = cl_mgr (sv_cl sv)" "cl_core (sv_cl (putMgr m sv)) = cl_core (sv_cl sv)"
  "cl_core (sv_cl (putCore st sv)) = st" "cl_execs (sv_cl (putCore st sv)) = cl_execs (sv_cl sv)"
  by (simp_all add: putDb_def putQ_def putMgr_def putCore_def svDb_def svQ_def)

text \<open>The three ways a step changes the server: through the shared state, the manager, the executors.\<close>

lemma sys_ok_core:
  assumes "sys_inv sv" "core_inv st" "evolves (svDb sv) (co_db st)"
  shows "sys_ok sv (putCore st sv)"
  using assms by (simp add: sys_ok_def sys_inv_def sched_inv_def putCore_def svDb_def)

lemma sys_ok_grow: "sys_inv sv \<Longrightarrow> core_grow (cl_core (sv_cl sv)) st \<Longrightarrow> sys_ok sv (putCore st sv)"
  by (rule sys_ok_core) (simp_all add: core_grow_def svDb_def)

lemma sys_ok_db: "sys_inv sv \<Longrightarrow> db_inv s \<Longrightarrow> rows_live (svDb sv) s \<Longrightarrow> sys_ok sv (putDb s sv)"
  unfolding putDb_def by (rule sys_ok_core) (auto simp: sys_inv_def sched_inv_def core_inv_def)

lemma sys_ok_same: "sys_inv sv \<Longrightarrow> tasks s = tasks (svDb sv) \<Longrightarrow> task_attempts s = task_attempts (svDb sv) \<Longrightarrow> sys_ok sv (putDb s sv)"
  using db_inv_cong [of s "svDb sv"] rows_live_refl [of s "svDb sv"]
  by (intro sys_ok_db) (auto simp: sys_inv_def sched_inv_def core_inv_def svDb_def)

lemma sys_ok_q: "sys_inv sv \<Longrightarrow> redis_inv q \<Longrightarrow> sys_ok sv (putQ q sv)"
  unfolding putQ_def by (rule sys_ok_core) (auto simp: sys_inv_def sched_inv_def core_inv_def svDb_def)

lemma sys_ok_mgr:
  assumes "sys_inv sv" "\<And>eid w. map_of (em_workers m) eid = Some w \<Longrightarrow> extOk False w"
  shows "sys_ok sv (putMgr m sv)"
  using assms by (auto simp: sys_ok_def sys_inv_def sched_inv_def putMgr_def svDb_def cluster_fits_def)

lemma sys_ok_cl:
  assumes "sys_inv sv" "sched_inv False cl" "evolves (svDb sv) (co_db (cl_core cl))"
  shows "sys_ok sv (sv\<lparr>sv_cl := cl\<rparr>)"
  using assms by (simp add: sys_ok_def sys_inv_def svDb_def)

section \<open>The handlers keep the invariant\<close>

lemma sys_inv_parts: "sys_inv sv \<Longrightarrow> core_inv (cl_core (sv_cl sv)) \<and> db_inv (svDb sv) \<and> redis_inv (svQ sv)"
  by (simp add: sys_inv_def sched_inv_def core_inv_def svDb_def svQ_def)

lemma RemoveWaitingKind_inv: "redis_inv q \<Longrightarrow> redis_inv (snd (RemoveWaitingKind f k tid q))"
  by (auto simp: RemoveWaitingKind_def redis_inv_def ready_def ZREM_def split: option.splits)

lemma fold_Enqueue_inv: "redis_inv q \<Longrightarrow> redis_inv (fold (\<lambda>t q. snd (Enqueue (f (t_ID t)) (t_Priority t) (t_ID t) q)) ts q)"
  by (induction ts arbitrary: q) (auto simp: redis_inv_steps)

lemma submitTask_ok: "sys_inv sv \<Longrightarrow> submitTask e now body sv = (r, sv') \<Longrightarrow> sys_ok sv sv'"
  using sys_ok_grow [OF _ Submit_grow, of sv e] sys_inv_parts [of sv]
  by (auto simp: submitTask_def sys_ok_refl split: sum.splits prod.splits) (metis snd_conv)+

lemma cancelTask_ok:
  assumes "sys_inv sv" "cancelTask e tid sv = Some (r, sv')"
  shows "sys_ok sv sv'"
proof -
  obtain x s1 where c: "CancelTask (ce_cancel e) tid (svDb sv) = (x, s1)" by fastforce
  have 1: "sys_ok sv (putDb s1 sv)"
    using sys_ok_db [OF assms(1) CancelTask_inv CancelTask_live, of "ce_cancel e" tid] sys_inv_parts [OF assms(1)] c by simp
  have q: "sys_ok sv (putQ (snd (RemoveWaitingKind f k tid (svQ sv1))) sv1)" if "sys_ok sv sv1" for f k sv1
    using sys_ok_trans [OF that sys_ok_q [OF sys_ok_inv [OF that] RemoveWaitingKind_inv]] sys_inv_parts [OF sys_ok_inv [OF that]] by blast
  show ?thesis using assms(2) c 1 q [OF q [OF 1]] sys_ok_refl [OF assms(1)]
    by (auto simp: cancelTask_def Let_def split: sum.splits option.splits)
qed

lemma retryDead_ok:
  assumes "sys_inv sv" "retryDead busy c f body sv = (r, sv')"
  shows "sys_ok sv sv'"
proof (cases body)
  case (Inr ids)
  obtain x s1 where c: "RetryDead busy c ids (svDb sv) = (x, s1)" by fastforce
  have 1: "sys_ok sv (putDb s1 sv)"
    using sys_ok_db [OF assms(1) RetryDead_inv RetryDead_live, of busy c ids] sys_inv_parts [OF assms(1)] c by simp
  have "sys_ok sv (putQ (fold (\<lambda>t q. snd (Enqueue (f (t_ID t)) (t_Priority t) (t_ID t) q)) ts (svQ sv)) (putDb s1 sv))" for ts
    by (rule sys_ok_trans [OF 1 sys_ok_q [OF sys_ok_inv [OF 1] fold_Enqueue_inv]]) (use sys_inv_parts [OF assms(1)] in simp)
  then show ?thesis using assms(2) Inr c 1 sys_ok_refl [OF assms(1)] by (auto simp: retryDead_def split: if_splits sum.splits prod.splits)
qed (use assms in \<open>simp add: retryDead_def sys_ok_refl\<close>)

lemma discardDead_ok:
  assumes "sys_inv sv" "discardDead c body sv = (r, sv')"
  shows "sys_ok sv sv'"
  using assms(2) sys_ok_refl [OF assms(1)] sys_ok_db [OF assms(1) DiscardDead_inv DiscardDead_live, of c] sys_inv_parts [OF assms(1)]
  by (auto simp: discardDead_def split: sum.splits prod.splits) (metis snd_conv)+

lemma drainWorker_ok:
  assumes "sys_inv sv" "drainWorker c wid sv = (r, sv')"
  shows "sys_ok sv sv'"
  using assms(2) sys_ok_same [OF assms(1), of "snd (MarkWorkerDraining c wid (svDb sv))"]
  by (auto simp: drainWorker_def split: sum.splits prod.splits)

lemma submitDAG_ok:
  assumes "sys_inv sv" "submitDAG e body sv = (r, sv')"
  shows "sys_ok sv sv'"
proof -
  have "sys_ok sv (putCore (snd (SubmitDAG e def (cl_core (sv_cl sv)))) sv)" for def
    using sys_ok_grow [OF assms(1) SubmitDAG_grow] sys_inv_parts [OF assms(1)] by blast
  then show ?thesis using assms(2) sys_ok_refl [OF assms(1)]
    by (auto simp: submitDAG_def split: sum.splits prod.splits err.splits) (metis snd_conv)+
qed

section \<open>The external protocol keeps the invariant\<close>

lemma sys_inv_ext: "sys_inv sv \<Longrightarrow> map_of (em_workers (cl_mgr (sv_cl sv))) eid = Some w \<Longrightarrow> extOk False w"
  by (auto simp: sys_inv_def sched_inv_def cluster_fits_def)

lemma sys_ok_putExt:
  assumes "sys_inv sv" "extOk False w"
  shows "sys_ok sv (sv\<lparr>sv_cl := putExt eid w (sv_cl sv)\<rparr>)"
  using assms put_fits(2) [of False "sv_cl sv" w eid] put_frame(2) [of "sv_cl sv" eid w]
  by (intro sys_ok_cl) (auto simp: sys_inv_def sched_inv_def same_frame_def svDb_def)

lemma extHeartbeat_frame:
  assumes "extHeartbeat c c' wid ids m s = (r, m', s')"
  shows "em_workers m' = em_workers m" "tasks s' = tasks s" "task_attempts s' = task_attempts s"
proof -
  have "tasks (snd (Heartbeat c c' w s)) = tasks s" "task_attempts (snd (Heartbeat c c' w s)) = task_attempts s" for w by simp_all
  then show "em_workers m' = em_workers m" "tasks s' = tasks s" "task_attempts s' = task_attempts s"
    using assms by (auto simp: extHeartbeat_def split: option.splits sum.splits prod.splits; metis snd_conv)+
qed

lemma beat_ok:
  assumes "sys_inv sv"
  shows "sys_ok sv (snd (beat c c' wid ids sv))"
proof -
  obtain r m s1 where h: "extHeartbeat c c' wid ids (cl_mgr (sv_cl sv)) (svDb sv) = (r, m, s1)" by (metis prod.collapse)
  have m: "sys_ok sv (putMgr m sv)"
    using sys_inv_ext [OF assms] extHeartbeat_frame(1) [OF h] by (intro sys_ok_mgr [OF assms]) simp
  have "sys_ok (putMgr m sv) (putDb s1 (putMgr m sv))"
    using extHeartbeat_frame(2,3) [OF h] by (intro sys_ok_same [OF sys_ok_inv [OF m]]) simp_all
  from sys_ok_trans [OF m this] show ?thesis by (simp add: beat_def h)
qed

lemma externalHeartbeat_ok: "sys_inv sv \<Longrightarrow> externalHeartbeat c c' body sv = (r, sv') \<Longrightarrow> sys_ok sv sv'"
  using beat_ok [of sv c c'] by (auto simp: externalHeartbeat_def sys_ok_refl split: sum.splits prod.splits) (metis snd_conv)+

lemma registerLocal_ok:
  assumes "registerLocal wid caps slots m = (w, m')" "\<And>eid x. map_of (em_workers m) eid = Some x \<Longrightarrow> extOk False x"
  shows "map_of (em_workers m') eid = Some x \<Longrightarrow> extOk False x"
  using assms by (auto simp: registerLocal_def Let_def extOk_def refreshWorker_def ext_inv_def newExternalWorker_def
      split: option.splits if_splits)

lemma registerExternalWorker_ok:
  assumes "sys_inv sv" "registerExternalWorker c body sv = (r, sv')"
  shows "sys_ok sv sv'"
proof -
  have reg: "sys_ok sv (putDb s1 (putMgr m sv))"
    if "Register c wid name caps slots (cl_mgr (sv_cl sv)) (svDb sv) = (x, m, s1)" for wid name caps slots x m s1
  proof -
    obtain w m1 where l: "registerLocal wid caps slots (cl_mgr (sv_cl sv)) = (w, m1)" by fastforce
    have s1: "m = m1" "s1 = snd (UpsertWorker c (registeredWorker wid name caps slots) (svDb sv))"
      using that l by (auto simp: Register_def split: sum.splits prod.splits)
    have m: "sys_ok sv (putMgr m sv)"
      using registerLocal_ok [OF l sys_inv_ext [OF assms(1)]] by (intro sys_ok_mgr [OF assms(1)]) (simp add: s1(1))
    have "sys_ok (putMgr m sv) (putDb s1 (putMgr m sv))"
      by (rule sys_ok_same [OF sys_ok_inv [OF m]]) (simp_all add: s1(2))
    with m show ?thesis by (rule sys_ok_trans)
  qed
  have add: "sys_ok sv (sv1\<lparr>sv_cl := AddExecutor eid EExt (sv_cl sv1)\<rparr>)" if "sys_ok sv sv1" for sv1 eid
    using that by (auto simp: sys_ok_def sys_inv_def sched_inv_def AddExecutor_def cluster_fits_def svDb_def)
  show ?thesis using assms(2) reg add [OF reg] sys_ok_refl [OF assms(1)]
    by (auto simp: registerExternalWorker_def Let_def split: sum.splits prod.splits if_splits)
qed

lemma claimTask_ok:
  assumes "sys_inv sv" "claimTask c c' wid sv = Some (r, sv')"
  shows "sys_ok sv sv'"
proof -
  from assms(2) obtain w where w: "map_of (em_workers (cl_mgr (sv_cl sv))) wid = Some w"
    by (auto simp: claimTask_def Get_def split: option.splits)
  obtain x w1 where p: "PollClaim w = (x, w1)" by fastforce
  have "extOk False w1" using sys_inv_ext [OF assms(1) w] p by (auto simp: PollClaim_def extOk_def ext_inv_def split: list.splits)
  from sys_ok_putExt [OF assms(1) this] have 1: "sys_ok sv (sv\<lparr>sv_cl := putExt wid w1 (sv_cl sv)\<rparr>)" .
  define sv2 where "sv2 t = putMgr (TaskStarted wid t (cl_mgr (sv_cl (sv\<lparr>sv_cl := putExt wid w1 (sv_cl sv)\<rparr>)))) (sv\<lparr>sv_cl := putExt wid w1 (sv_cl sv)\<rparr>)" for t
  have 2: "sys_ok sv (sv2 t)" for t unfolding sv2_def using sys_inv_ext [OF sys_ok_inv [OF 1]]
    by (intro sys_ok_trans [OF 1 sys_ok_mgr [OF sys_ok_inv [OF 1]]]) (simp add: TaskStarted_def)
  show ?thesis using assms(2) w p 1 sys_ok_trans [OF 2 beat_ok [OF sys_ok_inv [OF 2]]]
    by (auto simp: claimTask_def Get_def Let_def sv2_def split: option.splits)
qed

lemma posts_ok: "sys_ok sv sv1 \<Longrightarrow> sys_ok sv (sv1\<lparr>sv_cl := (sv_cl sv1)\<lparr>cl_posts := ps\<rparr>\<rparr>)"
  by (simp add: sys_ok_def sys_inv_def sched_inv_def svDb_def)

lemma completeTask_ok:
  assumes "sys_inv sv" "completeTask (e\<lparr>cc_hook := dagHook te\<rparr>) wid body sv = Some (r, sv')"
  shows "sys_ok sv sv'"
proof (rule ccontr)
  assume no: "\<not> sys_ok sv sv'"
  then have ne: "sv' \<noteq> sv" using sys_ok_refl [OF assms(1)] by blast
  from assms(2) ne obtain req t where rq: "body = Inr req" "GetTask (cc_get e) (cq_TaskID req) (svDb sv) = Inr (Some t)"
    by (auto simp: completeTask_def split: sum.splits option.splits)
  from assms(2) rq obtain ps st where rep: "ReportResult (dagHook te) (cc_report e) (t\<lparr>t_WorkerID := wid\<rparr>) (cq_Success req) (cq_Result req)
      (cq_Error req) (cq_Category req) (cl_core (sv_cl sv)) = Some (ps, st)"
    by (auto simp: completeTask_def split: option.splits)
  define sv2 where "sv2 = (putCore st sv)\<lparr>sv_cl := (sv_cl (putCore st sv))\<lparr>cl_posts := cl_posts (sv_cl (putCore st sv)) @ ps\<rparr>\<rparr>"
  have 2: "sys_ok sv sv2" unfolding sv2_def
    by (rule posts_ok [OF sys_ok_grow [OF assms(1) dag.report_grow [OF _ rep]]]) (use sys_inv_parts [OF assms(1)] in simp)
  define sv3 where "sv3 = putMgr (TaskFinished wid (cq_TaskID req) (cl_mgr (sv_cl sv2))) sv2"
  have 3: "sys_ok sv sv3" unfolding sv3_def using sys_inv_ext [OF sys_ok_inv [OF 2]]
    by (intro sys_ok_trans [OF 2 sys_ok_mgr [OF sys_ok_inv [OF 2]]]) (simp add: TaskFinished_def split: option.splits)
  from assms(2) rq rep obtain w where w: "map_of (em_workers (cl_mgr (sv_cl sv3))) wid = Some w"
    by (auto simp: completeTask_def Get_def Let_def sv2_def sv3_def split: option.splits)
  define sv4 where "sv4 = sv3\<lparr>sv_cl := putExt wid (extReleaseSlot (cq_TaskID req) w) (sv_cl sv3)\<rparr>"
  have 4: "sys_ok sv sv4" unfolding sv4_def
    by (rule sys_ok_trans [OF 3 sys_ok_putExt [OF sys_ok_inv [OF 3] ext_steps_ok(2) [OF sys_inv_ext [OF sys_ok_inv [OF 3] w]]]])
  have "sys_ok sv (putDb (snd (IncWorkerStats c wid a b (svDb sv4))) sv4)" for c a b
    by (rule sys_ok_trans [OF 4 sys_ok_same [OF sys_ok_inv [OF 4]]]) simp_all
  from sys_ok_trans [OF this beat_ok [OF sys_ok_inv [OF this]]] show False
    using assms(2) no rq rep w by (auto simp: completeTask_def Get_def Let_def sv2_def sv3_def sv4_def)
qed

section \<open>A dispatch moves rows along their lifecycle\<close>

abbreviation cdb :: "cluster \<Rightarrow> db" where "cdb cl \<equiv> co_db (cl_core cl)"

lemma maybePreempt_evolves:
  assumes "maybePreempt e t cl = (r, cl')"
  shows "evolves (cdb cl) (cdb cl')"
proof (cases "victimScan (Rank (t_Priority t)) (runningOn (t_Type t) cl) None")
  case (Some ev)
  obtain eid v where ev: "ev = (eid, v)" by fastforce
  obtain x s1 where p: "Preempt (ds_preempt e) (t_ID v) ''scheduler'' (cdb cl) = (x, s1)" by fastforce
  define cl2 where "cl2 = ReleaseSlot eid (t_ID v) (PreemptOn eid (t_ID v) (cl\<lparr>cl_core := (cl_core cl)\<lparr>co_db := s1\<rparr>\<rparr>))"
  obtain y cl3 where q: "EnqueueHeadOf (ds_victim e) v cl2 = (y, cl3)" by fastforce
  have "cdb cl3 = s1" using q EnqueueHeadOf_sel(5) [of "ds_victim e" v cl2] by (simp add: cl2_def)
  moreover have "rows_live (cdb cl) s1" using Preempt_live [of "cdb cl" "ds_preempt e" "t_ID v" "''scheduler''"] p by simp
  ultimately show ?thesis using assms Some ev p q by (cases x; cases y) (auto simp: maybePreempt_def Let_def cl2_def)
qed (use assms in \<open>simp add: maybePreempt_def\<close>)

lemma dispatchTo_evolves:
  assumes "terminal_hook (ds_hook e)" "sched_inv b cl" "dispatchTo e prio eid task cl = Some (out, cl')"
  shows "evolves (cdb cl) (cdb cl')"
proof -
  obtain ok cl1 where r: "ReserveSlot eid (t_ID task) cl = (ok, cl1)" by fastforce
  note core1 = ReserveSlot_sel(1) [OF r]
  obtain x s1 where b: "BeginAttempt (ds_begin e) (t_ID task) eid (ds_now e + cl_leaseFor cl1) (cdb cl1) = (x, s1)" by fastforce
  define cl2 where "cl2 = cl1\<lparr>cl_core := (cl_core cl1)\<lparr>co_db := s1\<rparr>\<rparr>"
  have live: "rows_live (cdb cl) s1"
    using BeginAttempt_live [of "cdb cl1" "ds_begin e" "t_ID task" eid "ds_now e + cl_leaseFor cl1"] b core1 by simp
  have "core_inv (cl_core cl2)"
    using BeginAttempt_inv [of "cdb cl1" "ds_begin e" "t_ID task" eid "ds_now e + cl_leaseFor cl1"] b core1 assms(2)
    by (simp add: sched_inv_def core_inv_def cl2_def)
  then have "evolves s1 (cdb cl3)" if "Deliver e eid t cl2 = Some (y, cl3)" for t y cl3
    using Deliver_core [OF assms(1) _ that] by (simp add: core_grow_def cl2_def)
  then have d: "evolves (cdb cl) (cdb cl3)" if "Deliver e eid t cl2 = Some (y, cl3)" for t y cl3
    using live that by (meson converse_rtranclp_into_rtranclp)
  have n: "cdb (notePop prio cl3) = cdb cl3" for cl3 by (simp add: notePop_def)
  show ?thesis using assms(3) r b live d core1
    by (cases ok) (auto simp: dispatchTo_def requeue_def Let_def n cl2_def split: sum.splits option.splits if_splits dest!: idleOr_Some)
qed

lemma dispatchTask_evolves:
  assumes "terminal_hook (ds_hook e)" "sched_inv b cl" "dispatchTask e prio task cl = Some (out, cl')"
  shows "evolves (cdb cl) (cdb cl')"
proof -
  obtain x cl1 where p: "pick (t_Type task) cl = (x, cl1)" by fastforce
  have cl1: "sched_inv b cl1" "cdb cl1 = cdb cl" by (subst pick_sel [OF p], use assms(2) in \<open>simp add: sched_inv_def\<close>)+
  obtain y cl2 where m: "maybePreempt e task cl1 = (y, cl2)" by fastforce
  note cl2 = maybePreempt_inv [OF cl1(1) m] maybePreempt_evolves [OF m, unfolded cl1(2)]
  note d = dispatchTo_evolves [OF assms(1) cl1(1), unfolded cl1(2)] rtranclp_trans [OF cl2(2) dispatchTo_evolves [OF assms(1) cl2(1)]]
  show ?thesis using assms(3) p m d cl1(2) cl2(2)
    by (auto simp: dispatchTask_def requeue_def split: option.splits sum.splits if_splits dest!: idleOr_Some)
qed

lemma dispatchStep_evolves:
  assumes "terminal_hook (ds_hook e)" "sched_inv b cl" "dispatchStep e cl = Some (out, cl')"
  shows "evolves (cdb cl) (cdb cl')"
proof (cases "AllDepths (ds_depths e) (co_q (cl_core cl))")
  case (Inr d)
  obtain x cl1 where c: "choosePriority d cl = (x, cl1)" by fastforce
  have cl1: "sched_inv b cl1" "cdb cl1 = cdb cl" by (subst choosePriority_sel [OF c], use assms(2) in \<open>simp add: sched_inv_def\<close>)+
  show ?thesis
  proof (cases x)
    case (Some p)
    obtain y q where dq: "Dequeue (ds_dequeue e) p (co_q (cl_core cl1)) = (y, q)" by fastforce
    have q: "sched_inv b (cl1\<lparr>cl_core := (cl_core cl1)\<lparr>co_q := q\<rparr>\<rparr>)"
      using redis_inv_steps(4) [of "co_q (cl_core cl1)" "ds_dequeue e" p] dq cl1 by (simp add: sched_inv_def core_inv_def)
    then show ?thesis using assms(3) Inr c dq Some dispatchTask_evolves [OF assms(1) q] cl1(2)
      by (auto simp: dispatchStep_def Let_def split: option.splits sum.splits if_splits)
  qed (use assms(3) Inr c cl1 in \<open>simp add: dispatchStep_def\<close>)
qed (use assms in \<open>simp add: dispatchStep_def\<close>)

lemma dispatchOne_ok:
  assumes "sys_inv sv" "dispatchOne (d\<lparr>ds_hook := dagHook te\<rparr>) (sv_cl sv) = Some (r, cl')"
  shows "sys_ok sv (sv\<lparr>sv_cl := cl'\<rparr>)"
proof -
  from assms(2) obtain out where s: "dispatchStep (d\<lparr>ds_hook := dagHook te\<rparr>) (sv_cl sv) = Some (out, cl')"
    by (auto simp: dispatchOne_def)
  have h: "terminal_hook (ds_hook (d\<lparr>ds_hook := dagHook te\<rparr>))" by (simp add: dag.terminal_hook_axioms)
  have i: "sched_inv False (sv_cl sv)" using assms(1) by (simp add: sys_inv_def)
  show ?thesis using sys_ok_cl [OF assms(1) dispatchStep_inv [OF h i s]] dispatchStep_evolves [OF h i s] by (simp add: svDb_def)
qed

section \<open>The background loops keep the invariant\<close>

lemma enqueueReady_inv: "redis_inv q \<Longrightarrow> redis_inv (snd (enqueueReady f ts n q))"
proof (induction f ts n q rule: enqueueReady.induct)
  case (2 f t ts tot q)
  obtain r q1 where "Enqueue (f (t_ID t)) (t_Priority t) (t_ID t) q = (r, q1)" by fastforce
  then show ?case using 2 redis_inv_steps(2) [OF 2(2), of "f (t_ID t)" "t_Priority t" "t_ID t"] by (cases r) auto
qed simp

lemma readd_inv: "redis_inv q \<Longrightarrow> redis_inv (readd e k ids q)"
  using readd_ok by blast

lemma promoteKind_inv:
  assumes "core_inv st" "promoteKind e k n st = (r, st')"
  shows "core_inv st' \<and> evolves (co_db st) (co_db st')"
proof -
  obtain x q1 where p: "PopDue (po_pop e k) k (po_now e) promoteBatch (co_q st) = (x, q1)" by fastforce
  have q1: "redis_inv q1" using redis_inv_steps(5) [of "co_q st" "po_pop e k" k "po_now e" promoteBatch] assms(1) p by (simp add: core_inv_def)
  have "redis_inv q2" if "enqueueReady f ts n q1 = (y, q2)" for f ts y q2 using enqueueReady_inv [OF q1, of f ts n] that by simp
  moreover have "db_inv s1 \<and> evolves (co_db st) s1" if "MarkReadyByIDs c ids now (co_db st) = (y, s1)" for c ids now y s1
    using MarkReadyByIDs_inv [of "co_db st" c ids now] MarkReadyByIDs_live [of "co_db st" c ids now] assms(1) that
    by (auto simp: core_inv_def)
  ultimately show ?thesis using assms p q1 readd_inv [OF q1]
    by (cases r) (auto simp: promoteKind_def core_inv_def split: sum.splits prod.splits if_splits)
qed

lemma promoteOnce_ok:
  assumes "sys_inv sv" "promoteOnce e (cl_core (sv_cl sv)) = (r, st')"
  shows "sys_ok sv (putCore st' sv)"
proof -
  have st: "core_inv (cl_core (sv_cl sv))" using sys_inv_parts [OF assms(1)] by blast
  obtain er n st1 where k: "promoteKind e WaitDelay 0 (cl_core (sv_cl sv)) = ((er, n), st1)" by (metis prod.collapse)
  note 1 = promoteKind_inv [OF st k]
  have "core_inv st' \<and> evolves (svDb sv) (co_db st')"
    using assms(2) k 1 promoteKind_inv [of st1 e WaitRetry n r st'] by (cases er) (auto simp: promoteOnce_def svDb_def)
  then show ?thesis using sys_ok_core [OF assms(1)] by blast
qed

lemma enqueueReclaimed_inv: "redis_inv q \<Longrightarrow> redis_inv (snd (enqueueReclaimed f rcs n q))"
  using enqueueReclaimed_ok by (metis prod.collapse)

lemma ReapOnce_ok:
  assumes "sys_inv sv" "ReapOnce e (sv_cl sv) = Some (r, cl')"
  shows "sys_ok sv (sv\<lparr>sv_cl := cl'\<rparr>)"
proof -
  let ?cl = "sv_cl sv"
  have inv: "core_inv (cl_core ?cl)" "cluster_fits False ?cl" using assms(1) by (simp_all add: sys_inv_def sched_inv_def)
  obtain x s1 where m: "MarkWorkersOffline (ra_mark e) (ra_now e - ra_ttl e) (cdb ?cl) = (x, s1)" by fastforce
  have s1: "tasks s1 = tasks (cdb ?cl)" "task_attempts s1 = task_attempts (cdb ?cl)"
    using worker_ops_frame(3,4) [of "ra_mark e" "ra_now e - ra_ttl e" "cdb ?cl"] m by simp_all
  then have db1: "db_inv s1" "rows_live (cdb ?cl) s1"
    using db_inv_cong [of s1 "cdb ?cl"] rows_live_refl [of s1 "cdb ?cl"] inv(1) by (simp_all add: core_inv_def)
  have n: "cl_core cl1 = (cl_core ?cl)\<lparr>co_db := s1\<rparr> \<and> cluster_fits False cl1"
    if "notifyAll ws (?cl\<lparr>cl_core := (cl_core ?cl)\<lparr>co_db := s1\<rparr>\<rparr>) = Some cl1" for ws cl1
    using notifyAll_ok [OF that, of False] inv(2) by simp
  have "sched_inv False cl' \<and> evolves (cdb ?cl) (cdb cl')"
  proof (cases x)
    case (Inl er)
    then show ?thesis using assms(2) m db1 inv by (auto simp: ReapOnce_def sched_inv_def core_inv_def)
  next
    case (Inr ws)
    with assms(2) m obtain cl1 where c: "notifyAll ws (?cl\<lparr>cl_core := (cl_core ?cl)\<lparr>co_db := s1\<rparr>\<rparr>) = Some cl1"
      by (auto simp: ReapOnce_def split: option.splits)
    obtain y s2 where r: "ReclaimExpired (ra_accepts e) (ra_reclaim e) (ra_now e) s1 = (y, s2)" by fastforce
    have s2: "db_inv s2" "evolves (cdb ?cl) s2"
      using ReclaimExpired_inv [OF db1(1), of "ra_accepts e" "ra_reclaim e" "ra_now e"] r db1(2)
        ReclaimExpired_live [OF db1(1), of "ra_accepts e" "ra_reclaim e" "ra_now e"] by auto
    show ?thesis
    proof (cases y)
      case (Inl er)
      then show ?thesis using assms(2) m Inr c r s2 n [OF c] inv by (auto simp: ReapOnce_def sched_inv_def core_inv_def)
    next
      case (Inr rcs)
      obtain res q2 where q: "enqueueReclaimed (ra_enqueue e) rcs 0 (co_q (cl_core cl1)) = (res, q2)" by fastforce
      have "redis_inv q2" using enqueueReclaimed_inv [of "co_q (cl_core cl1)" "ra_enqueue e" rcs 0] q n [OF c] inv by (simp add: core_inv_def)
      then show ?thesis using assms(2) m \<open>x = Inr ws\<close> Inr c r q s2 n [OF c] by (auto simp: ReapOnce_def sched_inv_def core_inv_def)
    qed
  qed
  then show ?thesis using sys_ok_cl [OF assms(1)] by (simp add: svDb_def)
qed

section \<open>The in-process worker keeps the invariant\<close>

lemma sys_inv_pool: "sys_inv sv \<Longrightarrow> map_of (cl_execs (sv_cl sv)) eid = Some (EPool w) \<Longrightarrow> poolFits w"
  by (auto simp: sys_inv_def sched_inv_def cluster_fits_def)

lemma sys_ok_putPool:
  assumes "sys_inv sv" "poolFits w"
  shows "sys_ok sv (sv\<lparr>sv_cl := putPool eid w (sv_cl sv)\<rparr>)"
  using assms put_fits(1) [of False "sv_cl sv" w eid] put_frame(1) [of "sv_cl sv" eid w]
  by (intro sys_ok_cl) (auto simp: sys_inv_def sched_inv_def same_frame_def svDb_def)

lemma RecordCompletion_shape:
  assumes "RecordCompletion now p ok lat c = Some c'"
  shows "length (mc_ring c') = length (mc_ring c)" "mc_dlqHistory c' = mc_dlqHistory c"
  using assms by (auto simp: RecordCompletion_def Let_def split: if_splits)

lemma metricReport_ok:
  assumes "sys_inv sv" "metricReport (e\<lparr>mr_hook := dagHook te\<rparr>) t r sv = Some sv'"
  shows "sys_ok sv sv' \<and> cl_execs (sv_cl sv') = cl_execs (sv_cl sv)"
proof -
  from assms(2) obtain ps st where rep: "ReportResult (dagHook te) (mr_report e) t (rr_success r) (rr_result r) (rr_error r) (rr_category r)
      (cl_core (sv_cl sv)) = Some (ps, st)" by (auto simp: metricReport_def split: option.splits)
  define sv2 where "sv2 = (putCore st sv)\<lparr>sv_cl := (sv_cl (putCore st sv))\<lparr>cl_posts := cl_posts (sv_cl (putCore st sv)) @ ps\<rparr>\<rparr>"
  have 2: "sys_ok sv sv2" unfolding sv2_def
    by (rule posts_ok [OF sys_ok_grow [OF assms(1) dag.report_grow [OF _ rep]]]) (use sys_inv_parts [OF assms(1)] in simp)
  from assms(2) rep obtain p ok lat now mx where mx: "RecordCompletion now p ok lat (sv_mx sv2) = Some mx" "sv' = sv2\<lparr>sv_mx := mx\<rparr>"
    by (auto simp: metricReport_def Let_def sv2_def)
  have "sys_ok sv sv'" using 2 RecordCompletion_shape [OF mx(1)] by (simp add: mx(2) sys_ok_def sys_inv_def svDb_def)
  then show ?thesis by (simp add: mx(2) sv2_def)
qed

lemma runEnds_ok:
  assumes "sys_inv sv" "runEnds (e\<lparr>mr_hook := dagHook te\<rparr>) h dl eid t w sv = Some sv'"
  shows "sys_ok sv sv'"
proof -
  obtain rep w' where r: "runOneEnd h dl t w = (rep, w')" by fastforce
  from assms(2) r obtain sv1 where
    sv1: "(case rep of None \<Rightarrow> Some sv | Some r \<Rightarrow> metricReport (e\<lparr>mr_hook := dagHook te\<rparr>) t r sv) = Some sv1"
    and sv': "sv' = (if map_of (cl_execs (sv_cl sv)) eid = Some (EPool w) then sv1\<lparr>sv_cl := putPool eid w' (sv_cl sv1)\<rparr> else sv1)"
    by (auto simp: runEnds_def)
  have 1: "sys_ok sv sv1" using sv1 metricReport_ok [OF assms(1)] sys_ok_refl [OF assms(1)] by (auto split: option.splits)
  have "poolFits w'" if "map_of (cl_execs (sv_cl sv)) eid = Some (EPool w)"
    using poolStep_fits [OF sys_inv_pool [OF assms(1) that], of "PoEnd h dl t"] r by simp
  then show ?thesis using 1 sys_ok_trans [OF 1 sys_ok_putPool [OF sys_ok_inv [OF 1]]] by (auto simp: sv')
qed

lemma leaseTick_fits:
  assumes "poolFits w" "leaseTick c t w s = (ok, w', s')"
  shows "poolFits w'"
proof -
  have cancel: "pool_inv (w\<lparr>pw_tasks := aput tid x (pw_tasks w)\<rparr>) \<and> poolUsed (w\<lparr>pw_tasks := aput tid x (pw_tasks w)\<rparr>) = poolUsed w"
    if "map_of (pw_tasks w) tid = Some it" for tid x it
  proof -
    have "tid \<in> fst ` set (pw_tasks w)" using map_of_SomeD [OF that] by force
    then have "fst ` set (aput tid x (pw_tasks w)) = fst ` set (pw_tasks w)" by (auto simp: keys_aput)
    then show ?thesis using assms(1) by (simp add: poolFits_def pool_inv_def poolUsed_def)
  qed
  have "w' = w \<or> (\<exists>it x. map_of (pw_tasks w) (t_ID t) = Some it \<and> w' = w\<lparr>pw_tasks := aput (t_ID t) x (pw_tasks w)\<rparr>)"
    using assms(2) by (auto simp: leaseTick_def split: prod.splits bool.splits option.splits)
  then have "pool_inv w' \<and> poolUsed w' = poolUsed w \<and> pw_slots w' = pw_slots w"
    using cancel assms(1) by (auto simp: poolFits_def)
  then show ?thesis using assms(1) by (simp add: poolFits_def)
qed

lemma leaseTick_ok:
  assumes "sys_inv sv" "map_of (cl_execs (sv_cl sv)) eid = Some (EPool w)" "leaseTick c t w (svDb sv) = (ok, w', s')"
  shows "sys_ok sv ((putDb s' sv)\<lparr>sv_cl := putPool eid w' (sv_cl (putDb s' sv))\<rparr>)"
proof -
  have "s' = snd (RenewLease c (t_ID t) (pw_id w) (k_gonow c + pw_leaseSeconds w * Second) (svDb sv))"
    using assms(3) by (auto simp: leaseTick_def engineRenewLease_def split: prod.splits sum.splits bool.splits)
  then have 1: "sys_ok sv (putDb s' sv)"
    using sys_ok_db [OF assms(1) RenewLease_inv RenewLease_live] sys_inv_parts [OF assms(1)] by simp
  show ?thesis
    by (rule sys_ok_trans [OF 1 sys_ok_putPool [OF sys_ok_inv [OF 1] leaseTick_fits [OF sys_inv_pool [OF assms(1,2)] assms(3)]]])
qed

lemma heartbeatSink_ok: "sys_inv sv \<Longrightarrow> sys_ok sv (putDb (heartbeatSink c c' sn (svDb sv)) sv)"
  by (rule sys_ok_same) (simp_all add: heartbeatSink_def)

section \<open>Starting and stopping keep the invariant\<close>

lemma map_of_drain: "map_of (map (\<lambda>x. (fst x, drainExec (snd x))) xs) eid = map_option drainExec (map_of xs eid)"
  by (induction xs) auto

lemma drainExec_pool: "drainExec x = EPool w \<Longrightarrow> \<exists>w0. x = EPool w0 \<and> w = drainEnd (drainBegin w0)"
  by (cases x) (auto simp: drainExec_def)

lemma Stop_ok:
  assumes "sys_inv sv"
  shows "sys_ok sv (sv\<lparr>sv_cl := Stop (sv_cl sv)\<rparr>)"
proof -
  have "poolFits w" if m: "map_of (cl_execs (Stop (sv_cl sv))) eid = Some (EPool w)" for eid w
  proof -
    obtain w0 where "map_of (cl_execs (sv_cl sv)) eid = Some (EPool w0)" "w = drainEnd (drainBegin w0)"
      using m drainExec_pool by (fastforce simp: Stop_def map_of_drain)
    then show ?thesis
      using sys_inv_pool [OF assms] poolStep_fits [of w0 PoDrainBegin] poolStep_fits [of "drainBegin w0" PoDrainEnd] by simp
  qed
  moreover have "cl_mgr (Stop (sv_cl sv)) = cl_mgr (sv_cl sv)" "cl_core (Stop (sv_cl sv)) = cl_core (sv_cl sv)"
    by (simp_all add: Stop_def)
  ultimately have "sched_inv False (Stop (sv_cl sv))" using assms by (simp add: cluster_fits_def sys_inv_def sched_inv_def)
  then show ?thesis using assms by (intro sys_ok_cl) (simp_all add: Stop_def svDb_def)
qed

lemma rebuildLoop_inv: "redis_inv q \<Longrightarrow> redis_inv (snd (rebuildLoop f now es q))"
proof (induction es arbitrary: q)
  case (Cons e es)
  let ?due = "case pe_ExecuteAfter e of None \<Rightarrow> now | Some t \<Rightarrow> t"
  obtain r q1 where a: "AddWaiting (f (pe_ID e)) WaitRetry (pe_ID e) ?due q = (r, q1)" by fastforce
  have "redis_inv q1" using redis_inv_steps(1) [OF Cons.prems, of "f (pe_ID e)" WaitRetry "pe_ID e" ?due] a by simp
  then show ?case using Cons.IH a by (cases r) auto
qed simp

lemma Start_inv:
  assumes "core_inv st" "Start e st = (r, st')"
  shows "core_inv st' \<and> evolves (co_db st) (co_db st')"
proof -
  obtain x s1 where rc: "RecoverInflight (sa_recover e) (sa_late e) (sa_audit e) (co_db st) = (x, s1)" by fastforce
  have s1: "db_inv s1" "rows_live (co_db st) s1"
    using RecoverInflight_inv [of "co_db st" "sa_recover e" "sa_late e" "sa_audit e"] assms(1) rc
      RecoverInflight_live [of "co_db st" "sa_recover e" "sa_late e" "sa_audit e"] by (simp_all add: core_inv_def)
  have q: "redis_inv (fold (\<lambda>t q. snd (Enqueue (sa_enqueue e (t_ID t)) (t_Priority t) (t_ID t) q)) ts (co_q st))" for ts
    using fold_Enqueue_inv [of "co_q st" "sa_enqueue e" ts] assms(1) by (simp add: core_inv_def)
  have rb: "core_inv st2 \<and> co_db st2 = co_db st1" if "core_inv st1" "RebuildWaitSets c now f st1 = (y, st2)" for c now f st1 y st2
    using that rebuildLoop_inv [of "co_q st1" f now]
    by (auto simp: RebuildWaitSets_def core_inv_def split: sum.splits prod.splits) (metis snd_conv)
  show ?thesis
  proof (cases x)
    case (Inl er)
    then show ?thesis using assms rc s1 by (auto simp: Start_def core_inv_def)
  next
    case (Inr tr)
    obtain ts rcl where tr: "tr = (ts, rcl)" by fastforce
    have i: "core_inv (st\<lparr>co_db := s1, co_q := fold (\<lambda>t q. snd (Enqueue (sa_enqueue e (t_ID t)) (t_Priority t) (t_ID t) q)) ts (co_q st)\<rparr>)"
      using s1 q by (simp add: core_inv_def)
    have "RebuildWaitSets (sa_pending e) (sa_now e) (sa_waiting e)
        (st\<lparr>co_db := s1, co_q := fold (\<lambda>t q. snd (Enqueue (sa_enqueue e (t_ID t)) (t_Priority t) (t_ID t) q)) ts (co_q st)\<rparr>) = (r, st')"
      using assms(2) rc Inr tr by (simp add: Start_def)
    from rb [OF i this] show ?thesis using s1(2) by auto
  qed
qed

lemma Build_ok:
  assumes "core_inv st" "0 \<le> cf_EmbeddedWorkerSlots cfg"
  shows "sys_inv (Build c now cfg st) \<and> evolves (co_db st) (svDb (Build c now cfg st))"
proof -
  let ?w = "\<lparr>w_ID = cf_EmbeddedWorkerName cfg, w_Name = cf_EmbeddedWorkerName cfg,
         w_Capabilities = [''*'', ''sample.echo'', ''sample.flaky'', ''sample.slow'', ''sample.compute''],
         w_TotalSlots = cf_EmbeddedWorkerSlots cfg, w_UsedSlots = 0, w_Status = Online, w_LastHeartbeat = zeroTime, w_CurrentTaskIDs = [],
         w_Completed = 0, w_Failed = 0, w_CreatedAt = zeroTime\<rparr> :: Worker"
  let ?s = "snd (UpsertWorker c ?w (co_db st))"
  have "db_inv ?s" "rows_live (co_db st) ?s"
    using db_inv_cong [of ?s "co_db st"] rows_live_refl [of ?s "co_db st"] assms(1) by (simp_all add: core_inv_def)
  then show ?thesis using assms NewWorker_fits
    by (auto simp: Build_def Let_def sys_inv_def sched_inv_def core_inv_def NewScheduler_def AddExecutor_def newEmbeddedWorker_def
        cluster_fits_def emptyManager_def NewCollector_def svDb_def)
qed

lemma boot_ok:
  assumes "core_inv st" "0 \<le> cf_EmbeddedWorkerSlots cfg" "boot c now cfg e st = (r, sv)"
  shows "sys_inv sv \<and> evolves (co_db st) (svDb sv)"
proof -
  let ?b = "Build c now cfg st"
  note b = Build_ok [OF assms(1,2), of c now]
  obtain st' where s: "Start e (cl_core (sv_cl ?b)) = (r, st')" and sv: "sv = putCore st' ?b"
    using assms(3) by (auto simp: boot_def Let_def split: prod.splits)
  have "core_inv st' \<and> evolves (svDb ?b) (co_db st')"
    using Start_inv [OF _ s] sys_inv_parts [of ?b] b by (simp add: svDb_def)
  then have "sys_ok ?b sv" unfolding sv using b by (intro sys_ok_core) simp_all
  then show ?thesis using b by (auto simp: sys_ok_def)
qed

section \<open>Every step keeps the invariant\<close>

lemma sys_step_ok:
  assumes "sys_step sv sv'" "sys_inv sv"
  shows "sys_ok sv sv'"
  using assms
proof cases
  case (stepSample c now)
  then show ?thesis using assms(2)
    by (auto simp: sys_ok_def sys_inv_def svDb_def SampleDLQ_def Let_def split: sum.split)
next
  case (stepBoot cfg c now se r)
  then show ?thesis using boot_ok [OF _ stepBoot] sys_inv_parts [OF assms(2)] by (simp add: sys_ok_def svDb_def)
qed (use assms(2) in \<open>simp_all add: submitTask_ok cancelTask_ok retryDead_ok discardDead_ok drainWorker_ok submitDAG_ok
  registerExternalWorker_ok externalHeartbeat_ok claimTask_ok completeTask_ok dispatchOne_ok runEnds_ok leaseTick_ok heartbeatSink_ok
  promoteOnce_ok ReapOnce_ok Stop_ok\<close>)

lemma reachable_inv: "reachable sv \<Longrightarrow> sys_inv sv"
proof (induction rule: reachable.induct)
  case (init cfg c now e r sv)
  have "db_inv emptyDb" by (simp add: db_inv_def emptyDb_def idem_unique_def attempts_numbered_def running_open_def)
  then show ?case using boot_ok [OF _ init] by (simp add: core_inv_def emptyCore_def redis_inv_empty)
next
  case (step sv sv')
  then show ?case using sys_ok_inv [OF sys_step_ok] by blast
qed

lemma sys_steps_evolve:
  assumes "sys_step\<^sup>*\<^sup>* sv sv'" "sys_inv sv"
  shows "sys_inv sv' \<and> evolves (svDb sv) (svDb sv')"
  using assms
proof (induction rule: rtranclp_induct)
  case (step sv1 sv2)
  then show ?case using sys_step_ok [OF step(2)] by (auto simp: sys_ok_def)
qed simp

end
