(* ===== verification/Spec2Isabelle.thy ===== *)
theory Spec2Isabelle
  imports System
begin

text \<open>
  AsyncFlow is a task scheduler: a Go server (\<open>src/asyncflow/backend\<close>) that keeps tasks, their
  attempts, workers and DAGs in Postgres, the ready queues and the waiting sets in Redis, and
  hands ready tasks to executors. This development models the server's own code and proves what
  makes it correct. Paths below are relative to \<open>src/asyncflow/backend/internal\<close>.

  \<^bold>\<open>The program.\<close> A client submits a task or a DAG through the HTTP API. The task engine stores
  the task and puts its id into the ready queue of its priority, or into the delay set when it
  is due later. The scheduler takes ids from the queues, leases the task in the store
  (\<open>BeginAttempt\<close>, a compare-and-swap on the status) and delivers it to an executor with a free
  slot: the worker inside the process, or an external worker that polls for its claims. The end
  of a run goes back to the engine (\<open>ReportResult\<close>), which completes the attempt, decides on a
  retry and calls the DAG engine's hook when the task is finished, and that hook launches the
  nodes whose dependencies are done. Beside this run the delay scheduler, which promotes due
  tasks, and the reaper, which marks silent workers offline and takes their tasks back. A
  restart recovers the tasks that were running and refills the queues from the store.

  \<^bold>\<open>Theories and sources,\<close> in the order in which they build on each other.

  \<^item> \<open>Prelude\<close>: errors and results, table updates and selects, Go maps, 64-bit wrap-around, the
    parts of Go's \<open>strings\<close> that the sources use.
  \<^item> \<open>Calendar\<close>, \<open>Cron\<close>: Go's UTC calendar, and \<open>domain/cron.go\<close>. The parser returns on every
    input, what it accepts is well formed, and \<open>Next\<close> gives the earliest matching minute of the next 366
    days.
  \<^item> \<open>Domain\<close>: \<open>domain/models.go\<close>, \<open>errcat/errcat.go\<close>. The retry delays, exactly.
  \<^item> \<open>Queues\<close>: \<open>queue/queue.go\<close>, \<open>memory.go\<close>, \<open>redis.go\<close>. The interface \<open>queue.Queue\<close> is the
    locale \<open>ready_queue\<close> and its extension \<open>task_queue\<close>; both implementations interpret it, they
    give the same answers on the ready queues, and popping due tasks is exact.
  \<^item> \<open>Store_Base\<close>, \<open>Store_Tasks\<close>, \<open>Store_Inv\<close>, \<open>Store_Life\<close>, \<open>Store_Workers\<close>: \<open>storage\<close>, with its
    tables as the record \<open>db\<close> and one definition per operation. The invariant \<open>db_inv\<close> (unique ids
    and idempotency keys, attempts numbered without gaps, a running task leased by a worker with an
    open attempt), the lifecycle
    every task row follows, exclusive leases, the life of workers, and that the statement that takes
    expired leases back is rejected.
  \<^item> \<open>Dag_Validate\<close>: \<open>orchestration/validate.go\<close>. Acceptance is exactly well-formedness with no
    cycle, and the layers are a topological order.
  \<^item> \<open>Engine\<close>, \<open>Orchestration\<close>: \<open>engine\<close>, \<open>orchestration/engine.go\<close> and the adapters of
    \<open>runtime\<close> that connect them. A submission is stored and queued once, the retry decision, and
    that a node of a DAG starts only when its dependencies are done.
  \<^item> \<open>Core_Inv\<close>: store and queues together through both engines. What the task engine needs of
    its hook is the locale \<open>terminal_hook\<close>, interpreted on the DAG engine's hook.
  \<^item> \<open>Executors\<close>: \<open>workerpool\<close>, \<open>runtime/embedded.go\<close>, \<open>runtime/external.go\<close>. What the scheduler
    needs of an executor is the locale \<open>slot_executor\<close>, interpreted on both kinds.
  \<^item> \<open>Scheduler\<close>: \<open>scheduler\<close>. Where a dequeued task ends up on every path of a dispatch, the choice
    of the priority and the bound on overtaking, preemption, and the safety of a whole pass.
  \<^item> \<open>Background\<close>: \<open>delayscheduler\<close>, \<open>reaper\<close>, \<open>runtime/runtime.go\<close> (\<open>Start\<close>, \<open>Stop\<close>, the notifier).
    Due tasks are promoted, a restart restores the queues, and what a pass of the reaper does on Postgres:
    it drops silent workers, but their tasks stay running.
  \<^item> \<open>Metrics\<close>, \<open>Config\<close>: \<open>metrics/collector.go\<close>, \<open>config/config.go\<close> with \<open>strconv.Atoi\<close> and
    \<open>time.ParseDuration\<close>. Exact throughput in the first 600 seconds; the configuration's round trip.
  \<^item> \<open>Api\<close>: \<open>api\<close>, one definition per handler, with the answer of every branch.
  \<^item> \<open>Startup\<close>: \<open>New\<close> and \<open>Migrate\<close> of \<open>storage/postgres.go\<close>. When the store counts as reached, and
    that exactly the scripts of the directory run, in name order, up to the first that fails; when the
    server gets past this point.
  \<^item> \<open>Fake_Store\<close>, \<open>Fake_Sim\<close>, \<open>Fake_Exec\<close>: \<open>testutil\<close>, the store and the executor the unit tests run
    the engines against. \<open>Fake_Sim\<close> proves what the fake store's comment promises: on every sequence of
    calls within the limits \<open>mirrored\<close> it gives the answers of the Postgres store, on what callers act on
    (\<open>taskView\<close>). The simulation is the locale \<open>mirror\<close>, interpreted on the two stores, and on the fake
    executor and an external worker. The fake executor is the third instance of \<open>slot_executor\<close>.
  \<^item> \<open>System\<close> and this theory: \<open>Build\<close>, and the server as a state machine whose steps are its entry
    points. The invariant of every reachable state, and the life of a task across all steps.

  \<^bold>\<open>The state.\<close> The record \<open>server\<close> holds the metrics collector and the cluster: the scheduler's
  registry, streak counter and cursor, the external workers' manager, the callbacks sent, and the
  core, which is the store together with the Redis queue. A component works on its own part, and its caller puts
  the result back, as the Go code reaches the shared objects through pointers. Tables are lists of
  rows in scan order. A Go map is an association list whose order is the order in which a \<open>range\<close>
  visits it, so a theorem for all lists covers every visiting order.

  \<^bold>\<open>The outside world.\<close> Every operation takes what the outside answers as an argument. A store call
  takes a \<open>call\<close>: the clocks and possibly a fault. Every failing statement, begin or commit rolls
  the transaction back, so one fault per call stands for them all (a commit that takes effect although
  it reports an error is left out). A Redis call takes its fault, and composite functions
  take records of such answers, with fresh ids and clocks. The theorems hold for all of them. SQL,
  Redis commands and Lua have their documented meaning; text sorts by bytes. Whether the server
  accepts a query text is the parameter \<open>accepts\<close>, with what is known of it as a hypothesis. What the
  web framework parses (body, query strings, times) is an argument of the handlers. A panic (nil
  dereference, index out of range) is \<open>None\<close>.

  \<^bold>\<open>Granularity.\<close> A dispatch, a background pass and a handler are one step each, and steps come in
  any order. A run is two steps, its start (\<open>Deliver\<close>) and its end (\<open>runOneEnd\<close>), with anything in
  between. Interleavings inside one dispatch or one handler are not modelled. The lease discipline
  of the store, where those races are decided, is proved for any sequence of store calls.

  \<^bold>\<open>Bounds and termination.\<close> No definition uses fuel. The loops are structural, or recursions
  with a measure: \<open>nextLoop\<close> up to its limit of 366 days, \<open>durLoop\<close> on the remaining text,
  Kahn's layers on the in-degrees left, a scheduler pass on the Go loop's own bound (at most 129 dispatches).
  The cron value loop, whose counter may wrap around, is a \<^theory_text>\<open>partial_function\<close> that is proved
  to return. Instants and durations are microseconds, the resolution of the database; those of
  \<open>Config\<close> are nanoseconds. Go's \<open>int\<close> wraps around where a value from outside can reach the limit
  (cron fields, delays of a request, configuration); an overflow of an INTEGER column is not modelled.

  \<^bold>\<open>Simplifications.\<close> JSON payloads are opaque, a nil and an empty slice are the same, \<open>float64\<close>
  ratios are exact rationals, \<open>splitCSV\<close> works on bytes, and a channel of negative capacity (which
  panics in \<open>make\<close>) is not modelled. A boot assumes that the configured number of embedded slots is
  not negative, and a boot whose \<open>Start\<close> fails is kept as a state of the server. A report of a missing
  handler inside \<open>Deliver\<close> does not count in the metrics.

  \<^bold>\<open>Not modelled:\<close> the drivers and what the migration scripts do (the tables of the model are those the
  scripts create), tickers and goroutine scheduling, HTTP routing, parsing and encoding, the commands under \<open>cmd\<close> (flags and signals, and a
  smoke client), the TypeScript frontend, and the vendored
  Go toolchain apart from the two parsers named above and \<open>filepath.Ext\<close>. These are I/O, generated or third-party code.

  \<^bold>\<open>What the proofs found.\<close> \<open>Store_Workers\<close> and \<open>Api\<close> show that the two worker queries are no SQL
  statements, so that their endpoints always fail, and that the reclaim query names an ambiguous column;
  \<open>Background\<close> and \<open>Scheduler\<close> show the paths on which an id leaves the queues while its row stays
  behind; \<open>Metrics\<close> shows that a slot of the ring is reused without being cleared; \<open>Executors\<close> that the
  wildcard handler never runs; \<open>Api\<close> that a large delay wraps around; \<open>Cron\<close> that a step of 19 digits lets
  values outside a field in; \<open>Orchestration\<close> that a stale task can start a node again; \<open>Fake_Sim\<close> where the fake
  store parts from the real one.
\<close>

section \<open>Properties of the whole server\<close>

text \<open>
  C1: the invariant of the whole server. In every state a deployment can reach from an empty
  store and an empty queue, through requests, dispatches, background passes, runs, crashes and
  restarts in any order, and whatever faults strike them: the store and the ready queues are
  well formed, no in-process worker holds more tasks than it has slots, no external worker
  holds a task twice, and the collector's ring and history keep their size.
\<close>

theorem system_invariant:
  assumes "reachable sv"
  shows "db_inv (svDb sv) \<and> redis_inv (svQ sv) \<and>
    (\<forall>eid w. map_of (cl_execs (sv_cl sv)) eid = Some (EPool w) \<longrightarrow> usedLocked w \<le> pw_slots w) \<and>
    (\<forall>eid w. map_of (em_workers (cl_mgr (sv_cl sv))) eid = Some w \<longrightarrow> distinct (ew_used w)) \<and>
    length (mc_ring (sv_mx sv)) = 600 \<and> length (mc_dlqHistory (sv_mx sv)) \<le> 720"
proof -
  note i = reachable_inv [OF assms]
  have "usedLocked w \<le> pw_slots w" if "map_of (cl_execs (sv_cl sv)) eid = Some (EPool w)" for eid w
    using sys_inv_pool [OF i that] usedLocked_card [of w] by (simp add: poolFits_def)
  then show ?thesis using i sys_inv_parts [OF i] sys_inv_ext [OF i] by (auto simp: sys_inv_def extOk_def ext_inv_def)
qed

definition sampleBoot :: server where
  "sampleBoot = snd (boot sampleCall 0 (Load (\<lambda>_. '''')) sampleStart emptyCore)"

lemma sampleBoot_reachable: "reachable sampleBoot"
  unfolding sampleBoot_def
  by (rule reachable.init [of "Load (\<lambda>_. '''')", OF _ surjective_pairing]) (simp add: Load_def getenvInt_def)

theorem system_invariant_witness:
  "reachable sampleBoot \<and> db_inv (svDb sampleBoot) \<and> map fst (cl_execs (sv_cl sampleBoot)) = [''embedded-1'']"
proof -
  have "map fst (cl_execs (sv_cl sampleBoot)) = [''embedded-1'']"
    by (simp add: sampleBoot_def boot_def Build_def Let_def Load_def getenv_def newEmbeddedWorker_def AddExecutor_def NewScheduler_def
        NewWorker_def putCore_def split: prod.split)
  then show ?thesis using sampleBoot_reachable system_invariant [OF sampleBoot_reachable] by blast
qed

text \<open>
  C2: the life of a task in the whole server. From any reachable state on, whatever happens, a
  stored task is never lost, its row moves only along the transitions of the lifecycle, its
  attempt counter never falls, and once it has succeeded or has been canceled it stays so.
\<close>

theorem system_lifecycle:
  assumes "reachable sv" "sys_step\<^sup>*\<^sup>* sv sv'" "lookupRow c_id tid (tasks (svDb sv)) = Some r"
  shows "\<exists>r'. lookupRow c_id tid (tasks (svDb sv')) = Some r' \<and> lifecycle\<^sup>*\<^sup>* r r' \<and> c_attempts r \<le> c_attempts r' \<and>
    (c_status r \<in> {StatusSucceeded, StatusCanceled} \<longrightarrow> c_status r' = c_status r)"
proof -
  have "evolves (svDb sv) (svDb sv')" using sys_steps_evolve [OF assms(2) reachable_inv [OF assms(1)]] by blast
  from evolves_lookup [OF this assms(3)] show ?thesis using lifecycle_rtrancl_final by blast
qed

definition sampleRequest :: submitTaskRequest where
  "sampleRequest = \<lparr>st_Type = ''sample.echo'', st_Payload = AnyNil, st_Priority = '''', st_IdempotencyKey = '''', st_MaxRetries = 0,
     st_TimeoutSeconds = 0, st_DelaySeconds = 0, st_CallbackURL = '''', st_RetryPolicy = None\<rparr>"

definition sampleSubmitted :: server where
  "sampleSubmitted = snd (submitTask (sampleSubmit ''t1'') 20 (Inr sampleRequest) sampleBoot)"

theorem system_lifecycle_witness:
  "\<exists>r sv' r'. lookupRow c_id ''t1'' (tasks (svDb sampleSubmitted)) = Some r \<and> c_status r = StatusReady \<and>
     sys_step\<^sup>*\<^sup>* sampleSubmitted sv' \<and> lookupRow c_id ''t1'' (tasks (svDb sv')) = Some r' \<and> lifecycle\<^sup>*\<^sup>* r r'"
proof -
  have s: "sys_step sampleBoot sampleSubmitted"
    unfolding sampleSubmitted_def by (rule sys_step.stepSubmit [OF surjective_pairing])
  have reach: "reachable sampleSubmitted" by (rule reachable.step [OF sampleBoot_reachable s])
  have "map_option c_status (lookupRow c_id ''t1'' (tasks (svDb sampleSubmitted))) = Some StatusReady" by code_simp
  then obtain r where r: "lookupRow c_id ''t1'' (tasks (svDb sampleSubmitted)) = Some r" "c_status r = StatusReady" by auto
  have "sys_step\<^sup>*\<^sup>* sampleSubmitted (sampleSubmitted\<lparr>sv_cl := Stop (sv_cl sampleSubmitted)\<rparr>)"
    by (rule r_into_rtranclp [of sys_step, OF sys_step.stepStop])
  with r show ?thesis using system_lifecycle [OF reach _ r(1)] by blast
qed

end
